(* ===== verification/Prelude.thy ===== *)
theory Prelude
  imports Main "HOL-Library.Word" "HOL-Library.List_Lexorder" "HOL-Library.Product_Lexorder"
    "HOL-Library.Multiset"
begin

text \<open>
  Shared vocabulary of the development: results, the standard-library operations on slices and
  ordered maps that several modules of the crate use, the interfaces (locales) that components
  rely on, and the lemma collections their proofs draw from.

  A Rust \<open>Result<T, E>\<close> is the sum type \<open>'e + 'a\<close>, with \<open>Err e = Inl e\<close> and
  \<open>Ok x = Inr x\<close>; the \<open>?\<close> operator is \<open>res_bind\<close>.
\<close>

named_theorems res_simps \<open>how Ok results of the result combinators decompose\<close>

type_synonym byte = "8 word"

abbreviation Ok :: "'a \<Rightarrow> 'e + 'a" where "Ok \<equiv> Inr"
abbreviation Err :: "'e \<Rightarrow> 'e + 'a" where "Err \<equiv> Inl"

lemma unat_of_nat_byte: "n < 256 \<Longrightarrow> unat (of_nat n :: byte) = n"
  by (simp add: unat_of_nat)

lemma unat_byte_bound: "unat (b :: byte) < 256"
  using unsigned_less [of b] by simp

lemma of_nat_unat_byte: "of_nat (unat (b :: byte)) = b"
  by simp

lemma unat_of_nat_64: "n < 2 ^ 64 \<Longrightarrow> unat (of_nat n :: 64 word) = n"
  by (simp add: unat_of_nat)

lemma unat_64_bound: "unat (w :: 64 word) < 2 ^ 64"
  using unsigned_less [of w] by simp

section \<open>Results\<close>

fun res_bind :: "'e + 'a \<Rightarrow> ('a \<Rightarrow> 'e + 'b) \<Rightarrow> 'e + 'b" where
  "res_bind (Inl e) f = Inl e"
| "res_bind (Inr x) f = f x"

text \<open>\<open>Result::map_err\<close>, \<open>Result::map\<close>, \<open>Option::ok_or\<close>.\<close>

fun map_err :: "('e \<Rightarrow> 'f) \<Rightarrow> 'e + 'a \<Rightarrow> 'f + 'a" where
  "map_err f (Inl e) = Inl (f e)"
| "map_err f (Inr x) = Inr x"

fun map_ok :: "('a \<Rightarrow> 'b) \<Rightarrow> 'e + 'a \<Rightarrow> 'e + 'b" where
  "map_ok f (Inl e) = Inl e"
| "map_ok f (Inr x) = Inr (f x)"

fun ok_or :: "'e \<Rightarrow> 'a option \<Rightarrow> 'e + 'a" where
  "ok_or e None = Inl e"
| "ok_or e (Some x) = Inr x"

fun is_ok :: "'e + 'a \<Rightarrow> bool" where
  "is_ok (Inl e) = False"
| "is_ok (Inr x) = True"

text \<open>\<open>iter().map(f).collect::<Result<Vec<_>, _>>()\<close>: the first error, or all results.\<close>

fun res_map :: "('a \<Rightarrow> 'e + 'b) \<Rightarrow> 'a list \<Rightarrow> 'e + 'b list" where
  "res_map f [] = Ok []"
| "res_map f (x # xs) = res_bind (f x) (\<lambda>y. res_bind (res_map f xs) (\<lambda>ys. Ok (y # ys)))"

text \<open>A loop over \<open>iter().enumerate()\<close> whose body only checks: the first error, if any.\<close>

fun check_from :: "nat \<Rightarrow> (nat \<Rightarrow> 'a \<Rightarrow> 'e + unit) \<Rightarrow> 'a list \<Rightarrow> 'e + unit" where
  "check_from i f [] = Ok ()"
| "check_from i f (x # xs) = res_bind (f i x) (\<lambda>_. check_from (Suc i) f xs)"

abbreviation check_all :: "(nat \<Rightarrow> 'a \<Rightarrow> 'e + unit) \<Rightarrow> 'a list \<Rightarrow> 'e + unit" where
  "check_all \<equiv> check_from 0"

lemma res_bind_cong [fundef_cong]:
  assumes "m = m'" and "\<And>x. m' = Inr x \<Longrightarrow> f x = g x"
  shows "res_bind m f = res_bind m' g"
  using assms by (cases m') auto

lemma map_err_cong [fundef_cong]:
  assumes "m = m'" and "\<And>e. m' = Inl e \<Longrightarrow> f e = g e"
  shows "map_err f m = map_err g m'"
  using assms by (cases m') auto

lemma res_map_cong [fundef_cong]:
  assumes "xs = ys" and "\<And>x. x \<in> set ys \<Longrightarrow> f x = g x"
  shows "res_map f xs = res_map g ys"
proof -
  have "\<forall>x \<in> set ys. f x = g x \<Longrightarrow> res_map f ys = res_map g ys"
    by (induction ys) auto
  with assms show ?thesis by blast
qed

lemma res_bind_Ok [res_simps]: "res_bind m f = Inr y \<longleftrightarrow> (\<exists>x. m = Inr x \<and> f x = Inr y)"
  by (cases m) auto

lemma res_bind_Err [res_simps]:
  "res_bind m f = Inl e \<longleftrightarrow> m = Inl e \<or> (\<exists>x. m = Inr x \<and> f x = Inl e)"
  by (cases m) auto

lemma map_err_Ok [simp]: "map_err f m = Inr x \<longleftrightarrow> m = Inr x"
  by (cases m) auto

lemma map_err_Err [res_simps]: "map_err f m = Inl e \<longleftrightarrow> (\<exists>e'. m = Inl e' \<and> e = f e')"
  by (cases m) auto

lemma map_ok_Ok [res_simps]: "map_ok f m = Inr y \<longleftrightarrow> (\<exists>x. m = Inr x \<and> y = f x)"
  by (cases m) auto

lemma map_ok_Err [res_simps]: "map_ok f m = Inl e \<longleftrightarrow> m = Inl e"
  by (cases m) auto

lemma ok_or_Ok [simp]: "ok_or e m = Inr x \<longleftrightarrow> m = Some x"
  by (cases m) auto

lemma ok_or_Err [res_simps]: "ok_or e m = Inl e' \<longleftrightarrow> m = None \<and> e' = e"
  by (cases m) auto

text \<open>An early return that is an error leaves only the other branch.\<close>

lemma if_Err_Ok [res_simps]: "(if b then Err e else m) = Inr y \<longleftrightarrow> \<not> b \<and> m = Inr y"
  by auto

lemma if_Ok_Err [res_simps]: "(if b then m else Err e) = Inr y \<longleftrightarrow> b \<and> m = Inr y"
  by auto

lemma case_list_Ok [res_simps]:
  "(case xs of [] \<Rightarrow> Err e | x # xs' \<Rightarrow> f x xs') = Inr y \<longleftrightarrow> (\<exists>x xs'. xs = x # xs' \<and> f x xs' = Inr y)"
  by (cases xs) auto

lemma case_option_Ok [res_simps]:
  "(case m of None \<Rightarrow> Err e | Some x \<Rightarrow> f x) = Inr y \<longleftrightarrow> (\<exists>x. m = Some x \<and> f x = Inr y)"
  by (cases m) auto

lemma is_ok_iff: "is_ok m \<longleftrightarrow> (\<exists>x. m = Inr x)"
  by (cases m) auto

lemma res_map_Ok: "res_map f xs = Inr ys \<longleftrightarrow> list_all2 (\<lambda>x y. f x = Inr y) xs ys"
proof (induction xs arbitrary: ys)
  case Nil
  then show ?case by auto
next
  case (Cons x xs)
  then show ?case by (cases ys) (auto simp: res_simps)
qed

lemma res_map_Ok_map: "(\<And>x. x \<in> set xs \<Longrightarrow> f x = Inr (g x)) \<Longrightarrow> res_map f xs = Inr (map g xs)"
  by (induction xs) auto

lemma check_from_Ok: "check_from n f xs = Inr u \<longleftrightarrow> (\<forall>i < length xs. f (n + i) (xs ! i) = Inr ())"
proof (induction xs arbitrary: n)
  case Nil
  then show ?case by simp
next
  case (Cons x xs)
  then show ?case by (auto simp: res_simps All_less_Suc2)
qed

text \<open>The error of a checking loop is that of the first element that fails.\<close>

lemma check_from_Err:
  "check_from n f xs = Inl e \<longleftrightarrow>
    (\<exists>i < length xs. f (n + i) (xs ! i) = Inl e \<and> (\<forall>j < i. f (n + j) (xs ! j) = Inr ()))"
proof (induction xs arbitrary: n)
  case Nil
  then show ?case by simp
next
  case (Cons x xs)
  show ?case
  proof (cases "f n x")
    case (Inl e')
    then show ?thesis by (auto simp: Ex_less_Suc2 All_less_Suc2)
  next
    case (Inr u)
    with Cons.IH [of "Suc n"] show ?thesis by (simp add: Ex_less_Suc2 All_less_Suc2)
  qed
qed

section \<open>Slices\<close>

text \<open>\<open>slice.get(from..to)\<close>: \<open>None\<close> when the range is reversed or leaves the slice.\<close>

definition slice_get :: "nat \<Rightarrow> nat \<Rightarrow> 'a list \<Rightarrow> 'a list option" where
  "slice_get from to xs =
     (if from \<le> to \<and> to \<le> length xs then Some (take (to - from) (drop from xs)) else None)"

text \<open>\<open>slice.get(i)\<close>.\<close>

definition nth_opt :: "'a list \<Rightarrow> nat \<Rightarrow> 'a option" where
  "nth_opt xs i = (if i < length xs then Some (xs ! i) else None)"

text \<open>\<open>slice.strip_prefix(p)\<close> and \<open>str::strip_prefix\<close>.\<close>

fun strip_prefix :: "'a list \<Rightarrow> 'a list \<Rightarrow> 'a list option" where
  "strip_prefix [] xs = Some xs"
| "strip_prefix (p # ps) [] = None"
| "strip_prefix (p # ps) (x # xs) = (if p = x then strip_prefix ps xs else None)"

text \<open>\<open>iter().position(p)\<close>.\<close>

fun position :: "('a \<Rightarrow> bool) \<Rightarrow> 'a list \<Rightarrow> nat option" where
  "position p [] = None"
| "position p (x # xs) = (if p x then Some 0 else map_option Suc (position p xs))"

lemma nth_opt_Some [simp]: "nth_opt xs i = Some x \<longleftrightarrow> i < length xs \<and> xs ! i = x"
  by (auto simp: nth_opt_def)

lemma nth_opt_None [simp]: "nth_opt xs i = None \<longleftrightarrow> length xs \<le> i"
  by (auto simp: nth_opt_def)

lemma nth_opt_Cons_0 [simp]: "nth_opt (x # xs) 0 = Some x"
  by (simp add: nth_opt_def)

lemma nth_opt_Cons_Suc [simp]: "nth_opt (x # xs) (Suc i) = nth_opt xs i"
  by (simp add: nth_opt_def)

lemma nth_opt_Nil [simp]: "nth_opt [] i = None"
  by (simp add: nth_opt_def)

lemma strip_prefix_Some: "strip_prefix ps xs = Some ys \<longleftrightarrow> xs = ps @ ys"
  by (induction ps xs rule: strip_prefix.induct) auto

lemma strip_prefix_append [simp]: "strip_prefix ps (ps @ xs) = Some xs"
  by (simp add: strip_prefix_Some)

lemma position_Some:
  "position p xs = Some i \<longleftrightarrow> i < length xs \<and> p (xs ! i) \<and> (\<forall>j < i. \<not> p (xs ! j))"
proof (induction xs arbitrary: i)
  case Nil
  then show ?case by simp
next
  case (Cons x xs)
  then show ?case by (cases i) (auto simp: All_less_Suc2)
qed

lemma position_None: "position p xs = None \<longleftrightarrow> (\<forall>x \<in> set xs. \<not> p x)"
  by (induction xs) auto

section \<open>Codecs\<close>

text \<open>The success value of a result, forgetting which error it was.\<close>

fun res_ok :: "'e + 'a \<Rightarrow> 'a option" where
  "res_ok (Inl e) = None"
| "res_ok (Inr x) = Some x"

lemma res_ok_Some [simp]: "res_ok m = Some x \<longleftrightarrow> m = Inr x"
  by (cases m) auto

text \<open>
  A strict decoder accepts only what the encoder emits: then no two inputs decode to the same
  value, which is what makes it safe to sign bytes. A codec that also reads back what it writes
  makes the encoder injective on the values it is meant for.
\<close>

locale strict_codec =
  fixes enc :: "'a \<Rightarrow> 'b option"
    and dec :: "'b \<Rightarrow> 'a option"
  assumes dec_canonical: "dec b = Some a \<Longrightarrow> enc a = Some b"
begin

lemma dec_inj: "dec b = Some a \<Longrightarrow> dec b' = Some a \<Longrightarrow> b = b'"
  using dec_canonical [of b a] dec_canonical [of b' a] by simp

lemma noncanonical_refused: "enc a = Some b \<Longrightarrow> b' \<noteq> b \<Longrightarrow> dec b' \<noteq> Some a"
  using dec_canonical by fastforce

end

locale round_trip_codec = strict_codec +
  fixes fit :: "'a \<Rightarrow> bool"
  assumes enc_dec: "fit a \<Longrightarrow> enc a = Some b \<Longrightarrow> dec b = Some a"
begin

lemma enc_inj: "fit a \<Longrightarrow> fit a' \<Longrightarrow> enc a = Some b \<Longrightarrow> enc a' = Some b \<Longrightarrow> a = a'"
  using enc_dec [of a b] enc_dec [of a' b] by simp

lemma dec_iff: "fit a \<Longrightarrow> dec b = Some a \<longleftrightarrow> enc a = Some b"
  using dec_canonical enc_dec by blast

end

end
