(* ===== verification/Float64.thy ===== *)
theory Float64
  imports Prelude
begin

unbundle bit_operations_syntax

text \<open>
  \<open>f64\<close> as its IEEE 754 bit pattern, and the operations on floats the crate uses: classification
  (\<open>codec/encode.rs\<close>, \<open>codec/decode.rs\<close>) and the comparisons and casts of \<open>policy/mod.rs\<close>.
  Every double is an integer multiple of \<open>2 ^ -1074\<close>; \<open>f64_scaled\<close> is that integer, so that
  comparing and truncating doubles is exact integer arithmetic.
\<close>

type_synonym f64 = "64 word"

definition f64_exponent :: "f64 \<Rightarrow> nat" where
  "f64_exponent w = unat w div 2 ^ 52 mod 2048"

definition f64_mantissa :: "f64 \<Rightarrow> nat" where
  "f64_mantissa w = unat w mod 2 ^ 52"

definition f64_negative :: "f64 \<Rightarrow> bool" where
  "f64_negative w \<longleftrightarrow> 2 ^ 63 \<le> unat w"

definition f64_is_finite :: "f64 \<Rightarrow> bool" where
  "f64_is_finite w \<longleftrightarrow> f64_exponent w \<noteq> 2047"

definition f64_is_nan :: "f64 \<Rightarrow> bool" where
  "f64_is_nan w \<longleftrightarrow> f64_exponent w = 2047 \<and> f64_mantissa w \<noteq> 0"

text \<open>\<open>value == 0.0\<close>: both zeros.\<close>

definition f64_is_zero :: "f64 \<Rightarrow> bool" where
  "f64_is_zero w \<longleftrightarrow> w = 0 \<or> w = 0x8000000000000000"

text \<open>The value times \<open>2 ^ 1074\<close>; the infinities get a magnitude above every finite one.\<close>

definition f64_scaled :: "f64 \<Rightarrow> int" where
  "f64_scaled w =
     (let m = (if f64_exponent w = 0 then f64_mantissa w
               else (2 ^ 52 + f64_mantissa w) * 2 ^ (f64_exponent w - 1))
      in if f64_negative w then - int m else int m)"

datatype ordering = Less | Equal | Greater

fun reverse_ordering :: "ordering \<Rightarrow> ordering" where
  "reverse_ordering Less = Greater"
| "reverse_ordering Equal = Equal"
| "reverse_ordering Greater = Less"

definition cmp :: "'a::linorder \<Rightarrow> 'a \<Rightarrow> ordering" where
  "cmp a b = (if a < b then Less else if a = b then Equal else Greater)"

text \<open>\<open>f64::partial_cmp\<close>.\<close>

definition f64_partial_cmp :: "f64 \<Rightarrow> f64 \<Rightarrow> ordering option" where
  "f64_partial_cmp a b =
     (if f64_is_nan a \<or> f64_is_nan b then None else Some (cmp (f64_scaled a) (f64_scaled b)))"

section \<open>Casts\<close>

definition i128_min :: int where "i128_min = - (2 ^ 127)"
definition i128_max :: int where "i128_max = 2 ^ 127 - 1"

text \<open>\<open>f as i128\<close> for a finite \<open>f\<close>: towards zero, saturating.\<close>

definition f64_to_i128 :: "f64 \<Rightarrow> int" where
  "f64_to_i128 w =
     (let s = f64_scaled w; t = sgn s * (\<bar>s\<bar> div 2 ^ 1074) in max i128_min (min i128_max t))"

fun bit_length :: "nat \<Rightarrow> nat" where
  "bit_length n = (if n = 0 then 0 else Suc (bit_length (n div 2)))"

declare bit_length.simps [simp del]

text \<open>
  The value of \<open>i as f64\<close>: the integer with 53 significant bits nearest to \<open>i\<close>, ties to even.
\<close>

definition round_nat :: "nat \<Rightarrow> nat" where
  "round_nat n =
     (if n < 2 ^ 53 then n
      else let u = 2 ^ (bit_length n - 53); q = n div u; r = n mod u in
        if u < 2 * r \<or> (u = 2 * r \<and> odd q) then (q + 1) * u else q * u)"

definition round_int :: "int \<Rightarrow> int" where
  "round_int i = sgn i * int (round_nat (nat \<bar>i\<bar>))"

section \<open>Lemmas\<close>

lemma f64_bits_split: "unat w = f64_exponent w * 2 ^ 52 + f64_mantissa w + (if f64_negative w then 2 ^ 63 else 0)"
proof -
  define n where "n = unat w"
  have n: "n < 2 ^ 64" unfolding n_def by (rule unat_64_bound)
  then have "n div 2 ^ 52 < 4096" by (simp add: less_mult_imp_div_less)
  moreover have "n div 2 ^ 52 < 2048 \<longleftrightarrow> n < 2 ^ 63" by (simp add: div_less_iff_less_mult)
  ultimately have "n div 2 ^ 52 = n div 2 ^ 52 mod 2048 + (if 2 ^ 63 \<le> n then 2048 else 0)"
    using le_mod_geq [of 2048 "n div 2 ^ 52"] by auto
  then have "n = (n div 2 ^ 52 mod 2048 + (if 2 ^ 63 \<le> n then 2048 else 0)) * 2 ^ 52 + n mod 2 ^ 52"
    by (metis div_mult_mod_eq)
  then show ?thesis unfolding f64_exponent_def f64_mantissa_def f64_negative_def n_def [symmetric]
    by (auto split: if_splits)
qed

lemma f64_scaled_zero: "f64_scaled w = 0 \<longleftrightarrow> f64_is_zero w"
proof -
  have "f64_scaled w = 0 \<longleftrightarrow> f64_exponent w = 0 \<and> f64_mantissa w = 0"
    by (auto simp: f64_scaled_def Let_def)
  also have "\<dots> \<longleftrightarrow> unat w = 0 \<or> unat w = 2 ^ 63"
    using f64_bits_split [of w] by (auto simp: f64_exponent_def f64_mantissa_def split: if_splits)
  also have "\<dots> \<longleftrightarrow> f64_is_zero w"
    by (auto simp: f64_is_zero_def word_unat_eq_iff)
  finally show ?thesis .
qed

lemma cmp_simps [simp]:
  "cmp a b = Less \<longleftrightarrow> a < b" "cmp a b = Equal \<longleftrightarrow> a = b" "cmp a b = Greater \<longleftrightarrow> b < a"
  by (auto simp: cmp_def)

lemma case_ordering_Ok [res_simps]:
  "(case c of Less \<Rightarrow> m | Equal \<Rightarrow> Err a | Greater \<Rightarrow> Err b) = Inr y \<longleftrightarrow> c = Less \<and> m = Inr y"
  by (cases c) auto

lemma reverse_cmp [simp]: "reverse_ordering (cmp a b) = cmp b a"
  by (auto simp: cmp_def)

lemma bit_length_bounds: "0 < n \<Longrightarrow> 2 ^ (bit_length n - 1) \<le> n \<and> n < 2 ^ bit_length n"
proof (induction n rule: bit_length.induct)
  case (1 n)
  show ?case
  proof (cases "n = 1")
    case True
    then show ?thesis by (simp add: bit_length.simps)
  next
    case False
    with "1.prems" have h: "0 < n div 2" by simp
    with 1 have IH: "2 ^ (bit_length (n div 2) - 1) \<le> n div 2" "n div 2 < 2 ^ bit_length (n div 2)"
      by auto
    have "0 < bit_length (n div 2)" using h by (subst bit_length.simps) simp
    then obtain k where k: "bit_length (n div 2) = Suc k" by (cases "bit_length (n div 2)") auto
    have "bit_length n = Suc (Suc k)" using "1.prems" k by (subst bit_length.simps) simp
    define p :: nat where "p = 2 ^ k"
    have "p \<le> n div 2" "n div 2 < 2 * p" using IH by (simp_all add: k p_def)
    then have "2 * p \<le> n" "n < 4 * p" by linarith+
    then show ?thesis by (simp add: \<open>bit_length n = Suc (Suc k)\<close> p_def)
  qed
qed

section \<open>Exact conversions\<close>

lemma exponent_less: "2 ^ a \<le> n \<Longrightarrow> n < 2 ^ b \<Longrightarrow> a < b" for n :: nat
proof (rule ccontr)
  assume "2 ^ a \<le> n" "n < 2 ^ b" "\<not> a < b"
  moreover from this have "(2::nat) ^ b \<le> 2 ^ a" by simp
  ultimately show False by (meson leD le_trans)
qed

lemma round_nat_mult_power: "m < 2 ^ 53 \<Longrightarrow> round_nat (m * 2 ^ k) = m * 2 ^ k"
proof (cases "m * 2 ^ k < 2 ^ 53")
  case False
  assume m: "m < 2 ^ 53"
  define n where "n = m * 2 ^ k"
  have n: "n < 2 ^ (53 + k)" using m by (simp add: n_def power_add)
  from False have "0 < n" by (cases m) (simp_all add: n_def)
  then have "2 ^ (bit_length n - 1) \<le> n" using bit_length_bounds by blast
  then have "bit_length n - 1 < 53 + k" using n by (rule exponent_less)
  then have "bit_length n - 53 \<le> k" by simp
  then have dvd: "2 ^ (bit_length n - 53) dvd n" by (simp add: n_def le_imp_power_dvd)
  then have "n mod 2 ^ (bit_length n - 53) = 0" "n div 2 ^ (bit_length n - 53) * 2 ^ (bit_length n - 53) = n"
    by auto
  then show ?thesis using False by (simp add: round_nat_def Let_def n_def [symmetric])
qed (simp add: round_nat_def)

lemma round_nat_small: "n < 2 ^ 53 \<Longrightarrow> round_nat n = n"
  by (simp add: round_nat_def)

lemma round_nat_large: "2 ^ 53 \<le> n \<Longrightarrow> 2 ^ 53 \<le> round_nat n"
proof -
  assume n: "2 ^ 53 \<le> n"
  then have "0 < n" by simp
  note b = bit_length_bounds [OF this]
  have bl: "53 < bit_length n" using n b [THEN conjunct2] by (rule exponent_less)
  define u :: nat where "u = 2 ^ (bit_length n - 53)"
  obtain d where d: "bit_length n = 54 + d" using bl less_eqE [of 54 "bit_length n"] by auto
  have u: "u = 2 * 2 ^ d" by (simp add: u_def d)
  have "(2::nat) ^ (bit_length n - 1) = 2 ^ 52 * u" by (simp add: u d power_add)
  then have "2 ^ 52 * u \<le> n" using b by linarith
  then have q: "2 ^ 52 \<le> n div u" using div_le_mono [of "2 ^ 52 * u" n u] by (simp add: u)
  have "2 \<le> u" by (simp add: u)
  then have "2 ^ 53 \<le> n div u * u" using mult_le_mono [OF q, of 2 u] by simp
  then show ?thesis using n by (auto simp: round_nat_def Let_def u_def [symmetric])
qed

lemma round_int_small: "\<bar>i\<bar> < 2 ^ 53 \<Longrightarrow> round_int i = i"
  by (simp add: round_int_def round_nat_small sgn_mult_abs)

lemma round_int_mult_power: "\<bar>m\<bar> < 2 ^ 53 \<Longrightarrow> round_int (m * 2 ^ k) = m * 2 ^ k"
proof -
  assume "\<bar>m\<bar> < 2 ^ 53"
  then have "nat \<bar>m * 2 ^ k\<bar> = nat \<bar>m\<bar> * 2 ^ k" "nat \<bar>m\<bar> < 2 ^ 53"
    by (simp_all add: abs_mult nat_mult_distrib nat_power_eq)
  then show ?thesis
    by (simp add: round_int_def round_nat_mult_power sgn_mult mult.assoc [symmetric] sgn_mult_abs)
qed

text \<open>An integer of magnitude \<open>2 ^ 53\<close> or more keeps its sign and stays that large.\<close>

lemma round_int_large: "2 ^ 53 \<le> i \<Longrightarrow> 2 ^ 53 \<le> round_int i" "i \<le> - (2 ^ 53) \<Longrightarrow> round_int i \<le> - (2 ^ 53)"
proof -
  have large: "2 ^ 53 \<le> int (round_nat (nat \<bar>i\<bar>))" if "2 ^ 53 \<le> \<bar>i\<bar>"
    using that round_nat_large [of "nat \<bar>i\<bar>"] by simp
  show "2 ^ 53 \<le> i \<Longrightarrow> 2 ^ 53 \<le> round_int i" using large by (simp add: round_int_def)
  show "i \<le> - (2 ^ 53) \<Longrightarrow> round_int i \<le> - (2 ^ 53)" using large by (simp add: round_int_def)
qed

text \<open>A finite double is an integer of at most 53 significant bits, or smaller than \<open>2 ^ 52\<close>.\<close>

lemma f64_scaled_cases:
  obtains m k where "f64_scaled w = m * 2 ^ k * 2 ^ 1074" "\<bar>m\<bar> < 2 ^ 53"
  | "\<bar>f64_scaled w\<bar> < 2 ^ 52 * 2 ^ 1074"
proof -
  have m: "f64_mantissa w < 2 ^ 52" by (simp add: f64_mantissa_def)
  define M where "M = (2 ^ 52 + f64_mantissa w)"
  have M: "M < 2 ^ 53" using m by (simp add: M_def)
  define e where "e = f64_exponent w - 1"
  have normal: "f64_scaled w = (if f64_negative w then - (int M * 2 ^ e) else int M * 2 ^ e)"
    if "f64_exponent w \<noteq> 0"
    using that by (simp add: f64_scaled_def Let_def M_def e_def)
  consider (zero) "f64_exponent w = 0" | (big) "f64_exponent w \<noteq> 0" "1074 \<le> e"
    | (small) "f64_exponent w \<noteq> 0" "e < 1074" by fastforce
  then show ?thesis
  proof cases
    case zero
    have "int (f64_mantissa w) < 2 ^ 52" using m by simp
    also have "\<dots> \<le> 2 ^ 52 * 2 ^ 1074" by simp
    finally have "\<bar>f64_scaled w\<bar> < 2 ^ 52 * 2 ^ 1074" using zero by (simp add: f64_scaled_def Let_def)
    then show ?thesis by (rule that(2))
  next
    case big
    define p where "p = e - 1074"
    have e: "e = p + 1074" using big by (simp add: p_def)
    define P :: int where "P = 2 ^ 1074"
    have "(2::int) ^ e = 2 ^ p * P" unfolding e power_add P_def ..
    then have "int M * 2 ^ e = int M * 2 ^ p * P" by (simp only: mult.assoc)
    then have "f64_scaled w = (if f64_negative w then - int M else int M) * 2 ^ p * P"
      using normal [OF big(1)] by simp
    then have "f64_scaled w = (if f64_negative w then - int M else int M) * 2 ^ p * 2 ^ 1074"
      unfolding P_def .
    moreover have "\<bar>if f64_negative w then - int M else int M\<bar> < 2 ^ 53" using M by simp
    ultimately show ?thesis by (rule that(1))
  next
    case small
    have "\<bar>f64_scaled w\<bar> = int M * 2 ^ e"
      using normal [OF small(1)] by simp
    also have "\<dots> < 2 ^ 53 * 2 ^ e" using M by simp
    also have "\<dots> \<le> 2 ^ 53 * 2 ^ 1073" using small by (intro mult_left_mono power_increasing) auto
    also have "\<dots> = 2 ^ 52 * 2 ^ 1074" by simp
    finally show ?thesis by (rule that(2))
  qed
qed

end
