(* ===== verification/Ordered_Map.thy ===== *)
theory Ordered_Map
  imports Prelude
begin

text \<open>
  \<open>BTreeMap<K, V>\<close>, which the crate uses for IPLD maps, payload fields and its in-memory stores.
  A map is the list of its entries in ascending key order: that order is what iteration,
  \<open>values\<close> and \<open>into_keys\<close> observe. The locale states what the rest of the crate relies on;
  its interpretation shows that the sorted list provides it.
\<close>

type_synonym ('k, 'v) btree = "('k \<times> 'v) list"

definition bt_wf :: "('k::linorder, 'v) btree \<Rightarrow> bool" where
  "bt_wf m \<longleftrightarrow> sorted_wrt (<) (map fst m)"

definition bt_get :: "('k, 'v) btree \<Rightarrow> 'k \<Rightarrow> 'v option" where
  "bt_get m k = map_of m k"

fun bt_insert :: "'k::linorder \<Rightarrow> 'v \<Rightarrow> ('k, 'v) btree \<Rightarrow> ('k, 'v) btree" where
  "bt_insert k v [] = [(k, v)]"
| "bt_insert k v ((k', v') # m) =
     (if k < k' then (k, v) # (k', v') # m
      else if k = k' then (k, v) # m
      else (k', v') # bt_insert k v m)"

fun bt_remove :: "'k \<Rightarrow> ('k, 'v) btree \<Rightarrow> ('k, 'v) btree" where
  "bt_remove k [] = []"
| "bt_remove k ((k', v') # m) = (if k = k' then m else (k', v') # bt_remove k m)"

definition bt_values :: "('k, 'v) btree \<Rightarrow> 'v list" where
  "bt_values m = map snd m"

definition bt_retain :: "('k \<Rightarrow> 'v \<Rightarrow> bool) \<Rightarrow> ('k, 'v) btree \<Rightarrow> ('k, 'v) btree" where
  "bt_retain p m = filter (\<lambda>(k, v). p k v) m"

section \<open>Well-formedness\<close>

lemma bt_wf_Nil [simp, intro]: "bt_wf []"
  by (simp add: bt_wf_def)

lemma bt_wf_Cons: "bt_wf ((k, v) # m) \<longleftrightarrow> bt_wf m \<and> (\<forall>k' \<in> fst ` set m. k < k')"
  by (auto simp: bt_wf_def)

lemma fst_set_bt_insert [simp]: "fst ` set (bt_insert k v m) = insert k (fst ` set m)"
  by (induction k v m rule: bt_insert.induct) auto

lemma set_bt_remove_subset: "set (bt_remove k m) \<subseteq> set m"
  by (induction k m rule: bt_remove.induct) auto

lemma bt_wf_insert [simp, intro]: "bt_wf m \<Longrightarrow> bt_wf (bt_insert k v m)"
  by (induction k v m rule: bt_insert.induct) (auto simp: bt_wf_Cons)

lemma bt_wf_remove [simp, intro]: "bt_wf m \<Longrightarrow> bt_wf (bt_remove k m)"
  using set_bt_remove_subset by (induction k m rule: bt_remove.induct) (fastforce simp: bt_wf_Cons)+

lemma bt_wf_filter [simp, intro]: "bt_wf m \<Longrightarrow> bt_wf (filter P m)"
  by (induction m) (auto simp: bt_wf_Cons)

lemma bt_wf_retain [simp, intro]: "bt_wf m \<Longrightarrow> bt_wf (bt_retain p m)"
  by (auto simp: bt_retain_def)

lemma bt_wf_distinct: "bt_wf m \<Longrightarrow> distinct (map fst m)"
  by (auto simp: bt_wf_def strict_sorted_iff)

section \<open>Lookup\<close>

lemma bt_get_Nil [simp]: "bt_get [] k = None"
  by (simp add: bt_get_def)

lemma bt_get_Cons: "bt_get ((k', v) # m) k = (if k = k' then Some v else bt_get m k)"
  by (simp add: bt_get_def)

lemma bt_get_insert [simp]: "bt_get (bt_insert k v m) k' = (if k' = k then Some v else bt_get m k')"
  by (induction k v m rule: bt_insert.induct) (auto simp: bt_get_Cons)

lemma bt_get_None_iff: "bt_get m k = None \<longleftrightarrow> k \<notin> fst ` set m"
  by (simp add: bt_get_def map_of_eq_None_iff)

lemma bt_get_remove [simp]:
  "bt_wf m \<Longrightarrow> bt_get (bt_remove k m) k' = (if k' = k then None else bt_get m k')"
proof (induction k m rule: bt_remove.induct)
  case (2 k k1 v1 m)
  then have "bt_get m k1 = None" by (auto simp: bt_wf_Cons bt_get_None_iff)
  with 2 show ?case by (auto simp: bt_get_Cons bt_wf_Cons)
qed simp

lemma bt_get_Some_iff: "bt_wf m \<Longrightarrow> bt_get m k = Some v \<longleftrightarrow> (k, v) \<in> set m"
  by (simp add: bt_get_def bt_wf_distinct)

lemma bt_get_retain:
  "bt_wf m \<Longrightarrow> bt_get (bt_retain p m) k =
    (case bt_get m k of None \<Rightarrow> None | Some v \<Rightarrow> if p k v then Some v else None)"
proof (induction m)
  case (Cons e m)
  obtain a b where e: "e = (a, b)" by (cases e)
  with Cons.prems have "bt_get m a = None" "bt_wf m" by (auto simp: bt_wf_Cons bt_get_None_iff)
  with Cons.IH e show ?case by (auto simp: bt_retain_def bt_get_Cons)
qed (simp add: bt_retain_def)

text \<open>Two maps with the same lookups are the same list: iteration observes nothing else.\<close>

lemma bt_ext: "bt_wf m \<Longrightarrow> bt_wf m' \<Longrightarrow> (\<And>k. bt_get m k = bt_get m' k) \<Longrightarrow> m = m'"
proof (induction m arbitrary: m')
  case Nil
  show ?case
  proof (cases m')
    case (Cons e m'')
    with Nil(3) [of "fst e"] show ?thesis by (cases e) (simp add: bt_get_Cons)
  qed simp
next
  case (Cons e m)
  obtain k v where e: "e = (k, v)" by (cases e)
  have in_m': "(a, b) \<in> set m' \<longleftrightarrow> (a, b) \<in> set (e # m)" for a b
    using bt_get_Some_iff [OF Cons.prems(1)] bt_get_Some_iff [OF Cons.prems(2)] Cons.prems(3) by metis
  obtain k' v' m'' where m': "m' = (k', v') # m''"
    using in_m' [of k v] e by (cases m') auto
  have "k \<le> k'" using in_m' [of k' v'] Cons.prems(1) e m' by (force simp: bt_wf_Cons)
  moreover have "k' \<le> k" using in_m' [of k v] Cons.prems(2) e m' by (force simp: bt_wf_Cons)
  ultimately have k: "k' = k" by simp
  with Cons.prems(3) [of k] e m' have v: "v' = v" by (simp add: bt_get_Cons)
  have "bt_get m a = bt_get m'' a" for a
  proof (cases "a = k")
    case True
    with Cons.prems(1,2) e m' k have "a \<notin> fst ` set m" "a \<notin> fst ` set m''" by (auto simp: bt_wf_Cons)
    then show ?thesis by (metis bt_get_None_iff)
  next
    case False
    with Cons.prems(3) [of a] e m' k show ?thesis by (simp add: bt_get_Cons)
  qed
  moreover have "bt_wf m" "bt_wf m''" using Cons.prems(1,2) e m' by (auto simp: bt_wf_Cons)
  ultimately show ?case using Cons.IH e m' k v by blast
qed

section \<open>The interface\<close>

text \<open>What the crate's modules rely on of an ordered map, whatever represents it.\<close>

locale ordered_map =
  fixes empty :: 'm
    and get :: "'m \<Rightarrow> 'k \<Rightarrow> 'v option"
    and ins :: "'k \<Rightarrow> 'v \<Rightarrow> 'm \<Rightarrow> 'm"
    and del :: "'k \<Rightarrow> 'm \<Rightarrow> 'm"
    and wf :: "'m \<Rightarrow> bool"
  assumes wf_empty: "wf empty"
    and wf_ins: "wf m \<Longrightarrow> wf (ins k v m)"
    and wf_del: "wf m \<Longrightarrow> wf (del k m)"
    and get_empty: "get empty k = None"
    and get_ins: "wf m \<Longrightarrow> get (ins k v m) k' = (if k' = k then Some v else get m k')"
    and get_del: "wf m \<Longrightarrow> get (del k m) k' = (if k' = k then None else get m k')"
    and ext: "wf m \<Longrightarrow> wf m' \<Longrightarrow> (\<And>k. get m k = get m' k) \<Longrightarrow> m = m'"
begin

text \<open>Taking out the key just put in, and putting back what was taken out.\<close>

lemma del_ins: "wf m \<Longrightarrow> get m k = None \<Longrightarrow> del k (ins k v m) = m"
  by (rule ext) (auto simp: wf_ins wf_del get_ins get_del)

lemma ins_del: "wf m \<Longrightarrow> get m k = Some v \<Longrightarrow> ins k v (del k m) = m"
  by (rule ext) (auto simp: wf_ins wf_del get_ins get_del)

lemma del_absent: "wf m \<Longrightarrow> get m k = None \<Longrightarrow> del k m = m"
  by (rule ext) (auto simp: wf_del get_del)

lemma ins_commute: "wf m \<Longrightarrow> k \<noteq> k' \<Longrightarrow> ins k v (ins k' v' m) = ins k' v' (ins k v m)"
  by (rule ext) (auto simp: wf_ins get_ins)

lemma del_ins_other: "wf m \<Longrightarrow> k \<noteq> k' \<Longrightarrow> del k (ins k' v m) = ins k' v (del k m)"
  by (rule ext) (auto simp: wf_ins wf_del get_ins get_del)

text \<open>A loop that inserts entries one by one, as the decoders do.\<close>

definition ins_all :: "('k \<times> 'v) list \<Rightarrow> 'm \<Rightarrow> 'm" where
  "ins_all kvs m = foldl (\<lambda>m (k, v). ins k v m) m kvs"

lemma wf_ins_all: "wf m \<Longrightarrow> wf (ins_all kvs m)"
  unfolding ins_all_def by (induction kvs arbitrary: m) (auto simp: wf_ins)

lemma get_ins_all:
  "wf m \<Longrightarrow> distinct (map fst kvs) \<Longrightarrow>
    get (ins_all kvs m) k = (case map_of kvs k of None \<Rightarrow> get m k | Some v \<Rightarrow> Some v)"
  unfolding ins_all_def
proof (induction kvs arbitrary: m)
  case (Cons e kvs)
  obtain a b where e: "e = (a, b)" by (cases e)
  have "map_of kvs a = None" using Cons.prems(2) e by (simp add: map_of_eq_None_iff)
  with Cons e show ?case by (auto simp: wf_ins get_ins split: option.split)
qed simp

end

interpretation bt: ordered_map "[]" bt_get bt_insert bt_remove bt_wf
  by unfold_locales (auto intro: bt_ext)

lemma mset_bt_insert: "k \<notin> fst ` set m \<Longrightarrow> mset (bt_insert k v m) = add_mset (k, v) (mset m)"
  by (induction k v m rule: bt_insert.induct) auto

lemma length_bt_insert: "k \<notin> fst ` set m \<Longrightarrow> length (bt_insert k v m) = Suc (length m)"
  by (induction k v m rule: bt_insert.induct) auto

lemma bt_insert_last: "(\<And>k'. k' \<in> fst ` set m \<Longrightarrow> k' < k) \<Longrightarrow> bt_insert k v m = m @ [(k, v)]"
  by (induction k v m rule: bt_insert.induct) (auto dest: less_asym)

lemma set_ins_all: "distinct (map fst kvs) \<Longrightarrow> set (bt.ins_all kvs []) = set kvs"
proof -
  assume d: "distinct (map fst kvs)"
  have "(k, v) \<in> set (bt.ins_all kvs []) \<longleftrightarrow> (k, v) \<in> set kvs" for k v
  proof -
    have "bt_get (bt.ins_all kvs []) k = map_of kvs k"
      using bt.get_ins_all [of "[]" kvs k] d by (simp split: option.splits)
    then show ?thesis
      using bt_get_Some_iff [OF bt.wf_ins_all, of "[]" kvs k v] map_of_eq_Some_iff [OF d, of k v] by simp
  qed
  then show ?thesis by auto
qed

lemma bt_set_ext: "bt_wf m \<Longrightarrow> bt_wf m' \<Longrightarrow> set m = set m' \<Longrightarrow> m = m'"
proof (rule bt_ext)
  fix k
  assume "bt_wf m" "bt_wf m'" "set m = set m'"
  then have "bt_get m k = Some v \<longleftrightarrow> bt_get m' k = Some v" for v by (simp add: bt_get_Some_iff)
  then show "bt_get m k = bt_get m' k" by (metis not_Some_eq)
qed

end
