(* ===== verification/Rust_Text.thy ===== *)
theory Rust_Text
  imports Prelude
begin

text \<open>
  Rust's \<open>char\<close> and \<open>str\<close>. A \<open>char\<close> is a Unicode scalar value, a type of its own here, so that
  a value of type \<open>str = uchar list\<close> is exactly what a Rust string can hold; \<open>utf8\<close> gives its bytes
  and \<open>from_utf8\<close> is \<open>core::str::from_utf8\<close>. String slices are ordered by their bytes; the last section
  shows that this is the order of the code points.
\<close>

section \<open>Scalar values\<close>

definition scalar :: "nat \<Rightarrow> bool" where
  "scalar n \<longleftrightarrow> n < 0xD800 \<or> (0xE000 \<le> n \<and> n < 0x110000)"

typedef uchar = "{n. scalar n}"
  morphisms code_point Abs_uchar
  by (rule exI [of _ 0]) (simp add: scalar_def)

setup_lifting type_definition_uchar

text \<open>\<open>char::from_u32\<close>, total for literals (0 outside the scalar values) and checked.\<close>

lift_definition uchar_of :: "nat \<Rightarrow> uchar" is "\<lambda>n. if scalar n then n else 0"
  by (simp add: scalar_def)

definition char_from_u32 :: "nat \<Rightarrow> uchar option" where
  "char_from_u32 n = (if scalar n then Some (uchar_of n) else None)"

lemma scalar_code_point [simp]: "scalar (code_point c)"
  using code_point by auto

lemma code_point_uchar_of [simp]: "scalar n \<Longrightarrow> code_point (uchar_of n) = n"
  by transfer simp

lemma uchar_of_code_point [simp]: "uchar_of (code_point c) = c"
  by transfer simp

lemma uchar_eq_iff: "c = d \<longleftrightarrow> code_point c = code_point d"
  by (simp add: code_point_inject)

lemma code_point_bound: "code_point c < 0x110000"
  using scalar_code_point [of c] by (auto simp: scalar_def)

instantiation uchar :: linorder
begin

lift_definition less_eq_uchar :: "uchar \<Rightarrow> uchar \<Rightarrow> bool" is "(\<le>)" .
lift_definition less_uchar :: "uchar \<Rightarrow> uchar \<Rightarrow> bool" is "(<)" .

instance
  by (intro_classes; transfer) auto

end

instantiation uchar :: equal
begin

lift_definition equal_uchar :: "uchar \<Rightarrow> uchar \<Rightarrow> bool" is "(=)" .

instance
  by (intro_classes; transfer) simp

end

lemma uchar_less_iff: "c < d \<longleftrightarrow> code_point c < code_point d"
  by transfer simp

type_synonym str = "uchar list"

text \<open>Literals: \<open>lit ''abc''\<close> is the Rust literal \<open>"abc"\<close>, and \<open>ascii c\<close> the literal \<open>'c'\<close>.\<close>

definition ascii :: "char \<Rightarrow> uchar" where
  "ascii c = uchar_of (of_char c)"

definition lit :: "string \<Rightarrow> str" where
  "lit s = map ascii s"

lemma code_point_ascii [simp]: "code_point (ascii c) = of_char c"
proof -
  have "(of_char c :: nat) < 256" by (metis nat_of_char_less_256)
  then have "scalar (of_char c)" unfolding scalar_def by linarith
  then show ?thesis by (simp add: ascii_def)
qed

lemma ascii_eq_iff [simp]: "ascii c = ascii d \<longleftrightarrow> c = d"
  by (simp add: uchar_eq_iff)

lemma ascii_less_iff: "ascii c < ascii d \<longleftrightarrow> (of_char c :: nat) < of_char d"
  by (simp add: uchar_less_iff)

lemma lit_Nil [simp]: "lit [] = []" and lit_Cons [simp]: "lit (c # s) = ascii c # lit s"
  by (simp_all add: lit_def)

lemma lit_eq_iff [simp]: "lit s = lit t \<longleftrightarrow> s = t"
  by (auto simp: lit_def inj_map_eq_map inj_def)

section \<open>Character classes\<close>

text \<open>\<open>char::is_ascii_digit\<close> and its kin, by code point.\<close>

definition between :: "nat \<Rightarrow> uchar \<Rightarrow> nat \<Rightarrow> bool" where
  "between lo c hi \<longleftrightarrow> lo \<le> code_point c \<and> code_point c \<le> hi"

definition is_ascii_digit :: "uchar \<Rightarrow> bool" where
  "is_ascii_digit c \<longleftrightarrow> between 0x30 c 0x39"

definition is_ascii_lowercase :: "uchar \<Rightarrow> bool" where
  "is_ascii_lowercase c \<longleftrightarrow> between 0x61 c 0x7A"

definition is_ascii_uppercase :: "uchar \<Rightarrow> bool" where
  "is_ascii_uppercase c \<longleftrightarrow> between 0x41 c 0x5A"

definition is_ascii_alphabetic :: "uchar \<Rightarrow> bool" where
  "is_ascii_alphabetic c \<longleftrightarrow> is_ascii_lowercase c \<or> is_ascii_uppercase c"

definition is_ascii_alphanumeric :: "uchar \<Rightarrow> bool" where
  "is_ascii_alphanumeric c \<longleftrightarrow> is_ascii_alphabetic c \<or> is_ascii_digit c"

definition is_ascii_hexdigit :: "uchar \<Rightarrow> bool" where
  "is_ascii_hexdigit c \<longleftrightarrow> is_ascii_digit c \<or> between 0x61 c 0x66 \<or> between 0x41 c 0x46"

lemmas char_class_defs = between_def is_ascii_digit_def is_ascii_lowercase_def
  is_ascii_uppercase_def is_ascii_alphabetic_def is_ascii_alphanumeric_def is_ascii_hexdigit_def

section \<open>UTF-8\<close>

text \<open>\<open>char::encode_utf8\<close>.\<close>

definition utf8_char :: "uchar \<Rightarrow> byte list" where
  "utf8_char c = (let n = code_point c in
     if n < 0x80 then [of_nat n]
     else if n < 0x800 then [of_nat (0xC0 + n div 64), of_nat (0x80 + n mod 64)]
     else if n < 0x10000 then
       [of_nat (0xE0 + n div 4096), of_nat (0x80 + n div 64 mod 64), of_nat (0x80 + n mod 64)]
     else
       [of_nat (0xF0 + n div 262144), of_nat (0x80 + n div 4096 mod 64),
        of_nat (0x80 + n div 64 mod 64), of_nat (0x80 + n mod 64)])"

text \<open>\<open>str::as_bytes\<close>.\<close>

definition utf8 :: "str \<Rightarrow> byte list" where
  "utf8 s = concat (map utf8_char s)"

definition cont_byte :: "byte \<Rightarrow> bool" where
  "cont_byte b \<longleftrightarrow> 0x80 \<le> unat b \<and> unat b \<le> 0xBF"

text \<open>
  One scalar value off the front, with the second-byte ranges that exclude overlong forms,
  surrogates and values above \<open>U+10FFFF\<close>.
\<close>

definition utf8_next :: "byte list \<Rightarrow> (uchar \<times> byte list) option" where
  "utf8_next bs = (case bs of
     [] \<Rightarrow> None
   | b0 # r0 \<Rightarrow> (let n = unat b0 in
       if n < 0x80 then Some (uchar_of n, r0)
       else if 0xC2 \<le> n \<and> n \<le> 0xDF then (case r0 of
           b1 # r1 \<Rightarrow>
             if cont_byte b1 then Some (uchar_of ((n - 0xC0) * 64 + (unat b1 - 0x80)), r1) else None
         | _ \<Rightarrow> None)
       else if 0xE0 \<le> n \<and> n \<le> 0xEF then (case r0 of
           b1 # b2 # r2 \<Rightarrow>
             if (if n = 0xE0 then 0xA0 else 0x80) \<le> unat b1 \<and> unat b1 \<le> (if n = 0xED then 0x9F else 0xBF)
               \<and> cont_byte b2
             then Some (uchar_of ((n - 0xE0) * 4096 + (unat b1 - 0x80) * 64 + (unat b2 - 0x80)), r2)
             else None
         | _ \<Rightarrow> None)
       else if 0xF0 \<le> n \<and> n \<le> 0xF4 then (case r0 of
           b1 # b2 # b3 # r3 \<Rightarrow>
             if (if n = 0xF0 then 0x90 else 0x80) \<le> unat b1 \<and> unat b1 \<le> (if n = 0xF4 then 0x8F else 0xBF)
               \<and> cont_byte b2 \<and> cont_byte b3
             then Some (uchar_of ((n - 0xF0) * 262144 + (unat b1 - 0x80) * 4096 + (unat b2 - 0x80) * 64
               + (unat b3 - 0x80)), r3)
             else None
         | _ \<Rightarrow> None)
       else None))"

text \<open>Base-64 digits.\<close>

lemma div_4096: "(n::nat) div 4096 = n div 64 div 64"
  by (simp add: div_mult2_eq [symmetric])

lemma div_262144: "(n::nat) div 262144 = n div 64 div 64 div 64"
  by (simp add: div_mult2_eq [symmetric])

lemma base64_digit: "(z::nat) < 64 \<Longrightarrow> (a * 64 + z) div 64 = a \<and> (a * 64 + z) mod 64 = z"
  by auto

lemma base64_digits_3:
  assumes "(y::nat) < 64" "z < 64" and m: "m = x * 4096 + y * 64 + z"
  shows "m div 4096 = x" "m div 64 mod 64 = y" "m mod 64 = z"
proof -
  have "m = (x * 64 + y) * 64 + z" by (simp add: m)
  with assms base64_digit [of z "x * 64 + y"] base64_digit [of y x]
  show "m div 4096 = x" "m div 64 mod 64 = y" "m mod 64 = z"
    by (simp_all only: div_4096)
qed

lemma base64_digits_4:
  assumes "(x::nat) < 64" "y < 64" "z < 64" and m: "m = w * 262144 + x * 4096 + y * 64 + z"
  shows "m div 262144 = w" "m div 4096 mod 64 = x" "m div 64 mod 64 = y" "m mod 64 = z"
proof -
  have "m = ((w * 64 + x) * 64 + y) * 64 + z" by (simp add: m)
  with assms base64_digit [of z "(w * 64 + x) * 64 + y"] base64_digit [of y "w * 64 + x"]
    base64_digit [of x w]
  show "m div 262144 = w" "m div 4096 mod 64 = x" "m div 64 mod 64 = y" "m mod 64 = z"
    by (simp_all only: div_4096 div_262144)
qed

lemma base64_recompose_3: "(n::nat) div 4096 * 4096 + n div 64 mod 64 * 64 + n mod 64 = n"
  using div_mult_mod_eq [of n 64] div_mult_mod_eq [of "n div 64" 64] unfolding div_4096 by linarith

lemma base64_recompose_4:
  "(n::nat) div 262144 * 262144 + n div 4096 mod 64 * 4096 + n div 64 mod 64 * 64 + n mod 64 = n"
  using div_mult_mod_eq [of n 64] div_mult_mod_eq [of "n div 64" 64]
    div_mult_mod_eq [of "n div 64 div 64" 64]
  unfolding div_4096 div_262144 by linarith

lemma utf8_next_utf8_char: "utf8_next (utf8_char c @ r) = Some (c, r)"
proof -
  define n where "n = code_point c"
  have n: "scalar n" "c = uchar_of n" by (simp_all add: n_def)
  consider "n < 0x80" | "0x80 \<le> n" "n < 0x800" | "0x800 \<le> n" "n < 0x10000"
    | "0x10000 \<le> n" "n < 0x110000"
    using code_point_bound [of c] by (fastforce simp: n_def)
  then show ?thesis
  proof cases
    case 1
    then show ?thesis using n by (simp add: utf8_next_def utf8_char_def unat_of_nat_byte)
  next
    case 2
    then have "n div 64 < 32" "2 \<le> n div 64" by auto
    with 2 show ?thesis using n
      by (simp add: utf8_next_def utf8_char_def unat_of_nat_byte cont_byte_def Let_def
          del: of_nat_add of_nat_numeral)
  next
    case 3
    define x y z where xyz: "x = n div 4096" "y = n div 64 mod 64" "z = n mod 64"
    have m: "n = x * 4096 + y * 64 + z" using base64_recompose_3 [of n] by (simp add: xyz)
    have yz: "y < 64" "z < 64" by (simp_all add: xyz)
    have x: "x < 16" "x = 0 \<Longrightarrow> 32 \<le> y" using 3 m yz by linarith+
    have x13: "x = 13 \<Longrightarrow> y \<le> 31" using n(1) m yz by (auto simp: scalar_def)
    have u: "utf8_char c = [of_nat (0xE0 + x), of_nat (0x80 + y), of_nat (0x80 + z)]"
      using 3 by (simp add: utf8_char_def Let_def n_def [symmetric] xyz)
    have "uchar_of (x * 4096 + y * 64 + z) = c" using m n by simp
    with x x13 yz show ?thesis unfolding u
      by (simp add: utf8_next_def unat_of_nat_byte cont_byte_def Let_def del: of_nat_add of_nat_numeral)
  next
    case 4
    define w x y z where wxyz: "w = n div 262144" "x = n div 4096 mod 64" "y = n div 64 mod 64"
      "z = n mod 64"
    have m: "n = w * 262144 + x * 4096 + y * 64 + z"
      using base64_recompose_4 [of n] by (simp add: wxyz)
    have xyz: "x < 64" "y < 64" "z < 64" by (simp_all add: wxyz)
    have w: "w < 5" "w = 0 \<Longrightarrow> 16 \<le> x" "w = 4 \<Longrightarrow> x \<le> 15" using 4 m xyz by linarith+
    have u: "utf8_char c = [of_nat (0xF0 + w), of_nat (0x80 + x), of_nat (0x80 + y), of_nat (0x80 + z)]"
      using 4 by (simp add: utf8_char_def Let_def n_def [symmetric] wxyz)
    have "uchar_of (w * 262144 + x * 4096 + y * 64 + z) = c" using m n by simp
    with w xyz show ?thesis unfolding u
      by (simp add: utf8_next_def unat_of_nat_byte cont_byte_def Let_def del: of_nat_add of_nat_numeral)
  qed
qed

lemma utf8_next_Some:
  assumes "utf8_next bs = Some (c, r)"
  shows "bs = utf8_char c @ r"
proof -
  obtain b0 r0 where bs: "bs = b0 # r0"
    using assms by (cases bs) (auto simp: utf8_next_def)
  have b0: "unat b0 < 256" by (rule unat_byte_bound)
  consider (one) "unat b0 < 0x80"
    | (two) b1 where "0xC2 \<le> unat b0" "unat b0 \<le> 0xDF" "r0 = b1 # r" "cont_byte b1"
        "c = uchar_of ((unat b0 - 0xC0) * 64 + (unat b1 - 0x80))"
    | (three) b1 b2 where "0xE0 \<le> unat b0" "unat b0 \<le> 0xEF" "r0 = b1 # b2 # r"
        "(if unat b0 = 0xE0 then 0xA0 else 0x80) \<le> unat b1"
        "unat b1 \<le> (if unat b0 = 0xED then 0x9F else 0xBF)" "cont_byte b2"
        "c = uchar_of ((unat b0 - 0xE0) * 4096 + (unat b1 - 0x80) * 64 + (unat b2 - 0x80))"
    | (four) b1 b2 b3 where "0xF0 \<le> unat b0" "unat b0 \<le> 0xF4" "r0 = b1 # b2 # b3 # r"
        "(if unat b0 = 0xF0 then 0x90 else 0x80) \<le> unat b1"
        "unat b1 \<le> (if unat b0 = 0xF4 then 0x8F else 0xBF)" "cont_byte b2" "cont_byte b3"
        "c = uchar_of ((unat b0 - 0xF0) * 262144 + (unat b1 - 0x80) * 4096 + (unat b2 - 0x80) * 64
          + (unat b3 - 0x80))"
    using assms bs by (auto simp: utf8_next_def Let_def split: if_splits list.splits)
  then show ?thesis
  proof cases
    case one
    with assms bs have "c = uchar_of (unat b0)" "r = r0" by (auto simp: utf8_next_def)
    with one bs show ?thesis by (simp add: utf8_char_def scalar_def)
  next
    case two
    define m where "m = (unat b0 - 0xC0) * 64 + (unat b1 - 0x80)"
    obtain x y where xy: "unat b0 = 0xC0 + x" "unat b1 = 0x80 + y"
      using two by (auto simp: cont_byte_def le_iff_add)
    with two have x: "x < 32" "2 \<le> x" "y < 64" by (auto simp: cont_byte_def)
    have m': "m = x * 64 + y" by (simp add: m_def xy)
    with x have m: "0x80 \<le> m" "m < 0x800" "m div 64 = x" "m mod 64 = y" by auto
    then have "scalar m" by (simp add: scalar_def)
    with m xy two bs show ?thesis
      by (simp add: utf8_char_def Let_def m_def [symmetric] xy [symmetric]
          del: of_nat_add of_nat_numeral)
  next
    case three
    define m where "m = (unat b0 - 0xE0) * 4096 + (unat b1 - 0x80) * 64 + (unat b2 - 0x80)"
    obtain x y z where xyz: "unat b0 = 0xE0 + x" "unat b1 = 0x80 + y" "unat b2 = 0x80 + z"
      using three by (auto simp: cont_byte_def le_iff_add split: if_splits)
    with three have x: "x < 16" "y < 64" "z < 64" "x = 0 \<Longrightarrow> 32 \<le> y" "x = 13 \<Longrightarrow> y < 32"
      by (auto simp: cont_byte_def split: if_splits)
    have m': "m = x * 4096 + y * 64 + z" by (simp add: m_def xyz)
    note digits = base64_digits_3 [OF x(2,3) m']
    have m: "0x800 \<le> m" "m < 0x10000" using m' x by (cases "x = 0"; linarith)+
    have "scalar m" unfolding scalar_def using m' x by (cases "x < 13"; cases "x = 13"; linarith)
    with m digits xyz three bs show ?thesis
      by (simp add: utf8_char_def Let_def m_def [symmetric] xyz [symmetric]
          del: of_nat_add of_nat_numeral)
  next
    case four
    define m where "m = (unat b0 - 0xF0) * 262144 + (unat b1 - 0x80) * 4096 + (unat b2 - 0x80) * 64
      + (unat b3 - 0x80)"
    obtain w x y z where wxyz: "unat b0 = 0xF0 + w" "unat b1 = 0x80 + x" "unat b2 = 0x80 + y"
      "unat b3 = 0x80 + z"
      using four by (auto simp: cont_byte_def le_iff_add split: if_splits)
    with four have w: "w < 5" "x < 64" "y < 64" "z < 64" "w = 0 \<Longrightarrow> 16 \<le> x" "w = 4 \<Longrightarrow> x < 16"
      by (auto simp: cont_byte_def split: if_splits)
    have m': "m = w * 262144 + x * 4096 + y * 64 + z" by (simp add: m_def wxyz)
    note digits = base64_digits_4 [OF w(2-4) m']
    have m: "0x10000 \<le> m" "m < 0x110000" using m' w by (cases "w = 0"; cases "w = 4"; linarith)+
    then have "scalar m" by (simp add: scalar_def)
    with m digits wxyz four bs show ?thesis
      by (simp add: utf8_char_def Let_def m_def [symmetric] wxyz [symmetric]
          del: of_nat_add of_nat_numeral)
  qed
qed

lemma utf8_char_nonempty [simp]: "utf8_char c \<noteq> []"
  by (simp add: utf8_char_def Let_def)

lemma utf8_next_length: "utf8_next bs = Some (c, r) \<Longrightarrow> length r < length bs"
  by (auto dest: utf8_next_Some)

text \<open>\<open>core::str::from_utf8\<close>.\<close>

function from_utf8 :: "byte list \<Rightarrow> str option" where
  "from_utf8 bs =
     (if bs = [] then Some []
      else case utf8_next bs of
        None \<Rightarrow> None
      | Some (c, r) \<Rightarrow> map_option (Cons c) (from_utf8 r))"
  by pat_completeness auto

termination
  by (relation "measure length") (auto dest: utf8_next_length)

declare from_utf8.simps [simp del]

lemma utf8_Nil [simp]: "utf8 [] = []"
  by (simp add: utf8_def)

lemma utf8_Cons [simp]: "utf8 (c # s) = utf8_char c @ utf8 s"
  by (simp add: utf8_def)

lemma utf8_append [simp]: "utf8 (s @ t) = utf8 s @ utf8 t"
  by (simp add: utf8_def)

lemma utf8_eq_Nil [simp]: "utf8 s = [] \<longleftrightarrow> s = []"
  by (cases s) auto

lemma from_utf8_utf8 [simp]: "from_utf8 (utf8 s) = Some s"
proof (induction s)
  case Nil
  show ?case by (simp add: from_utf8.simps)
next
  case (Cons c s)
  then show ?case by (subst from_utf8.simps) (simp add: utf8_next_utf8_char)
qed

lemma utf8_from_utf8: "from_utf8 bs = Some s \<Longrightarrow> utf8 s = bs"
proof (induction bs arbitrary: s rule: from_utf8.induct)
  case (1 bs)
  show ?case
  proof (cases "bs = []")
    case True
    with 1 show ?thesis by (simp add: from_utf8.simps [of "[]"])
  next
    case False
    with 1 obtain c r s' where "utf8_next bs = Some (c, r)" "from_utf8 r = Some s'" "s = c # s'"
      by (subst (asm) (2) from_utf8.simps) (auto split: option.splits)
    with 1 False show ?thesis by (auto dest: utf8_next_Some)
  qed
qed

lemma from_utf8_iff: "from_utf8 bs = Some s \<longleftrightarrow> bs = utf8 s"
  using utf8_from_utf8 by auto

lemma utf8_inject [simp]: "utf8 s = utf8 t \<longleftrightarrow> s = t"
  by (metis from_utf8_utf8 option.inject)

interpretation utf8: round_trip_codec "\<lambda>s. Some (utf8 s)" from_utf8 "\<lambda>_. True"
  by unfold_locales (auto simp: from_utf8_iff)

lemma utf8_char_ascii: "code_point c < 0x80 \<Longrightarrow> utf8_char c = [of_nat (code_point c)]"
  by (simp add: utf8_char_def)

text \<open>\<open>str::len\<close>, in bytes.\<close>

definition str_len :: "str \<Rightarrow> nat" where
  "str_len s = length (utf8 s)"

end
