(* ===== verification/Text_Order.thy ===== *)
theory Text_Order
  imports Rust_Text
begin

text \<open>
  Rust orders strings by their UTF-8 bytes; the ordered maps of the model use the list order over
  code points. This theory shows that the two are the same order.
\<close>

section \<open>The order of strings\<close>

text \<open>
  Rust orders \<open>str\<close> by bytes. UTF-8 keeps the order of the code points, so the list order on
  \<open>str\<close> that the ordered maps use is that order.
\<close>

lemma less_append_prefix_free:
  fixes xs ys :: "'a::linorder list"
  assumes "xs < ys" "\<And>zs. ys \<noteq> xs @ zs"
  shows "xs @ us < ys @ vs"
  using assms
proof (induction xs arbitrary: ys)
  case Nil
  from Nil(2) [of ys] show ?case by simp
next
  case (Cons x xs)
  then obtain y ys' where ys: "ys = y # ys'" by (cases ys) auto
  show ?case
  proof (cases "x = y")
    case True
    with Cons ys show ?thesis by auto
  next
    case False
    with Cons ys show ?thesis by auto
  qed
qed

lemma of_nat_byte_less [simp]:
  "m < 256 \<Longrightarrow> n < 256 \<Longrightarrow> (of_nat m :: byte) < of_nat n \<longleftrightarrow> m < n"
  by (simp add: word_less_nat_alt unat_of_nat)

lemma of_nat_byte_eq [simp]:
  "m < 256 \<Longrightarrow> n < 256 \<Longrightarrow> (of_nat m :: byte) = of_nat n \<longleftrightarrow> m = n"
  by (metis unat_of_nat_byte)

lemma digit_order: "(m::nat) < n \<Longrightarrow> m div 64 < n div 64 \<or> m div 64 = n div 64 \<and> m mod 64 < n mod 64"
  using div_mult_mod_eq [of m 64] div_mult_mod_eq [of n 64] div_le_mono [of m n 64]
  by (cases "m div 64 = n div 64") linarith+

lemma utf8_char_less_append:
  assumes "c < d"
  shows "utf8_char c @ us < utf8_char d @ vs"
proof (rule less_append_prefix_free)
  define m n where mn: "m = code_point c" "n = code_point d"
  have lt: "m < n" and n: "n < 0x110000"
    using assms code_point_bound [of d] by (simp_all add: mn uchar_less_iff)
  note q1 = digit_order [OF lt]
    and q2 = digit_order [of "m div 64" "n div 64"]
    and q3 = digit_order [of "m div 64 div 64" "n div 64 div 64"]
  have top: "k div 64 div 64 div 64 < 5" if "k < 0x110000" for k :: nat
    using that by (simp add: div_mult2_eq [symmetric])
  have top3: "k div 64 div 64 < 16" if "k < 0x10000" for k :: nat
    using that by (simp add: div_mult2_eq [symmetric])
  have top2: "k div 64 < 32" if "k < 0x800" for k :: nat using that by simp
  note defs = utf8_char_def Let_def mn [symmetric] div_4096 div_262144
  consider "n < 0x80" | "m < 0x80" "0x80 \<le> n" | "0x80 \<le> m" "m < 0x800" "n < 0x800"
    | "0x80 \<le> m" "m < 0x800" "0x800 \<le> n" | "0x800 \<le> m" "n < 0x10000"
    | "0x800 \<le> m" "m < 0x10000" "0x10000 \<le> n" | "0x10000 \<le> m" using lt by linarith
  then show "utf8_char c < utf8_char d"
  proof cases
    case 1
    with lt show ?thesis by (simp add: defs)
  next
    case 2
    with n top [of n] top2 [of n] top3 [of n] show ?thesis by (simp add: defs del: of_nat_add of_nat_numeral)
  next
    case 3
    with lt top2 [of n] top2 [of m] q1 show ?thesis by (auto simp add: defs simp del: of_nat_add of_nat_numeral)
  next
    case 4
    with n top [of n] top2 [of m] top3 [of n] show ?thesis by (simp add: defs del: of_nat_add of_nat_numeral)
  next
    case 5
    with lt top3 [of n] top3 [of m] q1 q2 show ?thesis by (auto simp add: defs simp del: of_nat_add of_nat_numeral)
  next
    case 6
    with n top [of n] top3 [of m] show ?thesis by (simp add: defs del: of_nat_add of_nat_numeral)
  next
    case 7
    define m3 m2 m1 m0 where md: "m3 = m div 64 div 64 div 64" "m2 = m div 64 div 64 mod 64"
      "m1 = m div 64 mod 64" "m0 = m mod 64"
    define n3 n2 n1 n0 where nd: "n3 = n div 64 div 64 div 64" "n2 = n div 64 div 64 mod 64"
      "n1 = n div 64 mod 64" "n0 = n mod 64"
    have ord: "m3 < n3 \<or> m3 = n3 \<and> (m2 < n2 \<or> m2 = n2 \<and> (m1 < n1 \<or> m1 = n1 \<and> m0 < n0))"
      using q1 q2 q3 unfolding md nd by metis
    have bd: "m3 < 5" "n3 < 5" "m2 < 64" "n2 < 64" "m1 < 64" "n1 < 64" "m0 < 64" "n0 < 64"
      using top [of n] top [of m] lt n by (simp_all add: md nd)
    have "utf8_char c = [of_nat (0xF0 + m3), of_nat (0x80 + m2), of_nat (0x80 + m1), of_nat (0x80 + m0)]"
      "utf8_char d = [of_nat (0xF0 + n3), of_nat (0x80 + n2), of_nat (0x80 + n1), of_nat (0x80 + n0)]"
      using 7 lt by (simp_all add: defs md nd)
    with ord bd show ?thesis by (simp del: of_nat_add of_nat_numeral)
  qed
next
  fix zs
  show "utf8_char d \<noteq> utf8_char c @ zs"
  proof
    assume eq: "utf8_char d = utf8_char c @ zs"
    have "utf8_next (utf8_char d) = Some (d, [])" using utf8_next_utf8_char [of d "[]"] by simp
    then have "d = c" unfolding eq utf8_next_utf8_char by simp
    with assms show False by simp
  qed
qed

lemma utf8_less_mono: "s < t \<Longrightarrow> utf8 s < utf8 t"
proof (induction s arbitrary: t)
  case Nil
  then show ?case by (cases t; cases "utf8 t") auto
next
  case (Cons c s)
  then obtain d t' where t: "t = d # t'" by (cases t) auto
  show ?case
  proof (cases "c = d")
    case True
    with Cons t have "utf8 s < utf8 t'" by simp
    then have "us @ utf8 s < us @ utf8 t'" for us by (induction us) auto
    with True t show ?thesis by simp
  next
    case False
    with Cons.prems t show ?thesis by (simp add: utf8_char_less_append)
  qed
qed

text \<open>The order of the ordered maps of this model is the byte order of the code.\<close>

lemma str_less_iff_bytes_less: "s < t \<longleftrightarrow> utf8 s < utf8 t"
  using utf8_less_mono [of s t] utf8_less_mono [of t s]
  by (metis less_asym linorder_neqE)

end
