(* ===== verification/Text_Ops.thy ===== *)
theory Text_Ops
  imports Rust_Text
begin

text \<open>
  The methods of \<open>str\<close> the crate calls, and the integer parsers and printers of \<open>core\<close>
  (\<open>to_string\<close>, \<open>parse\<close>, \<open>from_str_radix\<close>).
\<close>

section \<open>Searching and splitting\<close>

fun starts_with_char :: "uchar \<Rightarrow> str \<Rightarrow> bool" where
  "starts_with_char c [] = False"
| "starts_with_char c (x # s) = (x = c)"

definition ends_with_char :: "uchar \<Rightarrow> str \<Rightarrow> bool" where
  "ends_with_char c s \<longleftrightarrow> s \<noteq> [] \<and> last s = c"

text \<open>\<open>str::contains(&str)\<close>.\<close>

fun contains_str :: "str \<Rightarrow> str \<Rightarrow> bool" where
  "contains_str p [] = (p = [])"
| "contains_str p (c # s) = (strip_prefix p (c # s) \<noteq> None \<or> contains_str p s)"

text \<open>\<open>str::split_once(char)\<close>: the text before and after the first occurrence.\<close>

fun split_once :: "uchar \<Rightarrow> str \<Rightarrow> (str \<times> str) option" where
  "split_once c [] = None"
| "split_once c (x # s) =
     (if x = c then Some ([], s)
      else case split_once c s of None \<Rightarrow> None | Some (a, b) \<Rightarrow> Some (x # a, b))"

text \<open>\<open>str::split(char)\<close>: the pieces between the occurrences, at least one.\<close>

fun split_char :: "uchar \<Rightarrow> str \<Rightarrow> str list" where
  "split_char c [] = [[]]"
| "split_char c (x # s) =
     (if x = c then [] # split_char c s
      else case split_char c s of [] \<Rightarrow> [[x]] | p # ps \<Rightarrow> (x # p) # ps)"

text \<open>
  \<open>str.get(n..)\<close> and \<open>str.get(..n)\<close> at a byte offset: \<open>None\<close> past the end or inside a character.
\<close>

fun split_at_byte :: "nat \<Rightarrow> str \<Rightarrow> (str \<times> str) option" where
  "split_at_byte n [] = (if n = 0 then Some ([], []) else None)"
| "split_at_byte n (c # s) =
     (if n = 0 then Some ([], c # s)
      else if length (utf8_char c) \<le> n then
        (case split_at_byte (n - length (utf8_char c)) s of
           None \<Rightarrow> None
         | Some (a, b) \<Rightarrow> Some (c # a, b))
      else None)"

lemma contains_str_iff: "contains_str p s \<longleftrightarrow> (\<exists>a b. s = a @ p @ b)"
proof (induction s)
  case Nil
  then show ?case by auto
next
  case (Cons c s)
  have "(\<exists>b. c # s = p @ b) \<or> (\<exists>a b. s = a @ p @ b) \<longleftrightarrow> (\<exists>a b. c # s = a @ p @ b)"
    by (auto simp: Cons_eq_append_conv)
  then show ?case by (simp add: Cons.IH strip_prefix_Some del: strip_prefix.simps)
qed

lemma split_once_Some: "split_once c s = Some (a, b) \<longleftrightarrow> s = a @ c # b \<and> c \<notin> set a"
proof (induction s arbitrary: a)
  case (Cons x s)
  show ?case
  proof (cases "x = c")
    case False
    have "split_once c (x # s) = Some (a, b) \<longleftrightarrow> (\<exists>a'. split_once c s = Some (a', b) \<and> a = x # a')"
      using False by (auto split: option.splits)
    then show ?thesis using Cons.IH False by (cases a) auto
  qed (cases a; auto)
qed simp

lemma split_once_None: "split_once c s = None \<longleftrightarrow> c \<notin> set s"
  by (induction s) (auto split: option.splits)

lemma split_once_append: "c \<notin> set a \<Longrightarrow> split_once c (a @ c # b) = Some (a, b)"
  by (simp add: split_once_Some)

lemma split_at_byte_Some: "split_at_byte n s = Some (a, b) \<Longrightarrow> s = a @ b \<and> n = str_len a"
proof (induction n s arbitrary: a rule: split_at_byte.induct)
  case (2 n c s)
  then show ?case by (auto simp: str_len_def split: if_splits option.splits)
qed (auto simp: str_len_def split: if_splits)

lemma split_at_byte_append: "split_at_byte (str_len a) (a @ b) = Some (a, b)"
  by (induction a) (cases b, auto simp: str_len_def)

section \<open>Decimal\<close>

definition digit_char :: "nat \<Rightarrow> uchar" where
  "digit_char d = uchar_of (0x30 + d)"

definition digit_val :: "uchar \<Rightarrow> nat" where
  "digit_val c = code_point c - 0x30"

fun nat_to_str :: "nat \<Rightarrow> str" where
  "nat_to_str n = (if n < 10 then [digit_char n] else nat_to_str (n div 10) @ [digit_char (n mod 10)])"

declare nat_to_str.simps [simp del]

definition int_to_str :: "int \<Rightarrow> str" where
  "int_to_str i =
     (if i < 0 then ascii CHR ''-'' # nat_to_str (nat (- i)) else nat_to_str (nat i))"

definition decimal :: "str \<Rightarrow> nat" where
  "decimal s = foldl (\<lambda>a c. 10 * a + digit_val c) 0 s"

text \<open>\<open><iN as FromStr>::from_str\<close> for a signed type with range \<open>lo..=hi\<close>.\<close>

definition parse_int :: "int \<Rightarrow> int \<Rightarrow> str \<Rightarrow> int option" where
  "parse_int lo hi s =
     (let neg = starts_with_char (ascii CHR ''-'') s;
          digits = (if neg \<or> starts_with_char (ascii CHR ''+'') s then tl s else s);
          n = int (decimal digits);
          v = (if neg then - n else n)
      in if digits \<noteq> [] \<and> list_all is_ascii_digit digits \<and> lo \<le> v \<and> v \<le> hi then Some v else None)"

lemma is_ascii_digit_digit_char [simp]: "d < 10 \<Longrightarrow> is_ascii_digit (digit_char d)"
  by (simp add: digit_char_def char_class_defs scalar_def)

lemma digit_val_digit_char [simp]: "d < 10 \<Longrightarrow> digit_val (digit_char d) = d"
  by (simp add: digit_char_def digit_val_def scalar_def)

lemma nat_to_str_nonempty [simp]: "nat_to_str n \<noteq> []"
  by (subst nat_to_str.simps) simp

lemma nat_to_str_digits: "list_all is_ascii_digit (nat_to_str n)"
proof (induction n rule: nat_to_str.induct)
  case (1 n)
  then show ?case by (subst nat_to_str.simps) (cases "n < 10"; simp)
qed

lemma decimal_snoc: "decimal (s @ [c]) = 10 * decimal s + digit_val c"
  by (simp add: decimal_def)

lemma decimal_nat_to_str [simp]: "decimal (nat_to_str n) = n"
proof (induction n rule: nat_to_str.induct)
  case (1 n)
  show ?case
  proof (cases "n < 10")
    case True
    then show ?thesis by (subst nat_to_str.simps) (simp add: decimal_def)
  next
    case False
    with 1 show ?thesis by (subst nat_to_str.simps) (simp add: decimal_snoc)
  qed
qed

lemma digit_not_sign: "is_ascii_digit c \<Longrightarrow> c \<noteq> ascii CHR ''-'' \<and> c \<noteq> ascii CHR ''+''"
  by (auto simp: char_class_defs)

lemma nat_to_str_no_sign:
  "\<not> starts_with_char (ascii CHR ''-'') (nat_to_str n)" "\<not> starts_with_char (ascii CHR ''+'') (nat_to_str n)"
  using nat_to_str_digits [of n] digit_not_sign by (cases "nat_to_str n"; auto)+

lemma parse_int_int_to_str [simp]: "lo \<le> i \<Longrightarrow> i \<le> hi \<Longrightarrow> parse_int lo hi (int_to_str i) = Some i"
  by (auto simp: parse_int_def int_to_str_def nat_to_str_no_sign nat_to_str_digits Let_def)

lemma parse_int_range: "parse_int lo hi s = Some i \<Longrightarrow> lo \<le> i \<and> i \<le> hi"
  by (auto simp: parse_int_def Let_def split: if_splits)

section \<open>Hexadecimal\<close>

text \<open>
  \<open>u32::from_str_radix(s, 16)\<close>. An initial \<open>+\<close> is accepted, as \<open>core\<close> documents; the empty
  string and a lone sign are not.
\<close>

definition hex_val :: "uchar \<Rightarrow> nat" where
  "hex_val c =
     (if is_ascii_digit c then code_point c - 0x30
      else if between 0x61 c 0x66 then code_point c - 0x61 + 10
      else code_point c - 0x41 + 10)"

definition hexadecimal :: "str \<Rightarrow> nat" where
  "hexadecimal s = foldl (\<lambda>a c. 16 * a + hex_val c) 0 s"

definition u32_from_hex :: "str \<Rightarrow> nat option" where
  "u32_from_hex s =
     (let digits = (if starts_with_char (ascii CHR ''+'') s then tl s else s)
      in if digits \<noteq> [] \<and> list_all is_ascii_hexdigit digits \<and> hexadecimal digits < 2 ^ 32
         then Some (hexadecimal digits) else None)"

text \<open>\<open>char::from_digit(n, 16)\<close>, lowercase.\<close>

definition hex_digit_char :: "nat \<Rightarrow> uchar" where
  "hex_digit_char n = uchar_of (if n < 10 then 0x30 + n else 0x61 + (n - 10))"

lemma hex_digit_char_props:
  assumes "n < 16"
  shows "is_ascii_hexdigit (hex_digit_char n)" "hex_val (hex_digit_char n) = n"
    "hex_digit_char n \<noteq> ascii CHR ''+''"
  using assms by (auto simp: hex_digit_char_def hex_val_def char_class_defs scalar_def uchar_eq_iff)

lemma split_char_nonempty [simp]: "split_char c s \<noteq> []"
  by (induction s) (auto split: list.split)

lemma split_char_hd: "c \<notin> set a \<Longrightarrow> hd (split_char c (a @ c # b)) = a"
proof (induction a)
  case (Cons x a)
  then show ?case by (cases "split_char c (a @ c # b)") auto
qed simp

end
