(* ===== verification/Codec_Error.thy ===== *)
theory Codec_Error
  imports Prelude
begin

text \<open>\<open>codec/mod.rs\<close>: why bytes were refused or a value could not be encoded, and the depth limit.\<close>

datatype codec_error =
    UnexpectedEnd
  | TrailingBytes
  | IndefiniteLength
  | NonMinimalInteger
  | IntegerOutOfRange
  | InvalidFloat
  | InvalidUtf8
  | NonStringKey
  | UnsortedKeys
  | DuplicateKey
  | UnsupportedTag "64 word"
  | InvalidCid
  | UnsupportedSimple
  | Reserved
  | NestingTooDeep
  | LengthTooLarge
  | InvalidVarint
  | UnexpectedType
  | InvalidJson
  | NotCanonical
  | FloatInText
  | ReservedKey
  | InvalidBase64

definition MAX_DEPTH :: nat where
  "MAX_DEPTH = 128"

text \<open>The largest \<open>usize\<close>; the model is of a 64-bit target.\<close>

definition usize_max :: nat where
  "usize_max = 2 ^ 64 - 1"

end
