(* ===== verification/Ipld.thy ===== *)
theory Ipld
  imports Float64 Ordered_Map Text_Order Text_Ops Codec_Error
begin

text \<open>
  The IPLD data model, and what the crate uses of \<open>ipld_core\<close>, \<open>multihash\<close>, \<open>sha2\<close> and
  \<open>bs58\<close>, which are not part of it: \<open>Cid\<close> is a type parameter \<open>'c\<close>, and the functions on it
  are the fields of a record that the definitions take as an argument.
\<close>

datatype 'c ipld =
    INull
  | IBool bool
  | IInteger int
  | IFloat f64
  | IString str
  | IBytes "byte list"
  | IList "'c ipld list"
  | IMap "(str \<times> 'c ipld) list"
  | ILink 'c

text \<open>
  \<open>Cid::to_bytes\<close>, \<open>Cid::try_from(&[u8])\<close>, \<open>Cid::to_string\<close>, \<open>Cid::try_from(&str)\<close>,
  \<open>Sha256::digest\<close>, \<open>Multihash::wrap\<close> followed by \<open>Cid::new_v1\<close>, and base58.
\<close>

record 'c cid_lib =
  cid_to_bytes :: "'c \<Rightarrow> byte list"
  cid_try_from_bytes :: "byte list \<Rightarrow> 'c option"
  cid_to_string :: "'c \<Rightarrow> str"
  cid_try_from_str :: "str \<Rightarrow> 'c option"
  sha256 :: "byte list \<Rightarrow> byte list"
  cid_new_v1 :: "64 word \<Rightarrow> 64 word \<Rightarrow> byte list \<Rightarrow> 'c"
  bs58_encode :: "byte list \<Rightarrow> str"
  bs58_decode :: "str \<Rightarrow> byte list option"

section \<open>\<open>cid.rs\<close>\<close>

datatype cid_error = CidBase58 | CidInvalid

definition DAG_CBOR :: "64 word" where "DAG_CBOR = 0x71"
definition SHA2_256 :: "64 word" where "SHA2_256 = 0x12"

definition of_dag_cbor :: "'c cid_lib \<Rightarrow> byte list \<Rightarrow> 'c" where
  "of_dag_cbor L bs = cid_new_v1 L DAG_CBOR SHA2_256 (sha256 L bs)"

definition to_base58btc :: "'c cid_lib \<Rightarrow> 'c \<Rightarrow> str" where
  "to_base58btc L cid = ascii CHR ''z'' # bs58_encode L (cid_to_bytes L cid)"

definition cid_from_bytes :: "'c cid_lib \<Rightarrow> byte list \<Rightarrow> cid_error + 'c" where
  "cid_from_bytes L raw =
     res_bind (ok_or CidInvalid (cid_try_from_bytes L raw)) (\<lambda>cid.
     if cid_to_bytes L cid = raw then Ok cid else Err CidInvalid)"

definition cid_from_text :: "'c cid_lib \<Rightarrow> str \<Rightarrow> cid_error + 'c" where
  "cid_from_text L text =
     res_bind (ok_or CidInvalid (cid_try_from_str L text)) (\<lambda>cid.
     if cid_to_string L cid = text then Ok cid else Err CidInvalid)"

definition cid_parse :: "'c cid_lib \<Rightarrow> str \<Rightarrow> cid_error + 'c" where
  "cid_parse L text =
     (case strip_prefix [ascii CHR ''z''] text of
        Some b58 \<Rightarrow> res_bind (ok_or CidBase58 (bs58_decode L b58)) (cid_from_bytes L)
      | None \<Rightarrow> cid_from_text L text)"

section \<open>Well-formed values\<close>

text \<open>
  What the Rust types guarantee of an \<open>Ipld\<close>: a map is ordered with one entry per key and an
  integer is an \<open>i128\<close>.
\<close>

fun ipld_wf :: "'c ipld \<Rightarrow> bool" where
  "ipld_wf (IInteger i) \<longleftrightarrow> i128_min \<le> i \<and> i \<le> i128_max"
| "ipld_wf (IList vs) \<longleftrightarrow> (\<forall>v \<in> set vs. ipld_wf v)"
| "ipld_wf (IMap m) \<longleftrightarrow> bt_wf m \<and> (\<forall>e \<in> set m. ipld_wf (snd e))"
| "ipld_wf _ \<longleftrightarrow> True"

text \<open>Nesting depth, as the codecs count it: children are one deeper than their container.\<close>

fun ipld_depth :: "'c ipld \<Rightarrow> nat" where
  "ipld_depth (IList vs) = (if vs = [] then 0 else Suc (fold max (map ipld_depth vs) 0))"
| "ipld_depth (IMap m) = (if m = [] then 0 else Suc (fold max (map (\<lambda>e. ipld_depth (snd e)) m) 0))"
| "ipld_depth _ = 0"

text \<open>Whether every value in the tree satisfies \<open>p\<close>.\<close>

fun ipld_all :: "('c ipld \<Rightarrow> bool) \<Rightarrow> 'c ipld \<Rightarrow> bool" where
  "ipld_all p (IList vs) \<longleftrightarrow> p (IList vs) \<and> (\<forall>v \<in> set vs. ipld_all p v)"
| "ipld_all p (IMap m) \<longleftrightarrow> p (IMap m) \<and> (\<forall>e \<in> set m. ipld_all p (snd e))"
| "ipld_all p v \<longleftrightarrow> p v"

text \<open>Code that accepts one kind of value and refuses the others.\<close>

lemma case_IBool_Ok [res_simps]:
  "(case w of IBool b \<Rightarrow> f b | _ \<Rightarrow> Err e) = Inr y \<longleftrightarrow> (\<exists>b. w = IBool b \<and> f b = Inr y)"
  by (cases w) auto

lemma case_IInteger_Ok [res_simps]:
  "(case w of IInteger i \<Rightarrow> f i | _ \<Rightarrow> Err e) = Inr y \<longleftrightarrow> (\<exists>i. w = IInteger i \<and> f i = Inr y)"
  by (cases w) auto

lemma case_IString_Ok [res_simps]:
  "(case w of IString t \<Rightarrow> f t | _ \<Rightarrow> Err e) = Inr y \<longleftrightarrow> (\<exists>t. w = IString t \<and> f t = Inr y)"
  by (cases w) auto

lemma case_IBytes_Ok [res_simps]:
  "(case w of IBytes bs \<Rightarrow> f bs | _ \<Rightarrow> Err e) = Inr y \<longleftrightarrow> (\<exists>bs. w = IBytes bs \<and> f bs = Inr y)"
  by (cases w) auto

lemma case_IList_Ok [res_simps]:
  "(case w of IList vs \<Rightarrow> f vs | _ \<Rightarrow> Err e) = Inr y \<longleftrightarrow> (\<exists>vs. w = IList vs \<and> f vs = Inr y)"
  by (cases w) auto

lemma case_IMap_Ok [res_simps]:
  "(case w of IMap m \<Rightarrow> f m | _ \<Rightarrow> Err e) = Inr y \<longleftrightarrow> (\<exists>m. w = IMap m \<and> f m = Inr y)"
  by (cases w) auto

lemma case_ILink_Ok [res_simps]:
  "(case w of ILink c \<Rightarrow> f c | _ \<Rightarrow> Err e) = Inr y \<longleftrightarrow> (\<exists>c. w = ILink c \<and> f c = Inr y)"
  by (cases w) auto

lemma size_map_entry: "e \<in> set m \<Longrightarrow> size (snd e) < Suc (size_list (size_prod (\<lambda>_. 0) size) m)"
  by (induction m) auto

lemma fold_max_le: "fold max ns (a::nat) \<le> d \<longleftrightarrow> a \<le> d \<and> (\<forall>n \<in> set ns. n \<le> d)"
  by (induction ns arbitrary: a) auto

lemma ipld_depth_IList: "ipld_depth (IList vs) \<le> d \<longleftrightarrow> vs = [] \<or> 0 < d \<and> (\<forall>v \<in> set vs. ipld_depth v \<le> d - 1)"
  by (cases d) (auto simp: fold_max_le)

lemma ipld_depth_IMap:
  "ipld_depth (IMap m) \<le> d \<longleftrightarrow> m = [] \<or> 0 < d \<and> (\<forall>e \<in> set m. ipld_depth (snd e) \<le> d - 1)"
  by (cases d) (auto simp: fold_max_le)

lemma add_fold_max_le:
  "Suc (d + fold max ns a) \<le> k \<longleftrightarrow> Suc (d + a) \<le> k \<and> (\<forall>n \<in> set ns. Suc (d + n) \<le> k)"
  by (induction ns arbitrary: a) auto

lemma add_depth_IList: "d + ipld_depth (IList vs) \<le> k \<longleftrightarrow> d \<le> k \<and> (\<forall>v \<in> set vs. Suc d + ipld_depth v \<le> k)"
  by (cases vs) (auto simp: add_fold_max_le)

lemma add_depth_IMap:
  "d + ipld_depth (IMap m) \<le> k \<longleftrightarrow> d \<le> k \<and> (\<forall>e \<in> set m. Suc d + ipld_depth (snd e) \<le> k)"
  by (cases m) (auto simp: add_fold_max_le)

declare ipld_depth.simps(1,2) [simp del]

lemma cid_from_bytes_Ok:
  "cid_from_bytes L raw = Ok c \<longleftrightarrow> cid_try_from_bytes L raw = Some c \<and> cid_to_bytes L c = raw"
  by (auto simp: cid_from_bytes_def res_simps)

lemma cid_from_text_Ok:
  "cid_from_text L text = Ok c \<longleftrightarrow> cid_try_from_str L text = Some c \<and> cid_to_string L c = text"
  by (auto simp: cid_from_text_def res_simps)

text \<open>No CID has two accepted encodings.\<close>

interpretation cid_bytes: strict_codec "\<lambda>c. Some (cid_to_bytes L c)" "\<lambda>raw. res_ok (cid_from_bytes L raw)"
  for L by unfold_locales (simp add: cid_from_bytes_Ok)

interpretation cid_text: strict_codec "\<lambda>c. Some (cid_to_string L c)" "\<lambda>text. res_ok (cid_from_text L text)"
  for L by unfold_locales (simp add: cid_from_text_Ok)

section \<open>A concrete instance\<close>

text \<open>
  A small instance of the library functions, on which the properties are evaluated: a CID is its
  own bytes, version 1, with a 32-byte digest; text forms are hexadecimal; the digest keeps the
  first 32 bytes, padded.
\<close>

definition hex_text :: "byte list \<Rightarrow> str" where
  "hex_text bs = concat (map (\<lambda>b. [hex_digit_char (unat b div 16), hex_digit_char (unat b mod 16)]) bs)"

definition lower_hex :: "uchar \<Rightarrow> bool" where
  "lower_hex c \<longleftrightarrow> is_ascii_digit c \<or> between 0x61 c 0x66"

fun unhex_text :: "str \<Rightarrow> byte list option" where
  "unhex_text [] = Some []"
| "unhex_text [c] = None"
| "unhex_text (c # d # s) =
     (if lower_hex c \<and> lower_hex d
      then map_option ((#) (of_nat (16 * hex_val c + hex_val d))) (unhex_text s) else None)"

definition sample_cid_ok :: "byte list \<Rightarrow> bool" where
  "sample_cid_ok raw \<longleftrightarrow> length raw = 36 \<and> take 4 raw = [0x01, 0x71, 0x12, 0x20]"

definition sample_lib :: "byte list cid_lib" where
  "sample_lib =
     \<lparr>cid_to_bytes = (\<lambda>c. c),
      cid_try_from_bytes = (\<lambda>raw. if sample_cid_ok raw then Some raw else None),
      cid_to_string = hex_text,
      cid_try_from_str = (\<lambda>s. case unhex_text s of
          Some raw \<Rightarrow> if sample_cid_ok raw then Some raw else None | None \<Rightarrow> None),
      sha256 = (\<lambda>bs. take 32 (bs @ replicate 32 0)),
      cid_new_v1 = (\<lambda>codec hash digest. [1, ucast codec, ucast hash, of_nat (length digest)] @ digest),
      bs58_encode = hex_text,
      bs58_decode = unhex_text\<rparr>"

lemma hex_digit_char_lower: "n < 16 \<Longrightarrow> lower_hex (hex_digit_char n) \<and> hex_val (hex_digit_char n) = n"
  by (auto simp: lower_hex_def hex_digit_char_def hex_val_def char_class_defs scalar_def)

lemma lower_hex_digit_char: "lower_hex c \<Longrightarrow> hex_val c < 16 \<and> hex_digit_char (hex_val c) = c"
  by (auto simp: lower_hex_def hex_digit_char_def hex_val_def char_class_defs uchar_eq_iff scalar_def)

lemma unhex_hex_text: "unhex_text (hex_text bs) = Some bs"
proof (induction bs)
  case (Cons b bs)
  have "unat b div 16 < 16" using unat_byte_bound [of b] by simp
  moreover have "16 * (unat b div 16) + unat b mod 16 = unat b" by simp
  ultimately show ?case using Cons
    by (simp add: hex_text_def hex_digit_char_lower of_nat_unat_byte del: of_nat_add of_nat_mult)
qed (simp add: hex_text_def)

lemma hex_unhex_text: "unhex_text s = Some bs \<Longrightarrow> hex_text bs = s"
proof (induction s arbitrary: bs rule: unhex_text.induct)
  case (3 c d s)
  then obtain bs' where bs': "lower_hex c" "lower_hex d" "unhex_text s = Some bs'"
    "bs = of_nat (16 * hex_val c + hex_val d) # bs'" by (auto split: if_splits)
  note digits = lower_hex_digit_char [OF bs'(1)] lower_hex_digit_char [OF bs'(2)]
  then have "unat (of_nat (16 * hex_val c + hex_val d) :: byte) = 16 * hex_val c + hex_val d"
    by (intro unat_of_nat_byte) simp
  with digits 3 bs' show ?case by (simp add: hex_text_def del: of_nat_add of_nat_mult)
qed (simp_all add: hex_text_def)

lemma hex_text_alphanumeric: "list_all is_ascii_alphanumeric (hex_text bs)"
proof -
  have "is_ascii_alphanumeric (hex_digit_char n)" if "n < 16" for n
    using that hex_digit_char_lower [of n]
    by (auto simp: lower_hex_def is_ascii_alphanumeric_def is_ascii_alphabetic_def char_class_defs)
  moreover have "unat b div 16 < 16" for b :: byte using unat_byte_bound [of b] by simp
  ultimately show ?thesis by (auto simp: hex_text_def list_all_iff)
qed

end
