(* ===== verification/Varint.thy ===== *)
theory Varint
  imports Codec_Error
begin

unbundle bit_operations_syntax

text \<open>
  \<open>codec/varint.rs\<close>: minimal unsigned LEB128 over \<open>u64\<close>. An encoder that appends to \<open>out\<close> is the
  function that returns what it appends.
\<close>

function put_uvarint :: "64 word \<Rightarrow> byte list" where
  "put_uvarint v =
     (let b = (ucast (v AND 0x7f) :: byte); v' = drop_bit 7 v
      in if v' = 0 then [b] else (b OR 0x80) # put_uvarint v')"
  by pat_completeness auto

text \<open>
  The body of the reading loop at index \<open>i\<close>, with \<open>n = bytes.len()\<close>; it stops after ten bytes.
\<close>

fun uvarint_loop :: "nat \<Rightarrow> nat \<Rightarrow> 64 word \<Rightarrow> byte list \<Rightarrow> codec_error + (64 word \<times> nat)" where
  "uvarint_loop n i v [] = Err (if n < 10 then UnexpectedEnd else InvalidVarint)"
| "uvarint_loop n i v (b # bs) =
     (if 10 \<le> i then Err (if n < 10 then UnexpectedEnd else InvalidVarint)
      else if i = 9 \<and> 1 < b then Err InvalidVarint
      else let v' = v OR push_bit (7 * i) (ucast (b AND 0x7f)) in
        if b AND 0x80 = 0 then
          (if 0 < i \<and> b = 0 then Err InvalidVarint else Ok (v', i + 1))
        else uvarint_loop n (i + 1) v' bs)"

definition read_uvarint :: "byte list \<Rightarrow> codec_error + (64 word \<times> nat)" where
  "read_uvarint bs = uvarint_loop (length bs) 0 0 bs"

section \<open>Termination and arithmetic reading\<close>

lemma unat_drop_bit_7: "unat (drop_bit 7 (v :: 64 word)) = unat v div 128"
  by (simp add: drop_bit_eq_div unat_div)

termination put_uvarint
proof (relation "measure unat")
  fix v :: "64 word" and b v'
  assume "v' = drop_bit 7 v" "v' \<noteq> 0"
  then have "unat v' = unat v div 128" by (simp add: unat_drop_bit_7)
  moreover have "unat v' \<noteq> 0" using \<open>v' \<noteq> 0\<close> by (simp add: unsigned_eq_0_iff)
  ultimately have "unat v' < unat v" by linarith
  then show "(v', v) \<in> measure unat" by simp
qed simp

declare put_uvarint.simps [simp del]

lemma low_seven: "ucast (v AND 0x7f) = (of_nat (unat v mod 128) :: byte)" for v :: "64 word"
proof (rule word_unat_eq_iff [THEN iffD2])
  have "v AND 0x7f = take_bit 7 v"
    by (simp add: take_bit_eq_mask mask_eq_exp_minus_1)
  then show "unat (ucast (v AND 0x7f) :: byte) = unat (of_nat (unat v mod 128) :: byte)"
    by (simp add: unsigned_ucast_eq unsigned_take_bit_eq take_bit_eq_mod unat_of_nat unat_mod)
qed

text \<open>Adding above bits that are clear.\<close>

lemma nat_or_push: "acc < 2 ^ k \<Longrightarrow> acc OR push_bit k m = acc + m * 2 ^ k" for acc m k :: nat
proof -
  assume acc: "acc < 2 ^ k"
  have low: "take_bit k acc = acc" using acc by (simp add: take_bit_nat_eq_self)
  have "acc AND push_bit k m = 0"
  proof (rule bit_eqI)
    fix j
    have "bit acc j \<Longrightarrow> j < k" by (metis low bit_take_bit_iff)
    then show "bit (acc AND push_bit k m) j \<longleftrightarrow> bit 0 j"
      by (auto simp: bit_and_iff bit_push_bit_iff)
  qed
  then have "acc + push_bit k m = acc OR push_bit k m" by (rule disjunctive_add_eq_or)
  then show ?thesis by (simp add: push_bit_eq_mult)
qed

lemma word_or_push:
  "acc < 2 ^ k \<Longrightarrow> (of_nat acc :: 64 word) OR push_bit k (of_nat m) = of_nat (acc + m * 2 ^ k)"
  by (simp only: push_bit_of_nat of_nat_or_eq [symmetric] nat_or_push)

lemma put_uvarint_small: "unat v < 128 \<Longrightarrow> put_uvarint v = [of_nat (unat v)]"
  using unat_drop_bit_7 [of v] by (subst put_uvarint.simps) (simp add: low_seven Let_def unat_eq_zero)

lemma put_uvarint_big:
  "128 \<le> unat v \<Longrightarrow> put_uvarint v = of_nat (128 + unat v mod 128) # put_uvarint (drop_bit 7 v)"
proof -
  assume v: "128 \<le> unat v"
  have "unat (drop_bit 7 v) \<noteq> 0" using v by (simp add: unat_drop_bit_7)
  then have nz: "drop_bit 7 v \<noteq> 0" by auto
  have "unat v mod 128 OR push_bit 7 1 = 128 + unat v mod 128"
    by (subst nat_or_push) simp_all
  then have "(of_nat (unat v mod 128 OR push_bit 7 1) :: byte) = of_nat (128 + unat v mod 128)"
    by (simp only:)
  then have "(of_nat (unat v mod 128) :: byte) OR 0x80 = of_nat (128 + unat v mod 128)"
    by (simp add: of_nat_or_eq push_bit_eq_mult)
  with nz show ?thesis by (subst put_uvarint.simps) (simp add: low_seven Let_def)
qed

lemma byte_low_seven: "ucast (b AND 0x7f) = (of_nat (unat b mod 128) :: 64 word)" for b :: byte
proof (rule word_unat_eq_iff [THEN iffD2])
  have "b AND 0x7f = take_bit 7 b"
    by (simp add: take_bit_eq_mask mask_eq_exp_minus_1)
  then show "unat (ucast (b AND 0x7f) :: 64 word) = unat (of_nat (unat b mod 128) :: 64 word)"
    by (simp add: unsigned_ucast_eq unsigned_take_bit_eq take_bit_eq_mod unat_of_nat unat_mod)
qed

lemma byte_top_bit: "b AND 0x80 = 0 \<longleftrightarrow> unat b < 128" for b :: byte
proof -
  have "b AND 2 ^ 7 = 0 \<longleftrightarrow> \<not> bit b 7" by (rule and_exp_eq_0_iff_not_bit)
  also have "bit b 7 \<longleftrightarrow> bit (unat b) 7" by (simp add: bit_unsigned_iff)
  also have "\<dots> \<longleftrightarrow> odd (unat b div 128)" by (simp add: bit_iff_odd)
  also have "\<dots> \<longleftrightarrow> 128 \<le> unat b"
  proof -
    have "unat b < 256" using unsigned_less [of b] by simp
    then have "unat b div 128 < 2" by simp
    then have "unat b div 128 = 0 \<or> unat b div 128 = 1" by linarith
    then show ?thesis by auto
  qed
  finally show ?thesis by auto
qed

text \<open>The loop with the accumulated value read as a number.\<close>

lemma uvarint_loop_step:
  assumes "acc < 2 ^ (7 * i)"
  shows "uvarint_loop n i (of_nat acc) (b # bs) =
    (if 10 \<le> i then Err (if n < 10 then UnexpectedEnd else InvalidVarint)
     else if i = 9 \<and> 1 < b then Err InvalidVarint
     else if unat b < 128 then
       (if 0 < i \<and> b = 0 then Err InvalidVarint
        else Ok (of_nat (acc + unat b * 2 ^ (7 * i)), i + 1))
     else uvarint_loop n (i + 1) (of_nat (acc + unat b mod 128 * 2 ^ (7 * i))) bs)"
  unfolding uvarint_loop.simps(2) Let_def byte_low_seven byte_top_bit word_or_push [OF assms]
  by (cases "unat b < 128") (simp_all only: mod_less if_True if_False)

declare uvarint_loop.simps(2) [simp del]

lemma uvarint_index_bound: "k * 2 ^ (7 * i) < (2::nat) ^ 64 \<Longrightarrow> 0 < k \<Longrightarrow> i \<le> 9"
proof (rule ccontr)
  assume k: "k * 2 ^ (7 * i) < (2::nat) ^ 64" "0 < k" and "\<not> i \<le> 9"
  then have "(2::nat) ^ 64 \<le> 2 ^ (7 * i)" by (intro power_increasing) auto
  also have "\<dots> \<le> k * 2 ^ (7 * i)" using k by simp
  finally show False using k by simp
qed

lemma next_group:
  "v = q * 128 + m \<Longrightarrow> acc + m * 2 ^ (7 * i) + q * 2 ^ (7 * (i + 1)) = acc + v * 2 ^ (7 * i)"
  for acc v q m :: nat
  by (simp add: power_add algebra_simps)

lemma le_shift: "v \<le> acc + v * 2 ^ k" for acc v k :: nat
  by (induction k) auto

text \<open>Reading back what was written, whatever follows it.\<close>

lemma uvarint_loop_put:
  assumes "acc < 2 ^ (7 * i)" "acc + unat v * 2 ^ (7 * i) < 2 ^ 64" "0 < i \<Longrightarrow> v \<noteq> 0"
  shows "uvarint_loop n i (of_nat acc) (put_uvarint v @ r) =
    Ok (of_nat (acc + unat v * 2 ^ (7 * i)), i + length (put_uvarint v))"
  using assms
proof (induction v arbitrary: i acc rule: put_uvarint.induct)
  case (1 v)
  have i: "i \<le> 9"
  proof (cases "v = 0")
    case True
    with "1.prems" show ?thesis by auto
  next
    case False
    then have "0 < unat v" by (simp add: word_neq_0_conv unat_gt_0)
    then show ?thesis using uvarint_index_bound [of "unat v" i] "1.prems" by simp
  qed
  show ?case
  proof (cases "unat v < 128")
    case True
    define b :: byte where "b = of_nat (unat v)"
    have b: "unat b = unat v" using True unfolding b_def by (subst unat_of_nat) simp
    have "put_uvarint v = [b]" using True by (simp only: put_uvarint_small b_def)
    moreover have "\<not> (i = 9 \<and> 1 < b)"
      using "1.prems"(2) by (auto simp: word_less_nat_alt b)
    moreover have "\<not> (0 < i \<and> b = 0)"
      using "1.prems"(3) b by (metis unat_0 word_unat_eq_iff)
    ultimately show ?thesis using True i
      by (simp add: uvarint_loop_step [OF "1.prems"(1)] b del: of_nat_add of_nat_mult)
  next
    case False
    define q where "q = drop_bit 7 v"
    have q: "unat q = unat v div 128" by (simp add: q_def unat_drop_bit_7)
    with False have q0: "unat q \<noteq> 0" by auto
    then have nz: "q \<noteq> 0" by auto
    define acc' where "acc' = acc + unat v mod 128 * 2 ^ (7 * i)"
    have "acc' < 2 ^ (7 * i) + 127 * 2 ^ (7 * i)"
      unfolding acc'_def using "1.prems"(1) by (intro add_less_le_mono mult_right_mono) auto
    then have acc': "acc' < 2 ^ (7 * (i + 1))" by (simp add: power_add)
    have "unat v = unat q * 128 + unat v mod 128" by (simp add: q)
    then have sum: "acc' + unat q * 2 ^ (7 * (i + 1)) = acc + unat v * 2 ^ (7 * i)"
      unfolding acc'_def by (rule next_group)
    define b :: byte where "b = of_nat (128 + unat v mod 128)"
    have b: "unat b = 128 + unat v mod 128" unfolding b_def by (rule unat_of_nat_byte) simp
    have put: "put_uvarint v = b # put_uvarint q"
      using False by (simp only: put_uvarint_big not_less b_def q_def)
    have i8: "i \<le> 8"
      using uvarint_index_bound [of "unat q" "i + 1"] "1.prems"(2) sum q0 by simp
    have "uvarint_loop n (i + 1) (of_nat acc') (put_uvarint q @ r) =
        Ok (of_nat (acc' + unat q * 2 ^ (7 * (i + 1))), i + 1 + length (put_uvarint q))"
      by (rule "1.IH" [OF refl q_def nz acc']) (simp_all only: sum "1.prems"(2) nz not_False_eq_True)
    then have rest: "uvarint_loop n (i + 1) (of_nat acc') (put_uvarint q @ r) =
        Ok (of_nat (acc + unat v * 2 ^ (7 * i)), i + 1 + length (put_uvarint q))"
      by (simp only: sum)
    have "uvarint_loop n i (of_nat acc) (b # put_uvarint q @ r) =
        uvarint_loop n (i + 1) (of_nat acc') (put_uvarint q @ r)"
      using i8 by (simp add: uvarint_loop_step [OF "1.prems"(1)] b acc'_def)
    then show ?thesis unfolding put append_Cons rest by (simp del: of_nat_add of_nat_mult)
  qed
qed

lemma read_put_uvarint: "read_uvarint (put_uvarint v @ r) = Ok (v, length (put_uvarint v))"
proof -
  have "unat v < 2 ^ 64" using unsigned_less [of v] by simp
  then show ?thesis using uvarint_loop_put [of 0 0 v _ r] by (simp add: read_uvarint_def)
qed

text \<open>What the reader accepts is what the writer would have written.\<close>

lemma uvarint_loop_Ok:
  assumes "acc < 2 ^ (7 * i)" "uvarint_loop n i (of_nat acc) bs = Ok (v, j)"
  shows "\<exists>w r. bs = put_uvarint w @ r \<and> j = i + length (put_uvarint w)
    \<and> v = of_nat (acc + unat w * 2 ^ (7 * i)) \<and> acc + unat w * 2 ^ (7 * i) < 2 ^ 64
    \<and> (0 < i \<longrightarrow> w \<noteq> 0)"
  using assms
proof (induction bs arbitrary: i acc)
  case (Cons b bs)
  note step = Cons.prems(2) [unfolded uvarint_loop_step [OF Cons.prems(1)]]
  have i: "i \<le> 9" "i = 9 \<Longrightarrow> unat b \<le> 1"
    using step by (auto split: if_splits simp: word_less_nat_alt not_less)
  have pow: "(2::nat) ^ (7 * i) \<le> 2 ^ 63" using i(1) by (intro power_increasing) auto
  show ?case
  proof (cases "unat b < 128")
    case True
    define w :: "64 word" where "w = of_nat (unat b)"
    have w: "unat w = unat b" using unat_byte_bound [of b] unfolding w_def by (subst unat_of_nat_64) simp_all
    have ok: "\<not> (0 < i \<and> b = 0)" "v = of_nat (acc + unat b * 2 ^ (7 * i))" "j = i + 1"
      using step True by (auto split: if_splits)
    have "put_uvarint w = [b]" using True put_uvarint_small [of w] by (simp add: w)
    moreover have "acc + unat w * 2 ^ (7 * i) < 2 ^ 64"
    proof (cases "i = 9")
      case True
      then have "unat w * 2 ^ (7 * i) \<le> 1 * 2 ^ 63" using i(2) w by simp
      then show ?thesis using Cons.prems(1) True by simp
    next
      case False
      then have "(2::nat) ^ (7 * i) \<le> 2 ^ 56" using i(1) by (intro power_increasing) auto
      then have "unat w * 2 ^ (7 * i) \<le> 127 * 2 ^ 56" using True w by (intro mult_mono) auto
      then show ?thesis using Cons.prems(1) pow by simp
    qed
    moreover have "0 < i \<longrightarrow> w \<noteq> 0" using ok(1) w by (metis unat_0 word_unat_eq_iff)
    ultimately show ?thesis using ok w by (intro exI [of _ w] exI [of _ bs]) simp
  next
    case False
    define m where "m = unat b mod 128"
    have b: "unat b = 128 + m" using False unat_byte_bound [of b] le_mod_geq [of 128 "unat b"] by (simp add: m_def)
    have i8: "i \<le> 8" using i False by (cases "i = 9") auto
    define acc' where "acc' = acc + m * 2 ^ (7 * i)"
    have "acc' < 2 ^ (7 * i) + 127 * 2 ^ (7 * i)"
      unfolding acc'_def using Cons.prems(1) by (intro add_less_le_mono mult_right_mono) (auto simp: m_def)
    then have acc': "acc' < 2 ^ (7 * (i + 1))" by (simp add: power_add)
    have "uvarint_loop n (i + 1) (of_nat acc') bs = Ok (v, j)"
      using step False i by (auto simp: acc'_def m_def split: if_splits)
    from Cons.IH [OF acc' this] obtain q r where q: "bs = put_uvarint q @ r"
      "j = i + 1 + length (put_uvarint q)" "v = of_nat (acc' + unat q * 2 ^ (7 * (i + 1)))"
      "acc' + unat q * 2 ^ (7 * (i + 1)) < 2 ^ 64" "q \<noteq> 0"
      by auto
    define w :: "64 word" where "w = of_nat (unat q * 128 + m)"
    have sum: "acc' + unat q * 2 ^ (7 * (i + 1)) = acc + (unat q * 128 + m) * 2 ^ (7 * i)"
      unfolding acc'_def by (rule next_group) simp
    then have "unat q * 128 + m < 2 ^ 64"
      using q(4) le_shift [of "unat q * 128 + m" acc "7 * i"] by (simp only:)
    then have w: "unat w = unat q * 128 + m" unfolding w_def by (rule unat_of_nat_64)
    have "m < 128" by (simp add: m_def)
    then have "unat (drop_bit 7 w) = unat q" "unat w mod 128 = m" by (simp_all add: unat_drop_bit_7 w)
    then have "drop_bit 7 w = q" "unat w mod 128 = m" by (simp_all add: word_unat_eq_iff)
    moreover have "0 < unat q" using q(5) by (simp add: word_neq_0_conv unat_gt_0)
    ultimately have "put_uvarint w = of_nat (128 + m) # put_uvarint q"
      using put_uvarint_big [of w] w by simp
    moreover have "of_nat (128 + m) = b" using of_nat_unat_byte [of b] unfolding b .
    moreover have "w \<noteq> 0" using w \<open>0 < unat q\<close> by auto
    moreover have "v = of_nat (acc + unat w * 2 ^ (7 * i))" "acc + unat w * 2 ^ (7 * i) < 2 ^ 64"
      using q(3,4) by (simp_all only: w sum)
    ultimately show ?thesis using q(1,2)
      by (intro exI [of _ w] exI [of _ r]) (simp del: of_nat_add of_nat_mult)
  qed
qed simp

lemma read_uvarint_Ok:
  assumes "read_uvarint bs = Ok (v, j)"
  obtains r where "bs = put_uvarint v @ r" "j = length (put_uvarint v)"
  using uvarint_loop_Ok [of 0 0 "length bs" bs v j] assms by (auto simp: read_uvarint_def)

end
