(* ===== verification/Cbor_Encode.thy ===== *)
theory Cbor_Encode
  imports Ipld Varint
begin

unbundle bit_operations_syntax

text \<open>
  \<open>codec/encode.rs\<close>: the canonical DAG-CBOR writer. A function of the source that appends to
  \<open>out\<close> is here the function that returns the bytes it appends.
\<close>

definition MAJOR_UINT :: byte where "MAJOR_UINT = 0"
definition MAJOR_NINT :: byte where "MAJOR_NINT = 1"
definition MAJOR_BYTES :: byte where "MAJOR_BYTES = 2"
definition MAJOR_TEXT :: byte where "MAJOR_TEXT = 3"
definition MAJOR_ARRAY :: byte where "MAJOR_ARRAY = 4"
definition MAJOR_MAP :: byte where "MAJOR_MAP = 5"
definition MAJOR_TAG :: byte where "MAJOR_TAG = 6"

lemmas majors = MAJOR_UINT_def MAJOR_NINT_def MAJOR_BYTES_def MAJOR_TEXT_def MAJOR_ARRAY_def
  MAJOR_MAP_def MAJOR_TAG_def

definition CBOR_FALSE :: byte where "CBOR_FALSE = 0xf4"
definition CBOR_TRUE :: byte where "CBOR_TRUE = 0xf5"
definition CBOR_NULL :: byte where "CBOR_NULL = 0xf6"
definition FLOAT64 :: byte where "FLOAT64 = 0xfb"

lemmas simple_values = CBOR_FALSE_def CBOR_TRUE_def CBOR_NULL_def FLOAT64_def

definition CID_TAG :: "64 word" where "CID_TAG = 42"
definition CID_MULTIBASE_IDENTITY :: byte where "CID_MULTIBASE_IDENTITY = 0x00"

text \<open>\<open>to_be_bytes\<close> and \<open>from_be_bytes\<close> at a width of \<open>k\<close> bytes.\<close>

fun be_bytes :: "nat \<Rightarrow> nat \<Rightarrow> byte list" where
  "be_bytes 0 n = []"
| "be_bytes (Suc k) n = be_bytes k (n div 256) @ [of_nat (n mod 256)]"

definition from_be :: "byte list \<Rightarrow> nat" where
  "from_be bs = foldl (\<lambda>a b. a * 256 + unat b) 0 bs"

definition head :: "byte \<Rightarrow> 64 word \<Rightarrow> byte list" where
  "head major arg =
     (let major = push_bit 5 major in
      if arg \<le> 23 then [major OR ucast arg]
      else if arg \<le> 0xff then (major OR 24) # be_bytes 1 (unat arg)
      else if arg \<le> 0xffff then (major OR 25) # be_bytes 2 (unat arg)
      else if arg \<le> 0xffffffff then (major OR 26) # be_bytes 4 (unat arg)
      else (major OR 27) # be_bytes 8 (unat arg))"

definition bytes_item :: "byte list \<Rightarrow> byte list" where
  "bytes_item value = head MAJOR_BYTES (of_nat (length value)) @ value"

definition text_item :: "str \<Rightarrow> byte list" where
  "text_item value = head MAJOR_TEXT (of_nat (str_len value)) @ utf8 value"

text \<open>\<open>u64::try_from\<close> of a wider integer.\<close>

definition u64_try_from :: "int \<Rightarrow> 64 word option" where
  "u64_try_from i = (if 0 \<le> i \<and> i < 2 ^ 64 then Some (of_int i) else None)"

definition integer :: "int \<Rightarrow> codec_error + byte list" where
  "integer value =
     (if 0 \<le> value
      then map_ok (head MAJOR_UINT) (ok_or IntegerOutOfRange (u64_try_from value))
      else map_ok (head MAJOR_NINT) (ok_or IntegerOutOfRange (u64_try_from (- 1 - value))))"

text \<open>Canonical entry order: by key length in bytes, then bytewise (a stable sort).\<close>

definition entry_key :: "str \<Rightarrow> nat \<times> byte list" where
  "entry_key k = (str_len k, utf8 k)"

definition sort_entries :: "(str \<times> 'v) list \<Rightarrow> (str \<times> 'v) list" where
  "sort_entries m = sort_key (\<lambda>e. entry_key (fst e)) m"

definition float_item :: "f64 \<Rightarrow> codec_error + byte list" where
  "float_item f =
     (if \<not> f64_is_finite f then Err InvalidFloat
      else Ok (FLOAT64 # be_bytes 8 (unat (if f64_is_zero f then 0 else f))))"

definition link_item :: "'c cid_lib \<Rightarrow> 'c \<Rightarrow> byte list" where
  "link_item L cid =
     (let raw = cid_to_bytes L cid
      in head MAJOR_TAG CID_TAG @ head MAJOR_BYTES (of_nat (length raw) + 1)
           @ CID_MULTIBASE_IDENTITY # raw)"

function cbor_item :: "'c cid_lib \<Rightarrow> nat \<Rightarrow> 'c ipld \<Rightarrow> codec_error + byte list" where
  "cbor_item L depth value =
     (if MAX_DEPTH < depth then Err NestingTooDeep
      else case value of
        INull \<Rightarrow> Ok [CBOR_NULL]
      | IBool b \<Rightarrow> Ok [if b then CBOR_TRUE else CBOR_FALSE]
      | IInteger i \<Rightarrow> integer i
      | IFloat f \<Rightarrow> float_item f
      | IString s \<Rightarrow> Ok (text_item s)
      | IBytes b \<Rightarrow> Ok (bytes_item b)
      | IList vs \<Rightarrow>
          map_ok (\<lambda>bs. head MAJOR_ARRAY (of_nat (length vs)) @ concat bs)
            (res_map (\<lambda>entry. cbor_item L (depth + 1) entry) vs)
      | IMap m \<Rightarrow>
          map_ok (\<lambda>bs. head MAJOR_MAP (of_nat (length m)) @ concat bs)
            (res_map (\<lambda>e. map_ok (\<lambda>bs. text_item (fst e) @ bs) (cbor_item L (depth + 1) (snd e)))
              (sort_entries m))
      | ILink cid \<Rightarrow> Ok (link_item L cid))"
  by pat_completeness auto
termination
  by (relation "measure (\<lambda>(L, depth, v). size v)")
    (auto simp: sort_entries_def less_Suc_eq_le size_list_estimation' intro: size_map_entry [simplified])

declare cbor_item.simps [simp del]

definition encode_into :: "'c cid_lib \<Rightarrow> 'c ipld \<Rightarrow> byte list \<Rightarrow> codec_error + byte list" where
  "encode_into L value out = map_ok (\<lambda>bs. out @ bs) (cbor_item L 0 value)"

definition encode :: "'c cid_lib \<Rightarrow> 'c ipld \<Rightarrow> codec_error + byte list" where
  "encode L value = encode_into L value []"

section \<open>Lemmas\<close>

lemma length_be_bytes [simp]: "length (be_bytes k n) = k"
  by (induction k arbitrary: n) auto

lemma from_be_snoc: "from_be (bs @ [b]) = from_be bs * 256 + unat b"
  by (simp add: from_be_def)

lemma from_be_be_bytes: "n < 256 ^ k \<Longrightarrow> from_be (be_bytes k n) = n"
proof (induction k arbitrary: n)
  case (Suc k)
  then have "n div 256 < 256 ^ k" by (simp add: less_mult_imp_div_less mult.commute)
  with Suc.IH show ?case by (simp add: from_be_snoc unat_of_nat_byte)
qed (simp add: from_be_def)

lemma be_bytes_from_be: "be_bytes (length bs) (from_be bs) = bs"
proof (induction bs rule: rev_induct)
  case (snoc b bs)
  have "(from_be bs * 256 + unat b) div 256 = from_be bs"
    "(from_be bs * 256 + unat b) mod 256 = unat b"
    using unat_byte_bound [of b] by simp_all
  with snoc show ?case by (simp add: from_be_snoc of_nat_unat_byte)
qed simp

lemma from_be_bound: "from_be bs < 256 ^ length bs"
proof (induction bs rule: rev_induct)
  case (snoc b bs)
  then have "from_be bs + 1 \<le> 256 ^ length bs" by simp
  then have "(from_be bs + 1) * 256 \<le> 256 ^ length bs * 256" by (rule mult_le_mono1)
  with unat_byte_bound [of b] show ?case by (simp add: from_be_snoc)
qed (simp add: from_be_def)

lemma head_byte: "m < 8 \<Longrightarrow> i < 32 \<Longrightarrow> push_bit 5 (of_nat m) OR of_nat i = (of_nat (i + m * 32) :: byte)"
  using nat_or_push [of i 5 m] by (simp only: push_bit_of_nat of_nat_or_eq [symmetric] or.commute) simp

lemma high_bits: "drop_bit 5 b = (of_nat (unat b div 32) :: byte)"
  using unat_byte_bound [of b] div_le_dividend [of "unat b" 32]
  by (simp add: word_unat_eq_iff drop_bit_eq_div unat_div unat_of_nat)

lemma low_bits: "b AND 0x1f = (of_nat (unat b mod 32) :: byte)"
proof (rule word_unat_eq_iff [THEN iffD2])
  have "b AND 0x1f = take_bit 5 b"
    by (simp add: take_bit_eq_mask mask_eq_exp_minus_1)
  then show "unat (b AND 0x1f) = unat (of_nat (unat b mod 32) :: byte)"
    by (simp add: unsigned_take_bit_eq take_bit_eq_mod unat_of_nat unat_mod)
qed

lemma entry_key_inject [simp]: "entry_key j = entry_key k \<longleftrightarrow> j = k"
  by (auto simp: entry_key_def)

lemma mset_sort_entries [simp]: "mset (sort_entries m) = mset m"
  by (simp add: sort_entries_def)

lemma set_sort_entries [simp]: "set (sort_entries m) = set m"
  by (simp add: sort_entries_def)

lemma length_sort_entries [simp]: "length (sort_entries m) = length m"
  by (simp add: sort_entries_def)

lemma encode_eq: "encode L v = cbor_item L 0 v"
  by (cases "cbor_item L 0 v") (simp_all add: encode_def encode_into_def)

end
