(* ===== verification/Cbor_Decode.thy ===== *)
theory Cbor_Decode
  imports Cbor_Encode
begin

unbundle bit_operations_syntax

text \<open>
  \<open>codec/decode.rs\<close>: the strict DAG-CBOR reader. A reader is the input and the offset of the
  next unread byte; a method returns its result with the reader it leaves behind. What happens
  to the offset on an error is not observable, since every caller gives up on the first error.
\<close>

record reader =
  r_bytes :: "byte list"
  r_pos :: nat

type_synonym 'a reading = "codec_error + ('a \<times> reader)"

definition reader_new :: "byte list \<Rightarrow> reader" where
  "reader_new bs = \<lparr>r_bytes = bs, r_pos = 0\<rparr>"

definition reader_finish :: "reader \<Rightarrow> codec_error + unit" where
  "reader_finish rd = (if r_pos rd = length (r_bytes rd) then Ok () else Err TrailingBytes)"

definition rd_byte :: "reader \<Rightarrow> byte reading" where
  "rd_byte rd =
     map_ok (\<lambda>b. (b, rd\<lparr>r_pos := r_pos rd + 1\<rparr>)) (ok_or UnexpectedEnd (nth_opt (r_bytes rd) (r_pos rd)))"

text \<open>\<open>usize::try_from(u64)\<close>.\<close>

definition usize_try_from :: "64 word \<Rightarrow> codec_error + nat" where
  "usize_try_from n = (if unat n \<le> usize_max then Ok (unat n) else Err LengthTooLarge)"

definition rd_take :: "64 word \<Rightarrow> reader \<Rightarrow> byte list reading" where
  "rd_take len rd =
     res_bind (usize_try_from len) (\<lambda>len.
     let stop = r_pos rd + len in
     if usize_max < stop then Err LengthTooLarge
     else map_ok (\<lambda>s. (s, rd\<lparr>r_pos := stop\<rparr>))
            (ok_or UnexpectedEnd (slice_get (r_pos rd) stop (r_bytes rd))))"

text \<open>The \<open>N\<close>-byte big-endian integer that \<open>from_be_bytes(self.fixed()?)\<close> reads.\<close>

definition rd_fixed :: "nat \<Rightarrow> reader \<Rightarrow> 64 word reading" where
  "rd_fixed n rd = map_ok (\<lambda>(s, rd). (of_nat (from_be s), rd)) (rd_take (of_nat n) rd)"

definition minimal :: "64 word \<Rightarrow> 64 word reading \<Rightarrow> 64 word reading" where
  "minimal limit m =
     res_bind m (\<lambda>(v, rd). if v \<le> limit then Err NonMinimalInteger else Ok (v, rd))"

definition argument :: "byte \<Rightarrow> reader \<Rightarrow> 64 word reading" where
  "argument info rd =
     (if info \<le> 23 then Ok (ucast info, rd)
      else if info = 24 then minimal 23 (map_ok (\<lambda>(b, rd). (ucast b, rd)) (rd_byte rd))
      else if info = 25 then minimal 0xff (rd_fixed 2 rd)
      else if info = 26 then minimal 0xffff (rd_fixed 4 rd)
      else if info = 27 then minimal 0xffffffff (rd_fixed 8 rd)
      else if info = 31 then Err IndefiniteLength
      else Err Reserved)"

text \<open>\<open>Head { major, arg }\<close> as a pair.\<close>

definition rd_head :: "reader \<Rightarrow> (byte \<times> 64 word) reading" where
  "rd_head rd =
     res_bind (rd_byte rd) (\<lambda>(initial, rd).
     let major = drop_bit 5 initial in
     if major = 7 then Err UnexpectedType
     else map_ok (\<lambda>(arg, rd). ((major, arg), rd)) (argument (initial AND 0x1f) rd))"

definition container :: "byte \<Rightarrow> reader \<Rightarrow> nat reading" where
  "container major rd =
     res_bind (rd_head rd) (\<lambda>((m, arg), rd).
     if m \<noteq> major then Err UnexpectedType
     else map_ok (\<lambda>n. (n, rd)) (usize_try_from arg))"

definition array_len :: "reader \<Rightarrow> nat reading" where
  "array_len rd = container 4 rd"

definition map_len :: "reader \<Rightarrow> nat reading" where
  "map_len rd = container 5 rd"

definition rd_bytes :: "reader \<Rightarrow> byte list reading" where
  "rd_bytes rd =
     res_bind (rd_head rd) (\<lambda>((m, arg), rd).
     if m \<noteq> 2 then Err UnexpectedType else rd_take arg rd)"

text \<open>\<open>from_utf8(self.take(len)?).map_err(|_| InvalidUtf8)\<close>.\<close>

definition take_text :: "64 word \<Rightarrow> reader \<Rightarrow> str reading" where
  "take_text len rd =
     res_bind (rd_take len rd) (\<lambda>(s, rd). map_ok (\<lambda>t. (t, rd)) (ok_or InvalidUtf8 (from_utf8 s)))"

definition rd_text :: "reader \<Rightarrow> str reading" where
  "rd_text rd =
     res_bind (rd_head rd) (\<lambda>((m, arg), rd).
     if m \<noteq> 3 then Err UnexpectedType else take_text arg rd)"

definition rd_simple :: "byte \<Rightarrow> reader \<Rightarrow> 'c ipld reading" where
  "rd_simple info rd =
     (if info = 20 then Ok (IBool False, rd)
      else if info = 21 then Ok (IBool True, rd)
      else if info = 22 then Ok (INull, rd)
      else if info = 27 then
        res_bind (rd_fixed 8 rd) (\<lambda>(value, rd).
        if f64_is_finite value \<and> \<not> (f64_is_zero value \<and> f64_negative value)
        then Ok (IFloat value, rd) else Err InvalidFloat)
      else if info = 25 \<or> info = 26 then Err InvalidFloat
      else if info = 31 then Err IndefiniteLength
      else Err UnsupportedSimple)"

text \<open>\<open>canonical_order\<close>, the order of keys in a canonical map.\<close>

definition canonical_order :: "str \<Rightarrow> str \<Rightarrow> ordering" where
  "canonical_order a b = (case cmp (str_len a) (str_len b) of Equal \<Rightarrow> cmp (utf8 a) (utf8 b) | c \<Rightarrow> c)"

definition rd_link :: "'c cid_lib \<Rightarrow> 64 word \<Rightarrow> reader \<Rightarrow> 'c ipld reading" where
  "rd_link L tag rd =
     (if tag \<noteq> CID_TAG then Err (UnsupportedTag tag)
      else res_bind (map_err (\<lambda>e. if e = UnexpectedType then InvalidCid else e) (rd_bytes rd))
        (\<lambda>(raw, rd). case raw of
           [] \<Rightarrow> Err InvalidCid
         | prefix # cid \<Rightarrow>
             if prefix \<noteq> CID_MULTIBASE_IDENTITY then Err InvalidCid
             else map_ok (\<lambda>c. (ILink c, rd)) (map_err (\<lambda>_. InvalidCid) (cid_from_bytes L cid))))"

text \<open>
  The two loops, over the reading of one element: \<open>for _ in 0..len { items.push(self.item(..)?) }\<close>
  and the body of \<open>Reader::map\<close>, whose state is the previous key and the map so far.
\<close>

fun rd_items :: "(reader \<Rightarrow> 'a reading) \<Rightarrow> nat \<Rightarrow> reader \<Rightarrow> 'a list reading" where
  "rd_items f 0 rd = Ok ([], rd)"
| "rd_items f (Suc n) rd =
     res_bind (f rd) (\<lambda>(v, rd). map_ok (\<lambda>(vs, rd). (v # vs, rd)) (rd_items f n rd))"

fun rd_entries :: "(reader \<Rightarrow> 'a reading) \<Rightarrow> nat \<Rightarrow> str option \<Rightarrow> (str \<times> 'a) list \<Rightarrow> reader
    \<Rightarrow> (str \<times> 'a) list reading" where
  "rd_entries f 0 previous m rd = Ok (m, rd)"
| "rd_entries f (Suc n) previous m rd =
     res_bind (map_err (\<lambda>e. if e = UnexpectedType then NonStringKey else e) (rd_text rd)) (\<lambda>(key, rd).
     case map_option (\<lambda>prev. canonical_order prev key) previous of
       Some Equal \<Rightarrow> Err DuplicateKey
     | Some Greater \<Rightarrow> Err UnsortedKeys
     | _ \<Rightarrow> res_bind (f rd) (\<lambda>(value, rd). rd_entries f n (Some key) (bt_insert key value m) rd))"

lemma rd_items_cong [fundef_cong]:
  assumes "n = n'" "rd = rd'" "\<And>r. f r = g r"
  shows "rd_items f n rd = rd_items g n' rd'"
  using assms by presburger

lemma rd_entries_cong [fundef_cong]:
  assumes "n = n'" "p = p'" "m = m'" "rd = rd'" "\<And>r. f r = g r"
  shows "rd_entries f n p m rd = rd_entries g n' p' m' rd'"
  using assms by presburger

function rd_item :: "'c cid_lib \<Rightarrow> nat \<Rightarrow> reader \<Rightarrow> 'c ipld reading" where
  "rd_item L depth rd =
     (if MAX_DEPTH < depth then Err NestingTooDeep
      else res_bind (ok_or UnexpectedEnd (nth_opt (r_bytes rd) (r_pos rd))) (\<lambda>initial.
        if drop_bit 5 initial = 7 then rd_simple (initial AND 0x1f) (rd\<lparr>r_pos := r_pos rd + 1\<rparr>)
        else res_bind (rd_head rd) (\<lambda>((major, arg), rd).
          if major = 0 then Ok (IInteger (int (unat arg)), rd)
          else if major = 1 then Ok (IInteger (- 1 - int (unat arg)), rd)
          else if major = 2 then map_ok (\<lambda>(s, rd). (IBytes s, rd)) (rd_take arg rd)
          else if major = 3 then map_ok (\<lambda>(t, rd). (IString t, rd)) (take_text arg rd)
          else if major = 4 then
            res_bind (usize_try_from arg) (\<lambda>len.
            map_ok (\<lambda>(vs, rd). (IList vs, rd)) (rd_items (\<lambda>rd. rd_item L (depth + 1) rd) len rd))
          else if major = 5 then
            res_bind (usize_try_from arg) (\<lambda>len.
            map_ok (\<lambda>(m, rd). (IMap m, rd)) (rd_entries (\<lambda>rd. rd_item L (depth + 1) rd) len None [] rd))
          else if major = 6 then rd_link L arg rd
          else Err Reserved)))"
  by pat_completeness auto
termination
  by (relation "measure (\<lambda>(L, depth, rd). 129 - depth)") (auto simp: MAX_DEPTH_def)

declare rd_item.simps [simp del]

definition rd_value :: "'c cid_lib \<Rightarrow> reader \<Rightarrow> 'c ipld reading" where
  "rd_value L rd = rd_item L 0 rd"

definition decode :: "'c cid_lib \<Rightarrow> byte list \<Rightarrow> codec_error + 'c ipld" where
  "decode L bs =
     res_bind (rd_value L (reader_new bs)) (\<lambda>(value, rd).
     res_bind (reader_finish rd) (\<lambda>_. Ok value))"

end
