(* ===== verification/Cbor_Reads.thy ===== *)
theory Cbor_Reads
  imports Cbor_Decode
begin

unbundle bit_operations_syntax

text \<open>
  What a successful read says: \<open>reads rd enc rd'\<close> when the bytes at the offset of \<open>rd\<close> are \<open>enc\<close>
  and \<open>rd'\<close> is \<open>rd\<close> past them. Every reading operation is characterised by the encoding of the
  value it returns, in both directions: a success (\<open>_D\<close>) has consumed exactly that encoding, and
  where that encoding lies ahead the operation succeeds (\<open>_I\<close>).
\<close>

definition reads :: "reader \<Rightarrow> byte list \<Rightarrow> reader \<Rightarrow> bool" where
  "reads rd enc rd' \<longleftrightarrow> (\<exists>pre post. r_bytes rd = pre @ enc @ post \<and> r_pos rd = length pre
     \<and> rd' = rd\<lparr>r_pos := length pre + length enc\<rparr>)"

text \<open>A slice is never longer than \<open>usize::MAX\<close>.\<close>

definition addressable :: "reader \<Rightarrow> bool" where
  "addressable rd \<longleftrightarrow> length (r_bytes rd) \<le> usize_max"

named_theorems reads_dest \<open>what a successful read consumed\<close>
named_theorems reads_intro \<open>reads that succeed\<close>

lemma reads_bytes: "reads rd enc rd' \<Longrightarrow> r_bytes rd' = r_bytes rd"
  by (auto simp: reads_def)

lemma reads_addressable: "reads rd enc rd' \<Longrightarrow> addressable rd' \<longleftrightarrow> addressable rd"
  by (auto simp: reads_def addressable_def)

lemma reads_append: "reads rd (a @ b) rd'' \<longleftrightarrow> (\<exists>rd'. reads rd a rd' \<and> reads rd' b rd'')"
proof
  assume "reads rd (a @ b) rd''"
  then obtain pre post where p: "r_bytes rd = pre @ a @ b @ post" "r_pos rd = length pre"
    "rd'' = rd\<lparr>r_pos := length pre + length (a @ b)\<rparr>" by (auto simp: reads_def)
  let ?rd = "rd\<lparr>r_pos := length pre + length a\<rparr>"
  have "reads rd a ?rd" using p unfolding reads_def
    by (intro exI [of _ pre] exI [of _ "b @ post"]) simp
  moreover have "reads ?rd b rd''"
    using p unfolding reads_def by (intro exI [of _ "pre @ a"] exI [of _ post]) simp
  ultimately show "\<exists>rd'. reads rd a rd' \<and> reads rd' b rd''" by blast
next
  assume "\<exists>rd'. reads rd a rd' \<and> reads rd' b rd''"
  then obtain rd' where rd': "reads rd a rd'" "reads rd' b rd''" by blast
  from rd'(1) obtain pre post where p1: "r_bytes rd = pre @ a @ post" "r_pos rd = length pre"
    "rd' = rd\<lparr>r_pos := length pre + length a\<rparr>" unfolding reads_def by blast
  from rd'(2) obtain pre' post' where p2: "r_bytes rd' = pre' @ b @ post'" "r_pos rd' = length pre'"
    "rd'' = rd'\<lparr>r_pos := length pre' + length b\<rparr>" unfolding reads_def by blast
  note p = p1(1,2) p2(1,2) [unfolded p1(3)] p2(3) [unfolded p1(3)]
  from p have "(pre @ a) @ post = pre' @ b @ post'" "length (pre @ a) = length pre'" by simp_all
  then have "pre @ a = pre' \<and> post = b @ post'"
    by (intro iffD1 [OF append_eq_append_conv [OF disjI1]])
  then have "pre' = pre @ a" "post = b @ post'" by simp_all
  with p show "reads rd (a @ b) rd''" unfolding reads_def
    by (intro exI [of _ pre] exI [of _ post']) simp
qed

lemma reads_Cons: "reads rd (x # b) rd'' \<longleftrightarrow> (\<exists>rd'. reads rd [x] rd' \<and> reads rd' b rd'')"
  using reads_append [of rd "[x]" b rd''] by simp

lemma reads_Nil: "reads rd [] rd' \<longleftrightarrow> rd' = rd \<and> r_pos rd \<le> length (r_bytes rd)"
proof
  assume "rd' = rd \<and> r_pos rd \<le> length (r_bytes rd)"
  then show "reads rd [] rd'" unfolding reads_def
    by (intro exI [of _ "take (r_pos rd) (r_bytes rd)"] exI [of _ "drop (r_pos rd) (r_bytes rd)"]) simp
qed (auto simp: reads_def)

lemma reads_within: "reads rd enc rd' \<Longrightarrow> r_pos rd' \<le> length (r_bytes rd')"
  by (auto simp: reads_def)

lemma reads_functional: "reads rd enc rd' \<Longrightarrow> reads rd enc rd'' \<Longrightarrow> rd'' = rd'"
  by (auto simp: reads_def)

lemma reads_whole: "reads (reader_new bs) enc rd \<Longrightarrow> r_pos rd = length bs \<Longrightarrow> enc = bs"
  by (auto simp: reads_def reader_new_def)

lemma reads_new: "reads (reader_new (enc @ post)) enc \<lparr>r_bytes = enc @ post, r_pos = length enc\<rparr>"
  by (auto simp: reads_def reader_new_def)

section \<open>Bytes and slices\<close>

lemma rd_byte_iff: "rd_byte rd = Ok (b, rd') \<longleftrightarrow> reads rd [b] rd'"
proof
  assume "rd_byte rd = Ok (b, rd')"
  then have n: "r_pos rd < length (r_bytes rd)" "r_bytes rd ! r_pos rd = b" "rd' = rd\<lparr>r_pos := r_pos rd + 1\<rparr>"
    by (auto simp: rd_byte_def res_simps)
  then show "reads rd [b] rd'" unfolding reads_def
    by (intro exI [of _ "take (r_pos rd) (r_bytes rd)"] exI [of _ "drop (Suc (r_pos rd)) (r_bytes rd)"])
      (auto simp: id_take_nth_drop [symmetric])
qed (auto simp: rd_byte_def reads_def res_simps)

lemma reads_peek: "reads rd (b # bs) rd' \<Longrightarrow> nth_opt (r_bytes rd) (r_pos rd) = Some b"
  by (auto simp: reads_def)

lemma usize_try_from_eq: "usize_try_from n = Ok (unat n)"
  using unat_64_bound [of n] by (simp add: usize_try_from_def usize_max_def)

lemma usize_try_from_Ok [simp]: "usize_try_from n = Ok k \<longleftrightarrow> k = unat n"
  using unat_64_bound [of n] by (auto simp: usize_try_from_def usize_max_def)

lemma slice_get_Some: "slice_get i j xs = Some s \<longleftrightarrow> i \<le> j \<and> (\<exists>pre post. xs = pre @ s @ post \<and> length pre = i
    \<and> length pre + length s = j)"
proof
  assume "slice_get i j xs = Some s"
  then have ij: "i \<le> j" "j \<le> length xs" "s = take (j - i) (drop i xs)"
    by (auto simp: slice_get_def split: if_splits)
  then have "xs = take i xs @ s @ drop (j - i) (drop i xs)" by (simp only: append_take_drop_id)
  moreover have "length (take i xs) = i" "length (take i xs) + length s = j" using ij by simp_all
  ultimately show "i \<le> j \<and> (\<exists>pre post. xs = pre @ s @ post \<and> length pre = i \<and> length pre + length s = j)"
    using ij(1) by blast
qed (auto simp: slice_get_def)

lemma rd_take_D [reads_dest]: "rd_take len rd = Ok (s, rd') \<Longrightarrow> length s = unat len \<and> reads rd s rd'"
  by (auto simp: rd_take_def res_simps Let_def slice_get_Some reads_def split: if_splits)

lemma rd_take_I [reads_intro]:
  "addressable rd \<Longrightarrow> reads rd s rd' \<Longrightarrow> length s = unat len \<Longrightarrow> rd_take len rd = Ok (s, rd')"
proof -
  assume a: "addressable rd" "reads rd s rd'" "length s = unat len"
  then have "slice_get (r_pos rd) (r_pos rd + unat len) (r_bytes rd) = Some s"
    by (auto simp: reads_def slice_get_Some)
  with a show ?thesis
    by (auto simp: rd_take_def res_simps Let_def reads_def addressable_def)
qed

lemma rd_fixed_D [reads_dest]:
  "rd_fixed n rd = Ok (v, rd') \<Longrightarrow> n \<le> 8 \<Longrightarrow> unat v < 256 ^ n \<and> reads rd (be_bytes n (unat v)) rd'"
proof -
  assume n: "n \<le> 8" and "rd_fixed n rd = Ok (v, rd')"
  then obtain s where s: "rd_take (of_nat n) rd = Ok (s, rd')" "v = of_nat (from_be s)"
    by (auto simp: rd_fixed_def res_simps)
  from rd_take_D [OF s(1)] n have l: "length s = n" "reads rd s rd'" by (auto simp: unat_of_nat)
  have "(256::nat) ^ n \<le> 256 ^ 8" using n by (intro power_increasing) auto
  with from_be_bound [of s] l have "unat v = from_be s" unfolding s by (intro unat_of_nat_64) simp
  with l from_be_bound [of s] be_bytes_from_be [of s] show ?thesis by simp
qed

lemma rd_fixed_I [reads_intro]:
  "addressable rd \<Longrightarrow> reads rd (be_bytes n (unat v)) rd' \<Longrightarrow> n \<le> 8 \<Longrightarrow> unat v < 256 ^ n \<Longrightarrow> rd_fixed n rd = Ok (v, rd')"
  using rd_take_I [of rd "be_bytes n (unat v)" rd' "of_nat n"]
  by (auto simp: rd_fixed_def unat_of_nat from_be_be_bytes)

section \<open>Heads\<close>

definition head_info :: "64 word \<Rightarrow> nat" where
  "head_info arg =
     (if arg \<le> 23 then unat arg else if arg \<le> 0xff then 24 else if arg \<le> 0xffff then 25
      else if arg \<le> 0xffffffff then 26 else 27)"

definition head_tail :: "64 word \<Rightarrow> byte list" where
  "head_tail arg =
     (if arg \<le> 23 then [] else if arg \<le> 0xff then be_bytes 1 (unat arg)
      else if arg \<le> 0xffff then be_bytes 2 (unat arg)
      else if arg \<le> 0xffffffff then be_bytes 4 (unat arg) else be_bytes 8 (unat arg))"

lemma head_info_less: "head_info arg < 32"
  by (auto simp: head_info_def word_le_nat_alt)

lemma ucast_small: "arg \<le> 23 \<Longrightarrow> ucast (arg :: 64 word) = (of_nat (unat arg) :: byte)"
  by (simp add: word_unat_eq_iff unsigned_ucast_eq unsigned_take_bit_eq take_bit_eq_mod unat_of_nat)

lemma head_split: "m < 8 \<Longrightarrow> head (of_nat m) arg = of_nat (head_info arg + m * 32) # head_tail arg"
  unfolding head_byte [OF _ head_info_less, symmetric]
  by (auto simp only: head_def head_info_def head_tail_def Let_def ucast_small of_nat_numeral split: if_split)


lemma minimal_Ok: "minimal k m = Ok (v, rd') \<longleftrightarrow> m = Ok (v, rd') \<and> k < v"
  by (auto simp: minimal_def res_simps not_le split: if_splits)

lemma rd_wide_byte: "map_ok (\<lambda>(b, rd). (ucast b, rd)) (rd_byte rd) = (Ok (v, rd') :: 64 word reading)
    \<longleftrightarrow> unat v < 256 \<and> reads rd (be_bytes 1 (unat v)) rd'"
proof -
  have "v = ucast (b :: byte) \<longleftrightarrow> unat v < 256 \<and> b = of_nat (unat v)" for b
    using unat_byte_bound [of b]
    by (auto simp: word_unat_eq_iff unsigned_ucast_eq unsigned_take_bit_eq take_bit_eq_mod unat_of_nat)
  then show ?thesis
    by (auto simp: map_ok_Ok rd_byte_iff)
qed

lemma info_cases: "unat (info :: byte) = k \<Longrightarrow> info = of_nat k"
  using of_nat_unat_byte [of info] by simp

lemma argument_D:
  assumes "argument info rd = Ok (arg, rd')"
  shows "unat info = head_info arg \<and> (head_tail arg = [] \<and> rd' = rd \<or> reads rd (head_tail arg) rd')"
proof -
  have small: "info \<le> 23 \<Longrightarrow> unat (ucast info :: 64 word) = unat info"
    using unat_byte_bound [of info]
    by (simp add: unsigned_ucast_eq unsigned_take_bit_eq take_bit_eq_mod)
  show ?thesis
    using assms unfolding argument_def minimal_Ok rd_wide_byte
    by (auto simp: head_info_def head_tail_def small word_le_nat_alt word_less_nat_alt minimal_Ok rd_wide_byte
        split: if_splits dest!: rd_fixed_D)
qed


lemma argument_I:
  assumes "addressable rd" "unat info = head_info arg" "reads rd (head_tail arg) rd'"
  shows "argument info rd = Ok (arg, rd')"
proof -
  have small: "info \<le> 23 \<Longrightarrow> unat arg = unat info \<Longrightarrow> ucast info = arg"
    using unat_byte_bound [of info]
    by (simp add: word_unat_eq_iff unsigned_ucast_eq unsigned_take_bit_eq take_bit_eq_mod)
  have wide: "unat arg < 256 ^ n" if "arg \<le> k" "unat k < 256 ^ n" for k :: "64 word" and n
    using that by (simp add: word_le_nat_alt)
  consider "arg \<le> 23" | "\<not> arg \<le> 23" "arg \<le> 0xff"
    | "\<not> arg \<le> 23" "\<not> arg \<le> 0xff" "arg \<le> 0xffff"
    | "\<not> arg \<le> 23" "\<not> arg \<le> 0xff" "\<not> arg \<le> 0xffff" "arg \<le> 0xffffffff"
    | "\<not> arg \<le> 23" "\<not> arg \<le> 0xff" "\<not> arg \<le> 0xffff" "\<not> arg \<le> 0xffffffff"
    by blast
  then show ?thesis
  proof cases
    case 1
    then have info: "unat info = unat arg" using assms(2) by (simp add: head_info_def)
    then have le: "info \<le> 23" using 1 by (simp add: word_le_nat_alt)
    have "head_tail arg = []" using 1 by (simp add: head_tail_def)
    then have "rd' = rd" using assms(3) by (simp add: reads_Nil)
    with small [OF le info [symmetric]] le show ?thesis by (simp add: argument_def)
  next
    case 2
    then have "info = 24" using assms(2) info_cases [of info 24] by (simp add: head_info_def)
    moreover have "reads rd (be_bytes 1 (unat arg)) rd'" using assms(3) 2 by (simp add: head_tail_def)
    moreover have "unat arg < 256" using wide [of "0xff" 1] 2 by simp
    ultimately show ?thesis using 2
      by (simp add: argument_def minimal_Ok rd_wide_byte not_le del: be_bytes.simps)
  next
    case 3
    then have "info = 25" using assms(2) info_cases [of info 25] by (simp add: head_info_def)
    moreover have "rd_fixed 2 rd = Ok (arg, rd')"
      using assms(1,3) 3 wide [of "0xffff" 2] by (intro rd_fixed_I) (simp_all add: head_tail_def)
    ultimately show ?thesis using 3 by (simp add: argument_def minimal_Ok not_le)
  next
    case 4
    then have "info = 26" using assms(2) info_cases [of info 26] by (simp add: head_info_def)
    moreover have "rd_fixed 4 rd = Ok (arg, rd')"
      using assms(1,3) 4 wide [of "0xffffffff" 4] by (intro rd_fixed_I) (simp_all add: head_tail_def)
    ultimately show ?thesis using 4 by (simp add: argument_def minimal_Ok not_le)
  next
    case 5
    then have "info = 27" using assms(2) info_cases [of info 27] by (simp add: head_info_def)
    moreover have "rd_fixed 8 rd = Ok (arg, rd')"
      using assms(1,3) 5 unat_64_bound [of arg] by (intro rd_fixed_I) (simp_all add: head_tail_def)
    ultimately show ?thesis using 5 by (simp add: argument_def minimal_Ok not_le)
  qed
qed

lemma head_byte_fields:
  assumes "m < 8" "i < 32" "b = (of_nat (i + m * 32) :: byte)"
  shows "drop_bit 5 b = of_nat m" "b AND 0x1f = of_nat i"
proof -
  have "unat b = i + m * 32" unfolding assms(3) using assms(1,2) by (intro unat_of_nat_byte) simp
  with assms(2) show "drop_bit 5 b = of_nat m" "b AND 0x1f = of_nat i"
    unfolding high_bits low_bits by simp_all
qed

lemma of_nat_byte_7: "m < 8 \<Longrightarrow> (of_nat m :: byte) = 7 \<longleftrightarrow> m = 7"
  by (auto simp: word_unat_eq_iff unat_of_nat)

lemma rd_head_I [reads_intro]:
  assumes "addressable rd" "reads rd (head (of_nat m) arg) rd'" "m < 7"
  shows "rd_head rd = Ok ((of_nat m, arg), rd')"
proof -
  from assms(2,3) obtain rd1 where rd1: "reads rd [of_nat (head_info arg + m * 32)] rd1"
    "reads rd1 (head_tail arg) rd'"
    by (auto simp: head_split reads_Cons [of _ _ "head_tail arg"])
  note fields = head_byte_fields [OF _ head_info_less refl, of m arg]
  have "argument (of_nat (head_info arg)) rd1 = Ok (arg, rd')"
    using assms(1) rd1 head_info_less [of arg]
    by (intro argument_I) (simp_all add: reads_addressable [OF rd1(1)] unat_of_nat_byte)
  with rd1(1) assms(3) fields show ?thesis
    by (simp add: rd_head_def rd_byte_iff [THEN iffD2] Let_def of_nat_byte_7)
qed

lemma rd_head_D [reads_dest]:
  assumes "rd_head rd = Ok ((major, arg), rd')"
  obtains m where "major = of_nat m" "m < 7" "reads rd (head major arg) rd'"
proof -
  from assms obtain b rd1 where b: "reads rd [b] rd1" "major = drop_bit 5 b" "major \<noteq> 7"
    "argument (b AND 0x1f) rd1 = Ok (arg, rd')"
    by (auto simp: rd_head_def res_simps rd_byte_iff Let_def split: if_splits)
  define m where "m = unat b div 32"
  have m: "m < 8" using unat_byte_bound [of b] by (simp add: m_def)
  have major: "major = of_nat m" using b(2) by (simp add: high_bits m_def)
  then have "m \<noteq> 7" using b(3) of_nat_byte_7 [OF m] by simp
  with m have "m < 7" by simp
  have info: "unat b mod 32 = head_info arg"
    and tail: "head_tail arg = [] \<and> rd' = rd1 \<or> reads rd1 (head_tail arg) rd'"
    using argument_D [OF b(4)] unat_byte_bound [of b] by (simp_all add: low_bits unat_of_nat)
  have "of_nat (head_info arg + m * 32) = b"
    unfolding info [symmetric] m_def by (simp only: mod_mult_div_eq of_nat_unat_byte mod_div_mult_eq)
  then have "head major arg = b # head_tail arg" using m by (simp add: major head_split)
  moreover have "reads rd (b # head_tail arg) rd'"
    using tail b(1) by (subst reads_Cons) (auto simp: reads_Nil dest: reads_within)
  ultimately show thesis using that major \<open>m < 7\<close> by metis
qed

end
