(* ===== verification/Cbor.thy ===== *)
theory Cbor
  imports Cbor_Reads
begin

text \<open>
  What the DAG-CBOR codec promises (\<open>codec/mod.rs\<close>): the decoder accepts canonical form only, so
  that no two inputs decode to the same value, and it reads back whatever the encoder writes.
\<close>

section \<open>Text, bytes and containers\<close>

lemma take_text_D [reads_dest]:
  "take_text len rd = Ok (t, rd') \<Longrightarrow> str_len t = unat len \<and> reads rd (utf8 t) rd'"
  by (auto simp: take_text_def res_simps from_utf8_iff str_len_def dest!: rd_take_D)

lemma take_text_I [reads_intro]:
  "addressable rd \<Longrightarrow> reads rd (utf8 t) rd' \<Longrightarrow> str_len t = unat len \<Longrightarrow> take_text len rd = Ok (t, rd')"
  by (simp add: take_text_def str_len_def rd_take_I)

lemma reads_length: "addressable rd \<Longrightarrow> reads rd enc rd' \<Longrightarrow> length enc < 2 ^ 64"
  by (auto simp: reads_def addressable_def usize_max_def)

lemma majors_of_nat:
  "MAJOR_UINT = of_nat 0" "MAJOR_NINT = of_nat 1" "MAJOR_BYTES = of_nat 2" "MAJOR_TEXT = of_nat 3"
  "MAJOR_ARRAY = of_nat 4" "MAJOR_MAP = of_nat 5" "MAJOR_TAG = of_nat 6"
  by (simp_all add: majors)

text \<open>A length that survives the cast to \<open>u64\<close>.\<close>

lemma len_word: "n = unat len \<Longrightarrow> of_nat n = (len :: 64 word)"
  by (simp add: word_unat_eq_iff)

lemma rd_text_D [reads_dest]: "rd_text rd = Ok (t, rd') \<Longrightarrow> reads rd (text_item t) rd' \<and> str_len t < 2 ^ 64"
proof -
  assume "rd_text rd = Ok (t, rd')"
  then obtain arg rd1 where h: "rd_head rd = Ok ((3, arg), rd1)" "take_text arg rd1 = Ok (t, rd')"
    by (auto simp: rd_text_def res_simps split: if_splits)
  from h(1) have "reads rd (head 3 arg) rd1" by (auto elim: rd_head_D)
  with take_text_D [OF h(2)] unat_64_bound [of arg] show ?thesis
    by (auto simp: text_item_def len_word majors reads_append)
qed

lemma rd_text_I [reads_intro]: "addressable rd \<Longrightarrow> reads rd (text_item t) rd' \<Longrightarrow> rd_text rd = Ok (t, rd')"
proof -
  assume a: "addressable rd" and r: "reads rd (text_item t) rd'"
  from reads_length [OF a r] have l: "str_len t < 2 ^ 64" by (simp add: text_item_def str_len_def)
  from r obtain rd1 where rd1: "reads rd (head (of_nat 3) (of_nat (str_len t))) rd1" "reads rd1 (utf8 t) rd'"
    by (auto simp: text_item_def majors reads_append)
  then have "take_text (of_nat (str_len t)) rd1 = Ok (t, rd')"
    using a l by (intro take_text_I) (simp_all add: reads_addressable [OF rd1(1)] unat_of_nat_64)
  with rd_head_I [OF a rd1(1)] show ?thesis by (simp add: rd_text_def)
qed

lemma rd_bytes_D [reads_dest]: "rd_bytes rd = Ok (s, rd') \<Longrightarrow> reads rd (bytes_item s) rd' \<and> length s < 2 ^ 64"
proof -
  assume "rd_bytes rd = Ok (s, rd')"
  then obtain arg rd1 where h: "rd_head rd = Ok ((2, arg), rd1)" "rd_take arg rd1 = Ok (s, rd')"
    by (auto simp: rd_bytes_def res_simps split: if_splits)
  from h(1) have "reads rd (head 2 arg) rd1" by (auto elim: rd_head_D)
  with rd_take_D [OF h(2)] unat_64_bound [of arg] show ?thesis
    by (auto simp: bytes_item_def len_word majors reads_append)
qed

lemma rd_bytes_I [reads_intro]: "addressable rd \<Longrightarrow> reads rd (bytes_item s) rd' \<Longrightarrow> rd_bytes rd = Ok (s, rd')"
proof -
  assume a: "addressable rd" and r: "reads rd (bytes_item s) rd'"
  from reads_length [OF a r] have l: "length s < 2 ^ 64" by (simp add: bytes_item_def)
  from r obtain rd1 where rd1: "reads rd (head (of_nat 2) (of_nat (length s))) rd1" "reads rd1 s rd'"
    by (auto simp: bytes_item_def majors reads_append)
  then have "rd_take (of_nat (length s)) rd1 = Ok (s, rd')"
    using a l by (intro rd_take_I) (simp_all add: reads_addressable [OF rd1(1)] unat_of_nat_64)
  with rd_head_I [OF a rd1(1)] show ?thesis by (simp add: rd_bytes_def)
qed

lemma container_D: "container k rd = Ok (n, rd') \<Longrightarrow> n < 2 ^ 64 \<and> reads rd (head k (of_nat n)) rd'"
proof -
  assume "container k rd = Ok (n, rd')"
  then obtain arg where h: "rd_head rd = Ok ((k, arg), rd')" "n = unat arg"
    by (auto simp: container_def res_simps split: if_splits)
  then show ?thesis using unat_64_bound [of arg] by (auto elim: rd_head_D)
qed

lemma container_I:
  "addressable rd \<Longrightarrow> reads rd (head (of_nat k) (of_nat n)) rd' \<Longrightarrow> k < 7 \<Longrightarrow> n < 2 ^ 64
    \<Longrightarrow> container (of_nat k) rd = Ok (n, rd')"
  by (simp add: container_def rd_head_I unat_of_nat_64 map_ok_Ok)

lemma array_len_D [reads_dest]: "array_len rd = Ok (n, rd') \<Longrightarrow> n < 2 ^ 64 \<and> reads rd (head MAJOR_ARRAY (of_nat n)) rd'"
  using container_D [of 4 rd n rd'] by (simp add: array_len_def majors)

lemma map_len_D [reads_dest]: "map_len rd = Ok (n, rd') \<Longrightarrow> n < 2 ^ 64 \<and> reads rd (head MAJOR_MAP (of_nat n)) rd'"
  using container_D [of 5 rd n rd'] by (simp add: map_len_def majors)

lemma array_len_I [reads_intro]:
  "addressable rd \<Longrightarrow> reads rd (head MAJOR_ARRAY (of_nat n)) rd' \<Longrightarrow> n < 2 ^ 64 \<Longrightarrow> array_len rd = Ok (n, rd')"
  using container_I [of rd 4 n rd'] by (simp add: array_len_def majors)

lemma map_len_I [reads_intro]:
  "addressable rd \<Longrightarrow> reads rd (head MAJOR_MAP (of_nat n)) rd' \<Longrightarrow> n < 2 ^ 64 \<Longrightarrow> map_len rd = Ok (n, rd')"
  using container_I [of rd 5 n rd'] by (simp add: map_len_def majors)

section \<open>Whole values\<close>

lemma canonical_order_Less: "canonical_order a b = Less \<longleftrightarrow> entry_key a < entry_key b"
  by (auto simp: canonical_order_def entry_key_def cmp_def split: ordering.splits if_splits)

lemma canonical_order_Equal: "canonical_order a b = Equal \<longleftrightarrow> a = b"
  by (auto simp: canonical_order_def cmp_def split: ordering.splits if_splits)

text \<open>The canonical order of a map's entries is the one their keys determine.\<close>

lemma sort_entries_unique:
  assumes "set es = set m" "distinct (map fst m)" "sorted_wrt (<) (map (\<lambda>e. entry_key (fst e)) es)"
  shows "sort_entries m = es"
proof (rule map_sorted_distinct_set_unique)
  show "inj_on (\<lambda>e. entry_key (fst e)) (set (sort_entries m) \<union> set es)"
    using assms(1,2) by (auto simp: inj_on_def distinct_map)
  have "inj_on (\<lambda>e. entry_key (fst e)) (set m)" using assms(2) by (auto simp: inj_on_def distinct_map)
  moreover have "distinct (sort_entries m)" using assms(2) by (simp add: sort_entries_def distinct_map)
  ultimately show "distinct (map (\<lambda>e. entry_key (fst e)) (sort_entries m))" by (simp add: distinct_map)
  show "sorted (map (\<lambda>e. entry_key (fst e)) (sort_entries m))" by (simp add: sort_entries_def)
qed (use assms in \<open>auto simp: strict_sorted_iff\<close>)

text \<open>Reading elements one by one, given what reading one element says.\<close>

lemma rd_items_D:
  assumes "\<And>rd v rd'. f rd = Ok (v, rd') \<Longrightarrow> \<exists>enc. g v = Ok enc \<and> reads rd enc rd' \<and> Q v"
    and "rd_items f n rd = Ok (vs, rd')" "r_pos rd \<le> length (r_bytes rd)"
  shows "\<exists>encs. res_map g vs = Ok encs \<and> reads rd (concat encs) rd' \<and> length vs = n \<and> (\<forall>v \<in> set vs. Q v)"
  using assms(2,3)
proof (induction n arbitrary: rd vs)
  case 0
  then show ?case by (simp add: reads_Nil)
next
  case (Suc n)
  then obtain v rd1 vs1 where v: "f rd = Ok (v, rd1)" "rd_items f n rd1 = Ok (vs1, rd')" "vs = v # vs1"
    by (auto simp: res_simps)
  from assms(1) [OF v(1)] obtain enc where enc: "g v = Ok enc" "reads rd enc rd1" "Q v" by blast
  from Suc.IH [OF v(2) reads_within [OF enc(2)]] obtain encs where
    "res_map g vs1 = Ok encs" "reads rd1 (concat encs) rd'" "length vs1 = n" "\<forall>v \<in> set vs1. Q v" by blast
  with enc v(3) show ?case by (auto simp: reads_append)
qed

lemma rd_items_I:
  assumes "\<And>rd v rd' enc. g v = Ok enc \<Longrightarrow> v \<in> set vs \<Longrightarrow> addressable rd \<Longrightarrow> reads rd enc rd' \<Longrightarrow> f rd = Ok (h v, rd')"
    and "res_map g vs = Ok encs" "addressable rd" "reads rd (concat encs) rd'"
  shows "rd_items f (length vs) rd = Ok (map h vs, rd')"
  using assms
proof (induction vs arbitrary: rd encs)
  case Nil
  then show ?case by (simp add: reads_Nil)
next
  case (Cons v vs)
  from Cons.prems(2) obtain enc encs1 where e: "g v = Ok enc" "res_map g vs = Ok encs1" "encs = enc # encs1"
    by (auto simp: res_simps)
  with Cons.prems(4) obtain rd1 where rd1: "reads rd enc rd1" "reads rd1 (concat encs1) rd'"
    by (auto simp: reads_append)
  have "f rd = Ok (h v, rd1)" using Cons.prems(1,3) e rd1 by simp
  moreover have "rd_items f (length vs) rd1 = Ok (map h vs, rd')"
    using Cons.prems(3) by (intro Cons.IH [OF Cons.prems(1) e(2) _ rd1(2)])
      (auto simp: reads_addressable [OF rd1(1)])
  ultimately show ?case by simp
qed

lemma rd_entries_D:
  assumes "\<And>rd v rd'. f rd = Ok (v, rd') \<Longrightarrow> \<exists>enc. g v = Ok enc \<and> reads rd enc rd' \<and> Q v"
    and "rd_entries f n prev m rd = Ok (m', rd')" "r_pos rd \<le> length (r_bytes rd)"
  shows "\<exists>es encs. res_map (\<lambda>e. map_ok (\<lambda>bs. text_item (fst e) @ bs) (g (snd e))) es = Ok encs
    \<and> reads rd (concat encs) rd' \<and> length es = n \<and> m' = bt.ins_all es m
    \<and> sorted_wrt (<) (map (\<lambda>e. entry_key (fst e)) es)
    \<and> (\<forall>p e. prev = Some p \<longrightarrow> e \<in> set es \<longrightarrow> entry_key p < entry_key (fst e))
    \<and> (\<forall>e \<in> set es. Q (snd e))"
  using assms(2,3)
proof (induction n arbitrary: rd prev m)
  case 0
  then show ?case by (intro exI [of _ "[]"]) (simp add: reads_Nil bt.ins_all_def)
next
  case (Suc n)
  from Suc.prems(1) obtain key rd1 v rd2 where v: "rd_text rd = Ok (key, rd1)"
    "\<forall>p. prev = Some p \<longrightarrow> canonical_order p key = Less"
    "f rd1 = Ok (v, rd2)" "rd_entries f n (Some key) (bt_insert key v m) rd2 = Ok (m', rd')"
    by (cases prev) (auto simp: res_simps)
  from assms(1) [OF v(3)] obtain enc where enc: "g v = Ok enc" "reads rd1 enc rd2" "Q v" by blast
  from Suc.IH [OF v(4) reads_within [OF enc(2)]] obtain es encs where
    es: "res_map (\<lambda>e. map_ok (\<lambda>bs. text_item (fst e) @ bs) (g (snd e))) es = Ok encs"
      "reads rd2 (concat encs) rd'" "length es = n" "m' = bt.ins_all es (bt_insert key v m)"
      "sorted_wrt (<) (map (\<lambda>e. entry_key (fst e)) es)"
      "\<And>e. e \<in> set es \<Longrightarrow> entry_key key < entry_key (fst e)" "\<forall>e \<in> set es. Q (snd e)"
    by blast
  have "reads rd (text_item key) rd1" using rd_text_D [OF v(1)] by simp
  with enc es v(2) show ?case
    by (intro exI [of _ "(key, v) # es"] exI [of _ "(text_item key @ enc) # encs"])
      (auto simp: reads_append bt.ins_all_def canonical_order_Less intro: less_trans)
qed

lemma rd_entries_I:
  assumes "\<And>rd v rd' enc. g v = Ok enc \<Longrightarrow> v \<in> snd ` set es \<Longrightarrow> addressable rd \<Longrightarrow> reads rd enc rd' \<Longrightarrow> f rd = Ok (h v, rd')"
    and "res_map (\<lambda>e. map_ok (\<lambda>bs. text_item (fst e) @ bs) (g (snd e))) es = Ok encs"
      "addressable rd" "reads rd (concat encs) rd'"
      "sorted_wrt (<) (map (\<lambda>e. entry_key (fst e)) es)"
      "\<And>p e. prev = Some p \<Longrightarrow> e \<in> set es \<Longrightarrow> entry_key p < entry_key (fst e)"
  shows "rd_entries f (length es) prev m rd = Ok (bt.ins_all (map (\<lambda>e. (fst e, h (snd e))) es) m, rd')"
  using assms
proof (induction es arbitrary: rd encs prev m)
  case Nil
  then show ?case by (simp add: reads_Nil bt.ins_all_def)
next
  case (Cons e es)
  obtain key v where e: "e = (key, v)" by (cases e)
  from Cons.prems(2) e obtain enc encs1 where c: "g v = Ok enc" "encs = (text_item key @ enc) # encs1"
    "res_map (\<lambda>e. map_ok (\<lambda>bs. text_item (fst e) @ bs) (g (snd e))) es = Ok encs1"
    by (auto simp: res_simps)
  with Cons.prems(4) obtain rd1 rd2 where r: "reads rd (text_item key) rd1" "reads rd1 enc rd2"
    "reads rd2 (concat encs1) rd'"
    by (auto simp: reads_append)
  have a: "addressable rd1" "addressable rd2"
    using Cons.prems(3) reads_addressable [OF r(1)] reads_addressable [OF r(2)] by simp_all
  have "f rd1 = Ok (h v, rd2)" using Cons.prems(1) e c(1) a r(2) by simp
  moreover have "rd_text rd = Ok (key, rd1)" using Cons.prems(3) r(1) by (rule rd_text_I)
  moreover have "canonical_order p key = Less" if "prev = Some p" for p
    using Cons.prems(6) [OF that, of e] e by (simp add: canonical_order_Less)
  moreover have "rd_entries f (length es) (Some key) (bt_insert key (h v) m) rd2 =
      Ok (bt.ins_all (map (\<lambda>e. (fst e, h (snd e))) es) (bt_insert key (h v) m), rd')"
    by (rule Cons.IH [OF Cons.prems(1) c(3) a(2) r(3)]) (use Cons.prems(5) e in auto)
  ultimately show ?case by (cases prev) (simp_all add: e bt.ins_all_def)
qed

section \<open>Items\<close>

unbundle bit_operations_syntax

text \<open>The two zeros are one value; the encoder writes the positive one for both.\<close>

fun norm_zero :: "'c ipld \<Rightarrow> 'c ipld" where
  "norm_zero (IFloat f) = IFloat (if f64_is_zero f then 0 else f)"
| "norm_zero (IList vs) = IList (map norm_zero vs)"
| "norm_zero (IMap m) = IMap (map (\<lambda>e. (fst e, norm_zero (snd e))) m)"
| "norm_zero v = v"

text \<open>Every link in the value is one that \<open>Cid::try_from\<close> reads back from its own bytes.\<close>

definition link_readable :: "'c cid_lib \<Rightarrow> 'c ipld \<Rightarrow> bool" where
  "link_readable L v \<longleftrightarrow> (case v of ILink c \<Rightarrow> cid_try_from_bytes L (cid_to_bytes L c) = Some c | _ \<Rightarrow> True)"

definition links_readable :: "'c cid_lib \<Rightarrow> 'c ipld \<Rightarrow> bool" where
  "links_readable L v \<longleftrightarrow> ipld_all (link_readable L) v"

lemma initial_byte:
  assumes "drop_bit 5 b = (of_nat m :: byte)" "b AND 0x1f = of_nat i" "m < 8" "i < 32"
  shows "b = of_nat (i + m * 32)"
proof -
  have "unat b div 32 = m" "unat b mod 32 = i"
    using assms unat_byte_bound [of b] by (simp_all add: high_bits low_bits word_unat_eq_iff unat_of_nat)
  then have "unat b = i + m * 32" by (metis mod_mult_div_eq mult.commute)
  then show ?thesis using of_nat_unat_byte [of b] by simp
qed

lemma simple_byte: "drop_bit 5 b = (7 :: byte) \<Longrightarrow> b AND 0x1f = of_nat i \<Longrightarrow> i < 32 \<Longrightarrow> b = of_nat (224 + i)"
  using initial_byte [of b 7 i] by simp

lemma f64_zero_canonical: "f64_is_zero w \<Longrightarrow> \<not> f64_negative w \<Longrightarrow> w = 0"
  by (auto simp: f64_is_zero_def f64_negative_def)

lemma links_readable_simps [simp]:
  "links_readable L INull" "links_readable L (IBool b)" "links_readable L (IInteger i)" "links_readable L (IFloat f)"
  "links_readable L (IString s)" "links_readable L (IBytes bs)"
  "links_readable L (IList vs) \<longleftrightarrow> (\<forall>v \<in> set vs. links_readable L v)"
  "links_readable L (IMap m) \<longleftrightarrow> (\<forall>e \<in> set m. links_readable L (snd e))"
  "links_readable L (ILink c) \<longleftrightarrow> cid_try_from_bytes L (cid_to_bytes L c) = Some c"
  by (simp_all add: links_readable_def link_readable_def)

lemma rd_simple_D:
  assumes "rd_simple (b AND 0x1f) rd1 = Ok (v, rd')" "reads rd [b] rd1" "drop_bit 5 b = 7" "d \<le> MAX_DEPTH"
  shows "\<exists>enc. cbor_item L d v = Ok enc \<and> reads rd enc rd' \<and> ipld_wf v \<and> norm_zero v = v \<and> links_readable L v"
proof -
  note byte = simple_byte [OF assms(3)]
  consider "v = IBool False" "rd' = rd1" "b = 0xf4" | "v = IBool True" "rd' = rd1" "b = 0xf5"
    | "v = INull" "rd' = rd1" "b = 0xf6"
    | f where "v = IFloat f" "rd_fixed 8 rd1 = Ok (f, rd')" "f64_is_finite f"
        "\<not> (f64_is_zero f \<and> f64_negative f)" "b = 0xfb"
    using assms(1) byte [of 20] byte [of 21] byte [of 22] byte [of 27]
    by (auto simp: rd_simple_def res_simps split: if_splits)
  then show ?thesis
  proof cases
    case (4 f)
    then have "reads rd1 (be_bytes 8 (unat f)) rd'" using rd_fixed_D [OF 4(2)] by simp
    then have "reads rd (b # be_bytes 8 (unat f)) rd'" using assms(2) reads_Cons by blast
    moreover have "(if f64_is_zero f then 0 else f) = f" using 4(4) f64_zero_canonical [of f] by auto
    ultimately show ?thesis using 4 assms(4)
      by (simp add: cbor_item.simps float_item_def simple_values)
  qed (use assms in \<open>simp_all add: cbor_item.simps simple_values\<close>)
qed

lemma uint_64_bound: "0 \<le> uint a \<and> uint (a :: 64 word) < 18446744073709551616"
  by (auto intro: order_less_le_trans [OF unsigned_less])

lemma uint_is_i128:
  "i128_min \<le> uint a" "uint a \<le> i128_max" "i128_min \<le> - 1 - uint a" "- 1 - uint a \<le> i128_max"
  for a :: "64 word"
proof -
  define i where "i = uint a"
  have "0 \<le> i" "i < 18446744073709551616" using uint_64_bound [of a] by (simp_all add: i_def)
  then show "i128_min \<le> uint a" "uint a \<le> i128_max" "i128_min \<le> - 1 - uint a" "- 1 - uint a \<le> i128_max"
    unfolding i_def [symmetric] i128_min_def i128_max_def by simp_all
qed

lemma uint_not_negative: "\<not> uint a \<le> - 1" for a :: "64 word"
  using uint_64_bound [of a] by linarith

lemma u64_try_from_uint [simp]: "u64_try_from (uint a) = Some a"
  using uint_64_bound [of a] by (simp add: u64_try_from_def)

lemma u64_try_from_unat [simp]: "u64_try_from (int (unat a)) = Some a"
  by simp

lemma rd_link_D:
  assumes "rd_link L arg rd1 = Ok (v, rd')" "reads rd (head MAJOR_TAG arg) rd1"
  shows "\<exists>c. v = ILink c \<and> reads rd (link_item L c) rd' \<and> links_readable L v"
proof -
  from assms(1) obtain c cid where c: "arg = CID_TAG" "rd_bytes rd1 = Ok (CID_MULTIBASE_IDENTITY # cid, rd')"
    "cid_try_from_bytes L cid = Some c" "cid_to_bytes L c = cid" "v = ILink c"
    by (auto simp: rd_link_def res_simps cid_from_bytes_Ok split: if_splits)
  have "reads rd1 (bytes_item (CID_MULTIBASE_IDENTITY # cid)) rd'" using rd_bytes_D [OF c(2)] by simp
  with assms(2) c show ?thesis
    by (auto simp: link_item_def bytes_item_def reads_append Let_def add.commute)
qed

text \<open>Whatever the reader accepts is the encoding of the value it returns.\<close>

lemma rd_item_D:
  assumes "rd_item L d rd = Ok (v, rd')"
  shows "\<exists>enc. cbor_item L d v = Ok enc \<and> reads rd enc rd' \<and> ipld_wf v \<and> norm_zero v = v \<and> links_readable L v"
  using assms
proof (induction d arbitrary: rd v rd' rule: measure_induct_rule [of "\<lambda>d. MAX_DEPTH + 1 - d"])
  case (less d)
  from less.prems obtain b where d: "d \<le> MAX_DEPTH" and b: "nth_opt (r_bytes rd) (r_pos rd) = Some b"
    by (subst (asm) rd_item.simps) (auto simp: res_simps split: if_split_asm)
  have sub: "\<exists>enc. cbor_item L (d + 1) v = Ok enc \<and> reads rd enc rd' \<and> (ipld_wf v \<and> norm_zero v = v \<and> links_readable L v)"
    if "rd_item L (d + 1) rd = Ok (v, rd')" for rd v rd'
    using less.IH [OF _ that] d by auto
  show ?case
  proof (cases "drop_bit 5 b = 7")
    case True
    have "reads rd [b] (rd\<lparr>r_pos := r_pos rd + 1\<rparr>)"
      using b by (simp add: rd_byte_iff [symmetric] rd_byte_def res_simps)
    moreover have "rd_simple (b AND 0x1f) (rd\<lparr>r_pos := r_pos rd + 1\<rparr>) = Ok (v, rd')"
      using less.prems d b True by (subst (asm) rd_item.simps) simp
    ultimately show ?thesis using rd_simple_D True d by blast
  next
    case False
    with less.prems d b obtain major arg rd1 where h: "rd_head rd = Ok ((major, arg), rd1)"
      by (subst (asm) rd_item.simps) (auto simp: res_simps)
    from h obtain m where m: "major = of_nat m" "m < 7" and r: "reads rd (head major arg) rd1"
      by (rule rd_head_D)
    note within = reads_within [OF r]
    have body: "(if major = 0 then Ok (IInteger (int (unat arg)), rd1)
        else if major = 1 then Ok (IInteger (- 1 - int (unat arg)), rd1)
        else if major = 2 then map_ok (\<lambda>(s, rd). (IBytes s, rd)) (rd_take arg rd1)
        else if major = 3 then map_ok (\<lambda>(t, rd). (IString t, rd)) (take_text arg rd1)
        else if major = 4 then map_ok (\<lambda>(vs, rd). (IList vs, rd)) (rd_items (rd_item L (d + 1)) (unat arg) rd1)
        else if major = 5 then map_ok (\<lambda>(m, rd). (IMap m, rd)) (rd_entries (rd_item L (d + 1)) (unat arg) None [] rd1)
        else if major = 6 then rd_link L arg rd1 else Err Reserved) = Ok (v, rd')"
      using less.prems d b False h by (subst (asm) rd_item.simps) (simp add: usize_try_from_eq cong: if_cong)
    consider "major = 0" | "major = 1" | "major = 2" | "major = 3" | "major = 4" | "major = 5" | "major = 6"
      using body by (auto split: if_split_asm)
    then show ?thesis
    proof cases
      case 1
      with body r d show ?thesis using uint_64_bound [of arg]
        by (auto simp: cbor_item.simps [of L d] integer_def majors uint_is_i128 [simplified] uint_not_negative)
    next
      case 2
      with body r d show ?thesis using uint_64_bound [of arg]
        by (auto simp: cbor_item.simps [of L d] integer_def majors uint_is_i128 [simplified] uint_not_negative)
    next
      case 3
      with body obtain s where s: "rd_take arg rd1 = Ok (s, rd')" "v = IBytes s"
        by (auto simp: res_simps)
      with rd_take_D [OF s(1)] r d 3 show ?thesis
        by (auto simp: cbor_item.simps [of L d] bytes_item_def majors len_word reads_append)
    next
      case 4
      with body obtain t where t: "take_text arg rd1 = Ok (t, rd')" "v = IString t"
        by (auto simp: res_simps)
      with take_text_D [OF t(1)] r d 4 show ?thesis
        by (auto simp: cbor_item.simps [of L d] text_item_def majors len_word reads_append)
    next
      case 5
      with body obtain vs where vs: "rd_items (rd_item L (d + 1)) (unat arg) rd1 = Ok (vs, rd')" "v = IList vs"
        by (auto simp: res_simps)
      from rd_items_D [where g = "cbor_item L (d + 1)" and Q = "\<lambda>v. ipld_wf v \<and> norm_zero v = v \<and> links_readable L v",
          OF sub vs(1) within] obtain encs where "res_map (cbor_item L (d + 1)) vs = Ok encs"
        "reads rd1 (concat encs) rd'" "length vs = unat arg" "\<forall>v \<in> set vs. ipld_wf v \<and> norm_zero v = v \<and> links_readable L v"
        by blast
      with r d 5 vs(2) show ?thesis
        by (auto simp: cbor_item.simps [of L d] majors len_word reads_append intro: map_idI)
    next
      case 6
      with body obtain m' where m': "rd_entries (rd_item L (d + 1)) (unat arg) None [] rd1 = Ok (m', rd')" "v = IMap m'"
        by (auto simp: res_simps)
      from rd_entries_D [where g = "cbor_item L (d + 1)" and Q = "\<lambda>v. ipld_wf v \<and> norm_zero v = v \<and> links_readable L v",
          OF sub m'(1) within] obtain es encs where
        es: "res_map (\<lambda>e. map_ok (\<lambda>bs. text_item (fst e) @ bs) (cbor_item L (d + 1) (snd e))) es = Ok encs"
          "reads rd1 (concat encs) rd'" "length es = unat arg" "m' = bt.ins_all es []"
          "sorted_wrt (<) (map (\<lambda>e. entry_key (fst e)) es)" "\<forall>e \<in> set es. ipld_wf (snd e) \<and> norm_zero (snd e) = snd e \<and> links_readable L (snd e)"
        by blast
      have "distinct (map (\<lambda>e. entry_key (fst e)) es)" using es(5) by (simp add: strict_sorted_iff)
      then have dist: "distinct (map fst es)" by (auto simp: distinct_map inj_on_def)
      have set: "set m' = set es" using set_ins_all [OF dist] es(4) by simp
      have wf: "bt_wf m'" using es(4) by (simp add: bt.wf_ins_all)
      have "sort_entries m' = es"
        using set bt_wf_distinct [OF wf] es(5) by (intro sort_entries_unique) auto
      moreover have "length m' = unat arg"
        using es(3) length_sort_entries [of m'] \<open>sort_entries m' = es\<close> by simp
      moreover have "map (\<lambda>e. (fst e, norm_zero (snd e))) m' = m'"
        using es(6) set by (intro map_idI) auto
      ultimately show ?thesis using r d 6 m'(2) es wf set
        by (auto simp: cbor_item.simps [of L d] majors len_word reads_append)
    next
      case 7
      with body have "rd_link L arg rd1 = Ok (v, rd')" by simp
      moreover have "reads rd (head MAJOR_TAG arg) rd1" using r 7 by (simp add: majors)
      ultimately obtain c where "v = ILink c" "reads rd (link_item L c) rd'" "links_readable L v" using rd_link_D by blast
      with d show ?thesis by (simp add: cbor_item.simps [of L d])
    qed
  qed
qed

lemma decode_encode: "decode L bs = Ok v \<Longrightarrow> encode L v = Ok bs \<and> ipld_wf v \<and> norm_zero v = v \<and> links_readable L v"
proof -
  assume "decode L bs = Ok v"
  then obtain rd where rd: "rd_item L 0 (reader_new bs) = Ok (v, rd)" "reader_finish rd = Ok ()"
    by (auto simp: decode_def rd_value_def res_simps)
  from rd_item_D [OF rd(1)] obtain enc where enc: "cbor_item L 0 v = Ok enc" "reads (reader_new bs) enc rd"
    "ipld_wf v" "norm_zero v = v" "links_readable L v" by blast
  have "r_pos rd = length bs"
    using rd(2) reads_bytes [OF enc(2)] by (simp add: reader_finish_def reader_new_def split: if_splits)
  with enc show ?thesis by (auto simp: encode_eq dest: reads_whole)
qed

text \<open>The encoder succeeds exactly on values that are shallow, with integers and floats in range.\<close>

definition scalar_encodable :: "'c ipld \<Rightarrow> bool" where
  "scalar_encodable v \<longleftrightarrow> (case v of
      IInteger i \<Rightarrow> - (2 ^ 64) \<le> i \<and> i < 2 ^ 64
    | IFloat f \<Rightarrow> f64_is_finite f
    | _ \<Rightarrow> True)"

lemma scalar_encodable_simps [simp]:
  "scalar_encodable INull" "scalar_encodable (IBool b)" "scalar_encodable (IString s)"
  "scalar_encodable (IBytes bs)" "scalar_encodable (IList vs)" "scalar_encodable (IMap m)"
  "scalar_encodable (ILink c)" "scalar_encodable (IFloat f) \<longleftrightarrow> f64_is_finite f"
  "scalar_encodable (IInteger i) \<longleftrightarrow> - (2 ^ 64) \<le> i \<and> i < 2 ^ 64"
  by (simp_all add: scalar_encodable_def)

lemma integer_is_ok: "is_ok (integer i) \<longleftrightarrow> - (2 ^ 64) \<le> i \<and> i < 2 ^ 64"
  by (auto simp: integer_def is_ok_iff map_ok_Ok u64_try_from_def)

lemma res_map_is_ok: "is_ok (res_map f xs) \<longleftrightarrow> (\<forall>x \<in> set xs. is_ok (f x))"
proof (induction xs)
  case (Cons x xs)
  then show ?case by (cases "f x"; cases "res_map f xs") auto
qed simp

lemma map_ok_is_ok [simp]: "is_ok (map_ok f m) \<longleftrightarrow> is_ok m"
  by (cases m) auto

lemma cbor_item_is_ok:
  "is_ok (cbor_item L d v) \<longleftrightarrow> d + ipld_depth v \<le> MAX_DEPTH \<and> ipld_all scalar_encodable v"
proof (induction v arbitrary: d)
  case (IList vs)
  then show ?case
    by (auto simp: cbor_item.simps [of L d] res_map_is_ok add_depth_IList)
next
  case (IMap m)
  have "is_ok (cbor_item L (Suc d) (snd e)) \<longleftrightarrow> Suc d + ipld_depth (snd e) \<le> MAX_DEPTH
      \<and> ipld_all scalar_encodable (snd e)" if "e \<in> set m" for e
    using IMap that by (cases e) (auto simp: snds.simps)
  then show ?case
    by (auto simp: cbor_item.simps [of L d] res_map_is_ok add_depth_IMap)
qed (auto simp: cbor_item.simps integer_is_ok float_item_def)

text \<open>Reading back what the encoder wrote.\<close>

definition item_body :: "'c cid_lib \<Rightarrow> nat \<Rightarrow> nat \<Rightarrow> 64 word \<Rightarrow> reader \<Rightarrow> 'c ipld reading" where
  "item_body L d m arg rd =
     (if m = 0 then Ok (IInteger (int (unat arg)), rd)
      else if m = 1 then Ok (IInteger (- 1 - int (unat arg)), rd)
      else if m = 2 then map_ok (\<lambda>(s, rd). (IBytes s, rd)) (rd_take arg rd)
      else if m = 3 then map_ok (\<lambda>(t, rd). (IString t, rd)) (take_text arg rd)
      else if m = 4 then map_ok (\<lambda>(vs, rd). (IList vs, rd)) (rd_items (rd_item L (d + 1)) (unat arg) rd)
      else if m = 5 then map_ok (\<lambda>(m, rd). (IMap m, rd)) (rd_entries (rd_item L (d + 1)) (unat arg) None [] rd)
      else rd_link L arg rd)"

lemma small_majors:
  "m < 7 \<Longrightarrow> (of_nat m :: byte) = of_nat k \<longleftrightarrow> m = k" if "k < 7"
  using that by (simp add: word_unat_eq_iff unat_of_nat)

lemma rd_item_head:
  assumes "addressable rd" "reads rd (head (of_nat m) arg) rd1" "m < 7" "d \<le> MAX_DEPTH"
  shows "rd_item L d rd = item_body L d m arg rd1"
proof -
  have "nth_opt (r_bytes rd) (r_pos rd) = Some (of_nat (head_info arg + m * 32))"
    using assms(2,3) head_split [of m arg] by (intro reads_peek) auto
  moreover have "drop_bit 5 (of_nat (head_info arg + m * 32)) \<noteq> (7 :: byte)"
    using head_byte_fields [OF _ head_info_less refl, of m arg] assms(3) of_nat_byte_7 [of m] by auto
  ultimately have "rd_item L d rd = res_bind (rd_head rd) (\<lambda>((major, arg), rd).
      if major = 0 then Ok (IInteger (int (unat arg)), rd)
      else if major = 1 then Ok (IInteger (- 1 - int (unat arg)), rd)
      else if major = 2 then map_ok (\<lambda>(s, rd). (IBytes s, rd)) (rd_take arg rd)
      else if major = 3 then map_ok (\<lambda>(t, rd). (IString t, rd)) (take_text arg rd)
      else if major = 4 then
        res_bind (usize_try_from arg) (\<lambda>len.
        map_ok (\<lambda>(vs, rd). (IList vs, rd)) (rd_items (\<lambda>rd. rd_item L (d + 1) rd) len rd))
      else if major = 5 then
        res_bind (usize_try_from arg) (\<lambda>len.
        map_ok (\<lambda>(m, rd). (IMap m, rd)) (rd_entries (\<lambda>rd. rd_item L (d + 1) rd) len None [] rd))
      else if major = 6 then rd_link L arg rd
      else Err Reserved)"
    using assms(4) by (subst rd_item.simps) (simp del: nth_opt_Some)
  also have "\<dots> = item_body L d m arg rd1"
    using rd_head_I [OF assms(1-3)] assms(3)
      small_majors [of 0 m] small_majors [of 1 m] small_majors [of 2 m] small_majors [of 3 m]
      small_majors [of 4 m] small_majors [of 5 m] small_majors [of 6 m]
    by (simp add: item_body_def usize_try_from_eq cong: if_cong)
  finally show ?thesis .
qed

lemma rd_item_simple:
  assumes "reads rd [b] rd1" "drop_bit 5 b = 7" "d \<le> MAX_DEPTH"
  shows "rd_item L d rd = rd_simple (b AND 0x1f) rd1"
proof -
  have "nth_opt (r_bytes rd) (r_pos rd) = Some b" using assms(1) by (rule reads_peek)
  moreover have "rd1 = rd\<lparr>r_pos := r_pos rd + 1\<rparr>" using assms(1) by (auto simp: reads_def)
  ultimately show ?thesis using assms(2,3) by (subst rd_item.simps) (simp del: nth_opt_Some)
qed

lemma rd_link_I:
  assumes "addressable rd1" "reads rd1 (bytes_item (CID_MULTIBASE_IDENTITY # cid_to_bytes L c)) rd'"
    "cid_try_from_bytes L (cid_to_bytes L c) = Some c"
  shows "rd_link L CID_TAG rd1 = Ok (ILink c, rd')"
  using rd_bytes_I [OF assms(1,2)] assms(3) by (simp add: rd_link_def cid_from_bytes_def)

lemma integer_D:
  assumes "integer i = Ok enc"
  obtains m arg where "m < 2" "enc = head (of_nat m) arg"
    "i = (if m = 0 then int (unat arg) else - 1 - int (unat arg))"
proof (cases "0 \<le> i")
  case True
  with assms have "i < 2 ^ 64" "enc = head (of_nat 0) (of_int i)"
    by (auto simp: integer_def map_ok_Ok u64_try_from_def majors split: if_splits)
  moreover have "int (unat (of_int i :: 64 word)) = i"
    using True \<open>i < 2 ^ 64\<close> by (simp add: uint_word_of_int_eq take_bit_int_eq_self)
  ultimately show thesis using that [of 0 "of_int i"] by simp
next
  case False
  define j where "j = - 1 - i"
  from assms False have j: "0 \<le> j" "j < 2 ^ 64" "enc = head (of_nat 1) (of_int j)"
    by (auto simp: integer_def map_ok_Ok u64_try_from_def majors j_def split: if_splits)
  have "int (unat (of_int j :: 64 word)) = j"
    using j by (simp add: uint_word_of_int_eq take_bit_int_eq_self)
  moreover have "i = - 1 - j" by (simp add: j_def)
  ultimately show thesis using j(3) by (intro that [of 1 "of_int j"]) simp_all
qed

lemma head_nonempty [simp]: "head m arg \<noteq> []"
  by (auto simp only: head_def Let_def list.simps split: if_split_asm)

lemmas head_nonempty' [simp] = head_nonempty [symmetric]

lemma cbor_item_nonempty: "cbor_item L d v \<noteq> Ok []"
  by (cases v) (simp_all add: cbor_item.simps [of L d] integer_def float_item_def text_item_def bytes_item_def
      link_item_def Let_def map_ok_Ok)

lemma res_map_length_concat:
  "res_map f xs = Ok encs \<Longrightarrow> (\<And>x e. f x = Ok e \<Longrightarrow> 1 \<le> length e) \<Longrightarrow> length xs \<le> length (concat encs)"
proof (induction xs arbitrary: encs)
  case (Cons x xs)
  from Cons.prems(1) obtain e es where "f x = Ok e" "res_map f xs = Ok es" "encs = e # es" by (auto simp: res_simps)
  with Cons.IH [of es] Cons.prems(2) [of x e] Cons.prems(2) show ?case by fastforce
qed simp

lemma distinct_map_fst_sort_entries: "distinct (map fst (sort_entries m)) \<longleftrightarrow> distinct (map fst m)"
  by (metis mset_sort_entries mset_map mset_eq_imp_distinct_iff)

lemma sort_entries_strict:
  "distinct (map fst m) \<Longrightarrow> sorted_wrt (<) (map (\<lambda>e. entry_key (fst e)) (sort_entries m))"
proof -
  assume "distinct (map fst m)"
  then have "distinct (map entry_key (map fst (sort_entries m)))"
    unfolding distinct_map [of entry_key] by (simp add: distinct_map_fst_sort_entries inj_on_def)
  then show ?thesis by (simp add: strict_sorted_iff sort_entries_def comp_def)
qed

lemma float_bits_byte: "drop_bit 5 FLOAT64 = 7" "FLOAT64 AND 0x1f = 27"
  "drop_bit 5 CBOR_NULL = 7" "CBOR_NULL AND 0x1f = 22"
  "drop_bit 5 CBOR_TRUE = 7" "CBOR_TRUE AND 0x1f = 21"
  "drop_bit 5 CBOR_FALSE = 7" "CBOR_FALSE AND 0x1f = 20"
  by (simp_all add: simple_values)

lemma rd_item_I:
  assumes "cbor_item L d v = Ok enc" "addressable rd" "reads rd enc rd'" "ipld_wf v" "links_readable L v"
  shows "rd_item L d rd = Ok (norm_zero v, rd')"
  using assms
proof (induction v arbitrary: d enc rd rd')
  case INull
  then have "reads rd [CBOR_NULL] rd'" "d \<le> MAX_DEPTH" by (auto simp: cbor_item.simps split: if_splits)
  then show ?case by (simp add: rd_item_simple float_bits_byte rd_simple_def)
next
  case (IBool b)
  then have "reads rd [if b then CBOR_TRUE else CBOR_FALSE] rd'" "d \<le> MAX_DEPTH"
    by (auto simp: cbor_item.simps split: if_splits)
  then show ?case by (cases b) (simp_all add: rd_item_simple float_bits_byte rd_simple_def)
next
  case (IInteger i)
  then have d: "d \<le> MAX_DEPTH" and "integer i = Ok enc" by (auto simp: cbor_item.simps split: if_splits)
  from this(2) obtain m arg where m: "m < 2" "enc = head (of_nat m) arg"
    "i = (if m = 0 then int (unat arg) else - 1 - int (unat arg))" by (rule integer_D)
  have "rd_item L d rd = item_body L d m arg rd'"
    using IInteger.prems m(1,2) d by (intro rd_item_head) auto
  with m show ?case by (auto simp: item_body_def)
next
  case (IFloat f)
  define g where "g = (if f64_is_zero f then 0 else f)"
  from IFloat have d: "d \<le> MAX_DEPTH" and f: "f64_is_finite f" "reads rd (FLOAT64 # be_bytes 8 (unat g)) rd'"
    by (auto simp: cbor_item.simps float_item_def g_def split: if_splits)
  from f(2) obtain rd1 where rd1: "reads rd [FLOAT64] rd1" "reads rd1 (be_bytes 8 (unat g)) rd'"
    by (subst (asm) reads_Cons) auto
  have "rd_fixed 8 rd1 = Ok (g, rd')"
    using IFloat.prems(2) unat_64_bound [of g] rd1
    by (intro rd_fixed_I) (simp_all add: reads_addressable [OF rd1(1)])
  moreover have "f64_is_finite g" using f(1) by (auto simp: g_def f64_is_finite_def f64_exponent_def)
  moreover have "\<not> (f64_is_zero g \<and> f64_negative g)" by (auto simp: g_def f64_negative_def)
  ultimately show ?case using rd_item_simple [OF rd1(1) float_bits_byte(1) d, of L]
    by (simp add: float_bits_byte rd_simple_def g_def)
next
  case (IString s)
  then have d: "d \<le> MAX_DEPTH" and r: "reads rd (text_item s) rd'" by (auto simp: cbor_item.simps split: if_splits)
  have l: "str_len s < 2 ^ 64" using reads_length [OF IString.prems(2) r] by (simp add: text_item_def str_len_def)
  from r obtain rd1 where rd1: "reads rd (head (of_nat 3) (of_nat (str_len s))) rd1" "reads rd1 (utf8 s) rd'"
    by (auto simp: text_item_def majors reads_append)
  have "take_text (of_nat (str_len s)) rd1 = Ok (s, rd')"
    using IString.prems(2) l rd1
    by (intro take_text_I) (simp_all add: reads_addressable [OF rd1(1)] unat_of_nat_64)
  with rd_item_head [OF IString.prems(2) rd1(1) _ d] show ?case by (simp add: item_body_def)
next
  case (IBytes s)
  then have d: "d \<le> MAX_DEPTH" and r: "reads rd (bytes_item s) rd'" by (auto simp: cbor_item.simps split: if_splits)
  have l: "length s < 2 ^ 64" using reads_length [OF IBytes.prems(2) r] by (simp add: bytes_item_def)
  from r obtain rd1 where rd1: "reads rd (head (of_nat 2) (of_nat (length s))) rd1" "reads rd1 s rd'"
    by (auto simp: bytes_item_def majors reads_append)
  have "rd_take (of_nat (length s)) rd1 = Ok (s, rd')"
    using IBytes.prems(2) l rd1
    by (intro rd_take_I) (simp_all add: reads_addressable [OF rd1(1)] unat_of_nat_64)
  with rd_item_head [OF IBytes.prems(2) rd1(1) _ d] show ?case by (simp add: item_body_def)
next
  case (IList vs)
  from IList.prems obtain encs where d: "d \<le> MAX_DEPTH" and encs: "res_map (cbor_item L (d + 1)) vs = Ok encs"
    "enc = head MAJOR_ARRAY (of_nat (length vs)) @ concat encs"
    by (auto simp: cbor_item.simps [of L d] map_ok_Ok split: if_splits)
  from IList.prems(3) encs(2) obtain rd1 where rd1: "reads rd (head (of_nat 4) (of_nat (length vs))) rd1"
    "reads rd1 (concat encs) rd'" by (auto simp: majors reads_append)
  have a: "addressable rd1" using IList.prems(2) reads_addressable [OF rd1(1)] by simp
  have l: "length vs < 2 ^ 64"
  proof -
    have ne: "cbor_item L (d + 1) v = Ok e \<Longrightarrow> 1 \<le> length e" for v e
      using cbor_item_nonempty [of L "d + 1" v] by (cases e) auto
    have "length vs \<le> length (concat encs)" using encs(1) ne by (rule res_map_length_concat)
    with reads_length [OF a rd1(2)] show ?thesis by simp
  qed
  have "rd_items (rd_item L (d + 1)) (length vs) rd1 = Ok (map norm_zero vs, rd')"
    using IList by (intro rd_items_I [OF _ encs(1) a rd1(2)]) (auto simp: links_readable_def)
  with rd_item_head [OF IList.prems(2) rd1(1) _ d, of L] l show ?case
    by (simp add: item_body_def unat_of_nat_64)
next
  case (IMap m)
  from IMap.prems obtain encs where d: "d \<le> MAX_DEPTH"
    and encs: "res_map (\<lambda>e. map_ok (\<lambda>bs. text_item (fst e) @ bs) (cbor_item L (d + 1) (snd e))) (sort_entries m) = Ok encs"
      "enc = head MAJOR_MAP (of_nat (length m)) @ concat encs"
    by (auto simp: cbor_item.simps [of L d] map_ok_Ok split: if_splits)
  from IMap.prems(3) encs(2) obtain rd1 where rd1: "reads rd (head (of_nat 5) (of_nat (length m))) rd1"
    "reads rd1 (concat encs) rd'" by (auto simp: majors reads_append)
  have a: "addressable rd1" using IMap.prems(2) reads_addressable [OF rd1(1)] by simp
  have l: "length m < 2 ^ 64"
  proof -
    have "length (sort_entries m) \<le> length (concat encs)"
      using encs(1) by (rule res_map_length_concat) (auto simp: map_ok_Ok text_item_def Suc_le_eq)
    with reads_length [OF a rd1(2)] show ?thesis by simp
  qed
  have wf: "bt_wf m" using IMap.prems(4) by simp
  have IH: "rd_item L (d + 1) rd = Ok (norm_zero v, rd')"
    if "cbor_item L (d + 1) v = Ok enc" "v \<in> snd ` set (sort_entries m)" "addressable rd" "reads rd enc rd'" for v enc rd rd'
  proof -
    from that(2) obtain e where e: "e \<in> set m" "v = snd e" by auto
    then have "ipld_wf v" "links_readable L v" using IMap.prems(4,5) by (auto simp: links_readable_def)
    with IMap.IH [of e v] e that show ?thesis by (cases e) (auto simp: snds.simps)
  qed
  have "rd_entries (rd_item L (d + 1)) (length (sort_entries m)) None [] rd1 =
      Ok (bt.ins_all (map (\<lambda>e. (fst e, norm_zero (snd e))) (sort_entries m)) [], rd')"
    by (rule rd_entries_I [OF IH encs(1) a rd1(2) sort_entries_strict [OF bt_wf_distinct [OF wf]]]) auto
  also have "bt.ins_all (map (\<lambda>e. (fst e, norm_zero (snd e))) (sort_entries m)) [] =
      map (\<lambda>e. (fst e, norm_zero (snd e))) m"
  proof (rule bt_set_ext)
    have "distinct (map fst (sort_entries m))"
      using bt_wf_distinct [OF wf] by (metis distinct_map_fst_sort_entries)
    then show "set (bt.ins_all (map (\<lambda>e. (fst e, norm_zero (snd e))) (sort_entries m)) []) =
        set (map (\<lambda>e. (fst e, norm_zero (snd e))) m)"
      by (subst set_ins_all) (auto simp: comp_def)
    show "bt_wf (map (\<lambda>e. (fst e, norm_zero (snd e))) m)" using wf by (simp add: bt_wf_def comp_def)
  qed (simp add: bt.wf_ins_all)
  finally show ?case using rd_item_head [OF IMap.prems(2) rd1(1) _ d, of L] l
    by (simp add: item_body_def unat_of_nat_64)
next
  case (ILink c)
  then have d: "d \<le> MAX_DEPTH" and r: "reads rd (link_item L c) rd'" by (auto simp: cbor_item.simps split: if_splits)
  from r obtain rd1 where rd1: "reads rd (head (of_nat 6) CID_TAG) rd1"
    "reads rd1 (bytes_item (CID_MULTIBASE_IDENTITY # cid_to_bytes L c)) rd'"
    by (auto simp: link_item_def bytes_item_def majors reads_append Let_def add.commute)
  have "rd_link L CID_TAG rd1 = Ok (ILink c, rd')"
    using ILink.prems rd1 by (intro rd_link_I) (auto simp: reads_addressable [OF rd1(1)] links_readable_def link_readable_def)
  with rd_item_head [OF ILink.prems(2) rd1(1) _ d, of L] show ?case by (simp add: item_body_def)
qed

section \<open>The codec\<close>

lemma decode_of_encode:
  assumes "encode L v = Ok bs" "length bs \<le> usize_max" "ipld_wf v" "links_readable L v"
  shows "decode L bs = Ok (norm_zero v)"
proof -
  let ?rd = "\<lparr>r_bytes = bs, r_pos = length bs\<rparr>"
  have "reads (reader_new bs) bs ?rd" using reads_new [of bs "[]"] by simp
  then have "rd_item L 0 (reader_new bs) = Ok (norm_zero v, ?rd)"
    using assms by (intro rd_item_I) (simp_all add: encode_eq addressable_def reader_new_def)
  then show ?thesis by (simp add: decode_def rd_value_def reader_finish_def)
qed

text \<open>The values the encoder is meant for, as \<open>Vec\<close> and the \<open>cid\<close> crate provide them.\<close>

definition cbor_fit :: "'c cid_lib \<Rightarrow> 'c ipld \<Rightarrow> bool" where
  "cbor_fit L v \<longleftrightarrow> ipld_wf v \<and> links_readable L v \<and> norm_zero v = v
     \<and> (\<forall>bs. encode L v = Ok bs \<longrightarrow> length bs \<le> usize_max)"

interpretation cbor: round_trip_codec "\<lambda>v. res_ok (encode L v)" "\<lambda>bs. res_ok (decode L bs)" "cbor_fit L"
  for L
proof unfold_locales
  fix b a
  assume "res_ok (decode L b) = Some a"
  then show "res_ok (encode L a) = Some b" using decode_encode [of L b a] by simp
next
  fix a b
  assume "cbor_fit L a" "res_ok (encode L a) = Some b"
  then have "encode L a = Ok b" "length b \<le> usize_max" "ipld_wf a" "links_readable L a" "norm_zero a = a"
    by (auto simp: cbor_fit_def)
  then show "res_ok (decode L b) = Some a" using decode_of_encode [of L a b] by simp
qed

section \<open>Properties\<close>

lemma be_bytes_numeral:
  "be_bytes (numeral k) n = be_bytes (pred_numeral k) (n div 256) @ [of_nat (n mod 256)]"
  by (simp add: numeral_eq_Suc [of k])

lemmas encode_eval = encode_eq cbor_item.simps MAX_DEPTH_def sort_entries_def entry_key_def str_len_def
  utf8_char_ascii head_def majors simple_values integer_def u64_try_from_def text_item_def
  bytes_item_def be_bytes_numeral float_item_def f64_is_finite_def f64_exponent_def f64_is_zero_def

lemmas sample_fit = usize_max_def bt_wf_def ascii_less_iff links_readable_def link_readable_def
  i128_min_def i128_max_def

text \<open>C1. The decoder accepts canonical form only: whatever it accepts is byte for byte what the
  encoder writes for the value it returns, that value is a well-formed one without negative zeros,
  and it is nested at most \<open>MAX_DEPTH\<close> deep.\<close>

theorem cbor_decode_canonical:
  "decode L bs = Ok v \<Longrightarrow> encode L v = Ok bs \<and> ipld_wf v \<and> norm_zero v = v \<and> ipld_depth v \<le> MAX_DEPTH"
proof -
  assume "decode L bs = Ok v"
  from decode_encode [OF this] have v: "encode L v = Ok bs" "ipld_wf v" "norm_zero v = v" by auto
  then have "is_ok (cbor_item L 0 v)" by (simp add: encode_eq)
  with v show ?thesis by (simp add: cbor_item_is_ok)
qed

theorem cbor_decode_canonical_witness:
  "encode sample_lib (IMap [(lit ''a'', IList [IInteger 24, INull])]) =
      Ok [0xa1, 0x61, 0x61, 0x82, 0x18, 0x18, 0xf6]
    \<and> ipld_depth (IMap [(lit ''a'', IList [IInteger 24, INull :: byte list ipld])]) \<le> MAX_DEPTH"
proof -
  let ?v = "IMap [(lit ''a'', IList [IInteger 24, INull])]"
  have e: "encode sample_lib ?v = Ok [0xa1, 0x61, 0x61, 0x82, 0x18, 0x18, 0xf6]"
    by (simp add: encode_eval)
  have "decode sample_lib [0xa1, 0x61, 0x61, 0x82, 0x18, 0x18, 0xf6] = Ok ?v"
    using decode_of_encode [OF e] by (simp add: sample_fit)
  from cbor_decode_canonical [OF this] show ?thesis by simp
qed

text \<open>C2. The decoder reads back whatever the encoder writes, up to the sign of a zero, which the
  encoder does not keep: the value it returns has the same encoding.\<close>

theorem cbor_round_trip:
  assumes "encode L v = Ok bs" "length bs \<le> usize_max" "ipld_wf v" "links_readable L v"
  shows "decode L bs = Ok (norm_zero v) \<and> encode L (norm_zero v) = Ok bs"
  using decode_of_encode [OF assms] decode_encode by blast

theorem cbor_round_trip_witness:
  "decode sample_lib [0xa2, 0x61, 0x61, 0xf5, 0x62, 0x62, 0x62, 0xfb, 0, 0, 0, 0, 0, 0, 0, 0] =
    Ok (IMap [(lit ''a'', IBool True), (lit ''bb'', IFloat 0)])"
  using cbor_round_trip [of sample_lib "IMap [(lit ''a'', IBool True), (lit ''bb'', IFloat 0x8000000000000000)]"
      "[0xa2, 0x61, 0x61, 0xf5, 0x62, 0x62, 0x62, 0xfb, 0, 0, 0, 0, 0, 0, 0, 0]"]
  by (simp add: encode_eval sample_fit f64_is_zero_def)

text \<open>C3. The encoder succeeds exactly on values nested at most \<open>MAX_DEPTH\<close> deep whose integers fit
  64 bits and a sign and whose floats are finite.\<close>

theorem cbor_encode_total:
  "is_ok (encode L v) \<longleftrightarrow> ipld_depth v \<le> MAX_DEPTH \<and> ipld_all scalar_encodable v"
  by (simp add: encode_eq cbor_item_is_ok)

end
