(* ===== verification/Crypto.thy ===== *)
theory Crypto
  imports Varint Rust_Text
begin

text \<open>
  \<open>crypto/mod.rs\<close> and its backends: the algorithm registry, keys and signatures that carry their
  algorithm, and the dispatch to whichever backends were compiled in. The primitives are third-party
  crates; they are the fields of \<open>crypto_lib\<close>, with the Cargo features of the build. A signing key
  is opaque, the type \<open>'s\<close>.
\<close>

datatype algorithm = Ed25519 | P256 | Secp256k1 | MlDsa44 | MlDsa65 | MlDsa87

definition ALL_ALGORITHMS :: "algorithm list" where
  "ALL_ALGORITHMS = [Ed25519, P256, Secp256k1, MlDsa44, MlDsa65, MlDsa87]"

fun multicodec :: "algorithm \<Rightarrow> 64 word" where
  "multicodec Ed25519 = 0xed"
| "multicodec P256 = 0x1200"
| "multicodec Secp256k1 = 0xe7"
| "multicodec MlDsa44 = 0x1210"
| "multicodec MlDsa65 = 0x1211"
| "multicodec MlDsa87 = 0x1212"

definition from_multicodec :: "64 word \<Rightarrow> algorithm option" where
  "from_multicodec code = find (\<lambda>a. multicodec a = code) ALL_ALGORITHMS"

fun public_key_len :: "algorithm \<Rightarrow> nat" where
  "public_key_len Ed25519 = 32"
| "public_key_len P256 = 33"
| "public_key_len Secp256k1 = 33"
| "public_key_len MlDsa44 = 1312"
| "public_key_len MlDsa65 = 1952"
| "public_key_len MlDsa87 = 2592"

fun signature_len :: "algorithm \<Rightarrow> nat" where
  "signature_len Ed25519 = 64"
| "signature_len P256 = 64"
| "signature_len Secp256k1 = 64"
| "signature_len MlDsa44 = 2420"
| "signature_len MlDsa65 = 3309"
| "signature_len MlDsa87 = 4627"

fun algorithm_name :: "algorithm \<Rightarrow> str" where
  "algorithm_name Ed25519 = lit ''Ed25519''"
| "algorithm_name P256 = lit ''ES256''"
| "algorithm_name Secp256k1 = lit ''ES256K''"
| "algorithm_name MlDsa44 = lit ''ML-DSA-44''"
| "algorithm_name MlDsa65 = lit ''ML-DSA-65''"
| "algorithm_name MlDsa87 = lit ''ML-DSA-87''"

definition is_post_quantum :: "algorithm \<Rightarrow> bool" where
  "is_post_quantum a \<longleftrightarrow> a \<in> {MlDsa44, MlDsa65, MlDsa87}"

text \<open>
  The build and its backends. Of a key or a signature the backends say whether its bytes parse
  (\<open>VerifyingKey::from_bytes\<close>, \<open>from_sec1_bytes\<close>, \<open>Signature::from_slice\<close>), and whether the
  signature verifies.
\<close>

record 's crypto_lib =
  feature_ed25519 :: bool
  feature_p256 :: bool
  feature_secp256k1 :: bool
  feature_ml_dsa :: bool
  ed_key_parses :: "byte list \<Rightarrow> bool"
  ed_signature_parses :: "byte list \<Rightarrow> bool"
  ed_verifies :: "byte list \<Rightarrow> byte list \<Rightarrow> byte list \<Rightarrow> bool"
  p256_key_parses :: "byte list \<Rightarrow> bool"
  p256_signature_parses :: "byte list \<Rightarrow> bool"
  p256_verifies :: "byte list \<Rightarrow> byte list \<Rightarrow> byte list \<Rightarrow> bool"
  k256_key_parses :: "byte list \<Rightarrow> bool"
  k256_signature_parses :: "byte list \<Rightarrow> bool"
  k256_verifies :: "byte list \<Rightarrow> byte list \<Rightarrow> byte list \<Rightarrow> bool"
  mldsa_verifies :: "algorithm \<Rightarrow> byte list \<Rightarrow> byte list \<Rightarrow> byte list \<Rightarrow> bool"
  ed_public :: "'s \<Rightarrow> byte list"
  ed_raw_sign :: "'s \<Rightarrow> byte list \<Rightarrow> byte list"
  p256_public :: "'s \<Rightarrow> byte list"
  p256_raw_sign :: "'s \<Rightarrow> byte list \<Rightarrow> byte list"
  k256_public :: "'s \<Rightarrow> byte list"
  k256_raw_sign :: "'s \<Rightarrow> byte list \<Rightarrow> byte list"
  mldsa_public :: "'s \<Rightarrow> byte list"
  mldsa_raw_sign :: "'s \<Rightarrow> byte list \<Rightarrow> byte list option"

fun is_available :: "'s crypto_lib \<Rightarrow> algorithm \<Rightarrow> bool" where
  "is_available K Ed25519 = feature_ed25519 K"
| "is_available K P256 = feature_p256 K"
| "is_available K Secp256k1 = feature_secp256k1 K"
| "is_available K MlDsa44 = feature_ml_dsa K"
| "is_available K MlDsa65 = feature_ml_dsa K"
| "is_available K MlDsa87 = feature_ml_dsa K"

datatype crypto_error =
    Unsupported algorithm
  | InvalidKey algorithm
  | InvalidSignature
  | AlgorithmMismatch algorithm algorithm
  | VerificationFailed
  | Backend

section \<open>Backends\<close>

definition ed25519_key_is_valid :: "'s crypto_lib \<Rightarrow> byte list \<Rightarrow> bool" where
  "ed25519_key_is_valid K bs \<longleftrightarrow> length bs = 32 \<and> ed_key_parses K bs"

definition ed25519_verify :: "'s crypto_lib \<Rightarrow> byte list \<Rightarrow> byte list \<Rightarrow> byte list \<Rightarrow> crypto_error + unit" where
  "ed25519_verify K key message signature =
     (if length key \<noteq> 32 then Err (InvalidKey Ed25519)
      else if \<not> ed_key_parses K key then Err (InvalidKey Ed25519)
      else if \<not> ed_signature_parses K signature then Err InvalidSignature
      else if ed_verifies K key message signature then Ok () else Err VerificationFailed)"

definition p256_key_is_valid :: "'s crypto_lib \<Rightarrow> byte list \<Rightarrow> bool" where
  "p256_key_is_valid K bs \<longleftrightarrow> p256_key_parses K bs"

definition p256_verify :: "'s crypto_lib \<Rightarrow> byte list \<Rightarrow> byte list \<Rightarrow> byte list \<Rightarrow> crypto_error + unit" where
  "p256_verify K key message signature =
     (if \<not> p256_key_parses K key then Err (InvalidKey P256)
      else if \<not> p256_signature_parses K signature then Err InvalidSignature
      else if p256_verifies K key message signature then Ok () else Err VerificationFailed)"

definition secp256k1_key_is_valid :: "'s crypto_lib \<Rightarrow> byte list \<Rightarrow> bool" where
  "secp256k1_key_is_valid K bs \<longleftrightarrow> k256_key_parses K bs"

definition secp256k1_verify :: "'s crypto_lib \<Rightarrow> byte list \<Rightarrow> byte list \<Rightarrow> byte list \<Rightarrow> crypto_error + unit" where
  "secp256k1_verify K key message signature =
     (if \<not> k256_key_parses K key then Err (InvalidKey Secp256k1)
      else if \<not> k256_signature_parses K signature then Err InvalidSignature
      else if k256_verifies K key message signature then Ok () else Err VerificationFailed)"

text \<open>The parameter set of an ML-DSA algorithm (\<open>verification\<close> and \<open>signing\<close>).\<close>

definition parameter_set :: "algorithm \<Rightarrow> algorithm option" where
  "parameter_set a = (if a \<in> {MlDsa44, MlDsa65, MlDsa87} then Some a else None)"

definition ml_dsa_verify ::
  "'s crypto_lib \<Rightarrow> algorithm \<Rightarrow> byte list \<Rightarrow> byte list \<Rightarrow> byte list \<Rightarrow> crypto_error + unit" where
  "ml_dsa_verify K a key message signature =
     res_bind (ok_or (Unsupported a) (parameter_set a)) (\<lambda>alg.
     if mldsa_verifies K alg key message signature then Ok () else Err VerificationFailed)"

definition backend_key_is_valid :: "'s crypto_lib \<Rightarrow> algorithm \<Rightarrow> byte list \<Rightarrow> bool" where
  "backend_key_is_valid K a bs =
     (if a = Ed25519 \<and> feature_ed25519 K then ed25519_key_is_valid K bs
      else if a = P256 \<and> feature_p256 K then p256_key_is_valid K bs
      else if a = Secp256k1 \<and> feature_secp256k1 K then secp256k1_key_is_valid K bs
      else True)"

definition backend_verify ::
  "'s crypto_lib \<Rightarrow> algorithm \<Rightarrow> byte list \<Rightarrow> byte list \<Rightarrow> byte list \<Rightarrow> crypto_error + unit" where
  "backend_verify K a key message signature =
     (if a = Ed25519 \<and> feature_ed25519 K then ed25519_verify K key message signature
      else if a = P256 \<and> feature_p256 K then p256_verify K key message signature
      else if a = Secp256k1 \<and> feature_secp256k1 K then secp256k1_verify K key message signature
      else if a \<in> {MlDsa44, MlDsa65, MlDsa87} \<and> feature_ml_dsa K then ml_dsa_verify K a key message signature
      else Err (Unsupported a))"

section \<open>Keys and signatures\<close>

record public_key =
  pk_algorithm :: algorithm
  pk_bytes :: "byte list"

record signature =
  sig_algorithm :: algorithm
  sig_bytes :: "byte list"

definition public_key_new :: "'s crypto_lib \<Rightarrow> algorithm \<Rightarrow> byte list \<Rightarrow> crypto_error + public_key" where
  "public_key_new K a bs =
     (if length bs \<noteq> public_key_len a \<or> \<not> backend_key_is_valid K a bs then Err (InvalidKey a)
      else Ok \<lparr>pk_algorithm = a, pk_bytes = bs\<rparr>)"

definition key_verify :: "'s crypto_lib \<Rightarrow> public_key \<Rightarrow> byte list \<Rightarrow> signature \<Rightarrow> crypto_error + unit" where
  "key_verify K key message s =
     (if sig_algorithm s \<noteq> pk_algorithm key
      then Err (AlgorithmMismatch (pk_algorithm key) (sig_algorithm s))
      else backend_verify K (pk_algorithm key) (pk_bytes key) message (sig_bytes s))"

definition signature_new :: "algorithm \<Rightarrow> byte list \<Rightarrow> crypto_error + signature" where
  "signature_new a bs =
     (if length bs \<noteq> signature_len a then Err InvalidSignature
      else Ok \<lparr>sig_algorithm = a, sig_bytes = bs\<rparr>)"

text \<open>A key pair: the backend's signing key and the public key derived from it.\<close>

record 's keypair =
  kp_signing :: 's
  kp_public :: public_key

definition keypair_of :: "'s crypto_lib \<Rightarrow> algorithm \<Rightarrow> byte list \<Rightarrow> 's \<Rightarrow> 's keypair" where
  "keypair_of K a point signing =
     \<lparr>kp_signing = signing,
      kp_public = (case public_key_new K a point of
         Inr key \<Rightarrow> key | Inl _ \<Rightarrow> \<lparr>pk_algorithm = a, pk_bytes = point\<rparr>)\<rparr>"

definition ed25519_wrap :: "'s crypto_lib \<Rightarrow> 's \<Rightarrow> 's keypair" where
  "ed25519_wrap K signing = keypair_of K Ed25519 (ed_public K signing) signing"

definition p256_wrap :: "'s crypto_lib \<Rightarrow> 's \<Rightarrow> 's keypair" where
  "p256_wrap K signing = keypair_of K P256 (p256_public K signing) signing"

definition secp256k1_wrap :: "'s crypto_lib \<Rightarrow> 's \<Rightarrow> 's keypair" where
  "secp256k1_wrap K signing = keypair_of K Secp256k1 (k256_public K signing) signing"

definition ml_dsa_wrap :: "'s crypto_lib \<Rightarrow> algorithm \<Rightarrow> 's \<Rightarrow> crypto_error + 's keypair" where
  "ml_dsa_wrap K a pair =
     res_bind (public_key_new K a (mldsa_public K pair)) (\<lambda>public.
     Ok \<lparr>kp_signing = pair, kp_public = public\<rparr>)"

definition ed25519_sign :: "'s crypto_lib \<Rightarrow> 's keypair \<Rightarrow> byte list \<Rightarrow> crypto_error + signature" where
  "ed25519_sign K kp message = signature_new Ed25519 (ed_raw_sign K (kp_signing kp) message)"

definition p256_sign :: "'s crypto_lib \<Rightarrow> 's keypair \<Rightarrow> byte list \<Rightarrow> crypto_error + signature" where
  "p256_sign K kp message = signature_new P256 (p256_raw_sign K (kp_signing kp) message)"

definition secp256k1_sign :: "'s crypto_lib \<Rightarrow> 's keypair \<Rightarrow> byte list \<Rightarrow> crypto_error + signature" where
  "secp256k1_sign K kp message = signature_new Secp256k1 (k256_raw_sign K (kp_signing kp) message)"

text \<open>The backend writes into a buffer of \<open>signature_len\<close> bytes; \<open>None\<close> is its failure.\<close>

definition ml_dsa_sign :: "'s crypto_lib \<Rightarrow> algorithm \<Rightarrow> 's keypair \<Rightarrow> byte list \<Rightarrow> crypto_error + signature" where
  "ml_dsa_sign K a kp message =
     res_bind (ok_or Backend (mldsa_raw_sign K (kp_signing kp) message)) (\<lambda>written.
     signature_new a (take (signature_len a) written))"

section \<open>Lemmas\<close>

lemma in_ALL [simp]: "a \<in> set ALL_ALGORITHMS"
  by (cases a) (simp_all add: ALL_ALGORITHMS_def)

lemma multicodec_inject [simp]: "multicodec a = multicodec b \<longleftrightarrow> a = b"
  by (cases a; cases b) simp_all

lemma from_multicodec_Some [simp]: "from_multicodec code = Some a \<longleftrightarrow> code = multicodec a"
proof
  assume "from_multicodec code = Some a"
  then show "code = multicodec a" by (auto simp: from_multicodec_def find_Some_iff)
next
  assume "code = multicodec a"
  then show "from_multicodec code = Some a"
    by (cases a) (simp_all add: from_multicodec_def ALL_ALGORITHMS_def)
qed

lemma from_multicodec_multicodec [simp]: "from_multicodec (multicodec a) = Some a"
  by simp

lemma signature_new_Ok: "signature_new a bs = Ok s \<longleftrightarrow> length bs = signature_len a \<and> s = \<lparr>sig_algorithm = a, sig_bytes = bs\<rparr>"
  by (auto simp: signature_new_def)

lemma public_key_new_Ok:
  "public_key_new K a bs = Ok k \<longleftrightarrow>
    length bs = public_key_len a \<and> backend_key_is_valid K a bs \<and> k = \<lparr>pk_algorithm = a, pk_bytes = bs\<rparr>"
  by (auto simp: public_key_new_def)

text \<open>A verified signature was made under the key's own algorithm, by an available backend.\<close>

lemma key_verify_Ok:
  "key_verify K key message s = Ok () \<Longrightarrow> sig_algorithm s = pk_algorithm key \<and> is_available K (pk_algorithm key)"
  by (cases "pk_algorithm key") (auto simp: key_verify_def backend_verify_def split: if_splits)

text \<open>A key that constructs is one the backend parses, so verification never reports it invalid.\<close>

lemma key_verify_not_invalid:
  assumes "public_key_new K a bs = Ok k"
  shows "key_verify K k message s \<noteq> Err (InvalidKey b)"
  using assms
  by (cases a) (auto simp: public_key_new_Ok key_verify_def backend_verify_def backend_key_is_valid_def
      ed25519_key_is_valid_def p256_key_is_valid_def secp256k1_key_is_valid_def
      ed25519_verify_def p256_verify_def secp256k1_verify_def ml_dsa_verify_def parameter_set_def)

section \<open>A concrete instance\<close>

text \<open>
  Backends on which the properties are evaluated: a secret key is its own public key, and a
  signature is the key and the message, cut or padded to the length of the algorithm.
\<close>

definition sample_sign :: "algorithm \<Rightarrow> byte list \<Rightarrow> byte list \<Rightarrow> byte list" where
  "sample_sign a key message = take (signature_len a) (key @ message @ replicate (signature_len a) 0)"

definition sample_crypto :: "byte list crypto_lib" where
  "sample_crypto =
     \<lparr>feature_ed25519 = True, feature_p256 = True, feature_secp256k1 = True, feature_ml_dsa = False,
      ed_key_parses = (\<lambda>_. True), ed_signature_parses = (\<lambda>_. True),
      ed_verifies = (\<lambda>key m s. s = sample_sign Ed25519 key m),
      p256_key_parses = (\<lambda>_. True), p256_signature_parses = (\<lambda>_. True),
      p256_verifies = (\<lambda>key m s. s = sample_sign P256 key m),
      k256_key_parses = (\<lambda>_. True), k256_signature_parses = (\<lambda>_. True),
      k256_verifies = (\<lambda>key m s. s = sample_sign Secp256k1 key m),
      mldsa_verifies = (\<lambda>a key m s. s = sample_sign a key m),
      ed_public = (\<lambda>s. s), ed_raw_sign = sample_sign Ed25519,
      p256_public = (\<lambda>s. s), p256_raw_sign = sample_sign P256,
      k256_public = (\<lambda>s. s), k256_raw_sign = sample_sign Secp256k1,
      mldsa_public = (\<lambda>s. s), mldsa_raw_sign = (\<lambda>s m. Some (s @ m))\<rparr>"

end
