(* ===== verification/Did.thy ===== *)
theory Did
  imports Crypto Text_Ops Ipld
begin

text \<open>
  \<open>did.rs\<close>: decentralized identifiers, \<open>did:key\<close>, and the resolver interface. Base58 is a
  third-party crate, the \<open>bs58_encode\<close> and \<open>bs58_decode\<close> of \<open>cid_lib\<close>.
\<close>

datatype did = Did (did_str: str)

datatype did_error =
    Scheme
  | Method
  | MethodId
  | NotKey
  | Multibase
  | Base58
  | UnknownKeyType "64 word"
  | Key

datatype resolve_error =
    UnsupportedMethod
  | ResolveDid did_error
  | NotFound
  | Failed str

instantiation did :: linorder
begin

definition less_eq_did :: "did \<Rightarrow> did \<Rightarrow> bool" where
  "a \<le> b \<longleftrightarrow> did_str a \<le> did_str b"

definition less_did :: "did \<Rightarrow> did \<Rightarrow> bool" where
  "a < b \<longleftrightarrow> did_str a < did_str b"

instance
  by standard (auto simp: less_eq_did_def less_did_def did.expand)

end

abbreviation colon :: uchar where "colon \<equiv> ascii CHR '':''"

text \<open>\<open>str::find(['/', '?', '#'])\<close> bounds the DID inside a DID URL.\<close>

definition url_delimiter :: "uchar \<Rightarrow> bool" where
  "url_delimiter c \<longleftrightarrow> c = ascii CHR ''/'' \<or> c = ascii CHR ''?'' \<or> c = ascii CHR ''#''"

definition before_url_parts :: "str \<Rightarrow> str" where
  "before_url_parts s = takeWhile (\<lambda>c. \<not> url_delimiter c) s"

definition byte_between :: "nat \<Rightarrow> byte \<Rightarrow> nat \<Rightarrow> bool" where
  "byte_between lo b hi \<longleftrightarrow> lo \<le> unat b \<and> unat b \<le> hi"

definition byte_is_hexdigit :: "byte \<Rightarrow> bool" where
  "byte_is_hexdigit b \<longleftrightarrow> byte_between 0x30 b 0x39 \<or> byte_between 0x61 b 0x66 \<or> byte_between 0x41 b 0x46"

definition id_byte :: "byte \<Rightarrow> bool" where
  "id_byte b \<longleftrightarrow> byte_between 0x61 b 0x7A \<or> byte_between 0x41 b 0x5A \<or> byte_between 0x30 b 0x39
     \<or> b = 0x2E \<or> b = 0x2D \<or> b = 0x5F \<or> b = 0x3A"

fun id_chars_are_valid :: "byte list \<Rightarrow> bool" where
  "id_chars_are_valid [] = True"
| "id_chars_are_valid (b # bs) =
     (if id_byte b then id_chars_are_valid bs
      else if b = 0x25 then
        (case bs of
           x # y # bs' \<Rightarrow> byte_is_hexdigit x \<and> byte_is_hexdigit y \<and> id_chars_are_valid bs'
         | _ \<Rightarrow> False)
      else False)"

definition did_parse :: "str \<Rightarrow> did_error + did" where
  "did_parse txt =
     res_bind (ok_or Scheme (strip_prefix (lit ''did:'') txt)) (\<lambda>rest.
     res_bind (ok_or MethodId (split_once colon rest)) (\<lambda>(meth, tail).
     if meth = [] \<or> \<not> list_all (\<lambda>c. is_ascii_lowercase c \<or> is_ascii_digit c) meth then Err Method
     else let ident = before_url_parts tail in
       if ident = [] \<or> ends_with_char colon ident \<or> \<not> id_chars_are_valid (utf8 ident) then Err MethodId
       else Ok (Did txt)))"

definition did_from_key :: "'c cid_lib \<Rightarrow> public_key \<Rightarrow> did" where
  "did_from_key L key =
     (let raw = put_uvarint (multicodec (pk_algorithm key)) @ pk_bytes key
      in Did (lit ''did:key:z'' @ bs58_encode L raw))"

definition base :: "did \<Rightarrow> str" where
  "base d = before_url_parts (did_str d)"

text \<open>\<open>self.base().get(4..)\<close>.\<close>

definition base_rest :: "did \<Rightarrow> str option" where
  "base_rest d = map_option snd (split_at_byte 4 (base d))"

definition did_method :: "did \<Rightarrow> str" where
  "did_method d = (case base_rest d of Some rest \<Rightarrow> hd (split_char colon rest) | None \<Rightarrow> [])"

definition method_id :: "did \<Rightarrow> str" where
  "method_id d =
     (case Option.bind (base_rest d) (split_once colon) of Some (_, ident) \<Rightarrow> ident | None \<Rightarrow> [])"

definition fragment :: "did \<Rightarrow> str option" where
  "fragment d = map_option snd (split_once (ascii CHR ''#'') (did_str d))"

definition same_principal :: "did \<Rightarrow> did \<Rightarrow> bool" where
  "same_principal a b \<longleftrightarrow> base a = base b"

definition did_key :: "'c cid_lib \<Rightarrow> 's crypto_lib \<Rightarrow> did \<Rightarrow> did_error + public_key" where
  "did_key L K d =
     (if did_method d \<noteq> lit ''key'' then Err NotKey
      else
        res_bind (ok_or Multibase (strip_prefix (lit ''z'') (method_id d))) (\<lambda>b58.
        res_bind (ok_or Base58 (bs58_decode L b58)) (\<lambda>raw.
        res_bind (map_err (\<lambda>_. Multibase) (read_uvarint raw)) (\<lambda>(code, used).
        res_bind (ok_or (UnknownKeyType code) (from_multicodec code)) (\<lambda>a.
        res_bind (ok_or Key (slice_get used (length raw) raw)) (\<lambda>key.
        map_err (\<lambda>_. Key) (public_key_new K a key)))))))"

text \<open>A \<open>Resolver\<close> is a function; \<open>KeyResolver\<close> is this one.\<close>

type_synonym resolver = "did \<Rightarrow> resolve_error + public_key"

definition key_resolver :: "'c cid_lib \<Rightarrow> 's crypto_lib \<Rightarrow> resolver" where
  "key_resolver L K d =
     (if did_method d \<noteq> lit ''key'' then Err UnsupportedMethod
      else map_err ResolveDid (did_key L K d))"

text \<open>A \<open>Signer\<close>: its key, its signing function, and the DID its tokens carry.\<close>

record signer =
  sg_public_key :: public_key
  sg_sign :: "byte list \<Rightarrow> crypto_error + signature"
  sg_did :: did

definition signer_of :: "'c cid_lib \<Rightarrow> (byte list \<Rightarrow> crypto_error + signature) \<Rightarrow> 's keypair \<Rightarrow> signer" where
  "signer_of L sign kp = \<lparr>sg_public_key = kp_public kp, sg_sign = sign, sg_did = did_from_key L (kp_public kp)\<rparr>"

definition ed25519_signer :: "'c cid_lib \<Rightarrow> 's crypto_lib \<Rightarrow> 's keypair \<Rightarrow> signer" where
  "ed25519_signer L K kp = signer_of L (ed25519_sign K kp) kp"

definition p256_signer :: "'c cid_lib \<Rightarrow> 's crypto_lib \<Rightarrow> 's keypair \<Rightarrow> signer" where
  "p256_signer L K kp = signer_of L (p256_sign K kp) kp"

definition secp256k1_signer :: "'c cid_lib \<Rightarrow> 's crypto_lib \<Rightarrow> 's keypair \<Rightarrow> signer" where
  "secp256k1_signer L K kp = signer_of L (secp256k1_sign K kp) kp"

definition ml_dsa_signer :: "'c cid_lib \<Rightarrow> 's crypto_lib \<Rightarrow> algorithm \<Rightarrow> 's keypair \<Rightarrow> signer" where
  "ml_dsa_signer L K a kp = signer_of L (ml_dsa_sign K a kp) kp"

section \<open>Lemmas\<close>

text \<open>What the crate relies on of base58: a bijection between byte strings and its alphabet's texts.\<close>

definition bs58_ok :: "'c cid_lib \<Rightarrow> bool" where
  "bs58_ok L \<longleftrightarrow> (\<forall>bs. bs58_decode L (bs58_encode L bs) = Some bs)
     \<and> (\<forall>s bs. bs58_decode L s = Some bs \<longrightarrow> bs58_encode L bs = s)
     \<and> (\<forall>bs. list_all is_ascii_alphanumeric (bs58_encode L bs))
     \<and> (\<forall>bs. bs \<noteq> [] \<longrightarrow> bs58_encode L bs \<noteq> [])"

lemma before_url_parts_id: "list_all (\<lambda>c. \<not> url_delimiter c) s \<Longrightarrow> before_url_parts s = s"
  by (simp add: before_url_parts_def list_all_iff takeWhile_eq_all_conv)

lemma alphanumeric_not_delimiter:
  "is_ascii_alphanumeric c \<Longrightarrow> \<not> url_delimiter c \<and> c \<noteq> colon"
  by (auto simp: url_delimiter_def is_ascii_alphanumeric_def is_ascii_alphabetic_def char_class_defs)

lemma utf8_ascii_lit4: "str_len (lit ''did:'') = 4"
  by (simp add: str_len_def utf8_char_ascii)

lemma base_rest_did: "base d = lit ''did:'' @ rest \<Longrightarrow> base_rest d = Some rest"
  unfolding base_rest_def using split_at_byte_append [of "lit ''did:''" rest]
  by (simp only: utf8_ascii_lit4 option.map snd_conv)

lemma base_from_key: "bs58_ok L \<Longrightarrow> base (did_from_key L k) = did_str (did_from_key L k)"
proof -
  assume "bs58_ok L"
  then have "list_all is_ascii_alphanumeric (bs58_encode L bs)" for bs by (simp add: bs58_ok_def)
  then have "list_all (\<lambda>c. \<not> url_delimiter c) (bs58_encode L bs)" for bs
    using alphanumeric_not_delimiter by (metis list_all_iff)
  then show ?thesis unfolding base_def did_from_key_def Let_def did.sel
    by (intro before_url_parts_id) (simp add: url_delimiter_def)
qed

lemma did_parts:
  assumes "base d = lit ''did:'' @ m @ colon # ident" "colon \<notin> set m"
  shows "did_method d = m" "method_id d = ident"
proof -
  have rest: "base_rest d = Some (m @ colon # ident)" using assms(1) by (rule base_rest_did)
  show "did_method d = m" using split_char_hd [OF assms(2)] by (simp add: did_method_def rest)
  show "method_id d = ident" using split_once_append [OF assms(2)] by (simp add: method_id_def rest)
qed

lemma did_key_of_from_key:
  assumes "bs58_ok L" "public_key_new K a bs = Ok k"
  shows "did_key L K (did_from_key L k) = Ok k"
proof -
  from assms(2) have k: "k = \<lparr>pk_algorithm = a, pk_bytes = bs\<rparr>" by (simp add: public_key_new_Ok)
  let ?raw = "put_uvarint (multicodec a) @ bs"
  have "base (did_from_key L k) = lit ''did:'' @ lit ''key'' @ colon # lit ''z'' @ bs58_encode L ?raw"
    using base_from_key [OF assms(1), of k] by (simp add: did_from_key_def k)
  then have "did_method (did_from_key L k) = lit ''key''"
    "method_id (did_from_key L k) = lit ''z'' @ bs58_encode L ?raw"
    by (rule did_parts; simp)+
  moreover have "bs58_decode L (bs58_encode L ?raw) = Some ?raw" using assms(1) by (simp add: bs58_ok_def)
  moreover have "slice_get (length (put_uvarint (multicodec a))) (length ?raw) ?raw = Some bs"
    by (simp add: slice_get_def)
  ultimately show ?thesis using assms(2)
    by (simp only: did_key_def) (simp add: read_put_uvarint)
qed

text \<open>Every \<open>Did\<close> of the crate comes from \<open>parse\<close> or \<open>from_key\<close>, so it has the scheme.\<close>

definition did_wf :: "did \<Rightarrow> bool" where
  "did_wf d \<longleftrightarrow> (\<exists>rest. did_str d = lit ''did:'' @ rest)"

lemma did_wf_parse: "did_parse s = Ok d \<Longrightarrow> did_wf d \<and> did_str d = s"
  by (auto simp: did_parse_def did_wf_def res_simps strip_prefix_Some Let_def split: if_splits)

lemma did_wf_from_key: "did_wf (did_from_key L k)"
  unfolding did_wf_def did_from_key_def Let_def did.sel
  by (intro exI [of _ "lit ''key:z'' @ _"]) simp

lemma did_wf_base: "did_wf d \<Longrightarrow> \<exists>rest. base d = lit ''did:'' @ rest"
  by (auto simp: did_wf_def base_def before_url_parts_def url_delimiter_def)

text \<open>The identifier of a \<open>did:key\<close> is determined by its key.\<close>

lemma did_key_canonical:
  assumes "bs58_ok L" "did_wf d" "did_key L K d = Ok k"
  shows "base d = did_str (did_from_key L k)"
proof -
  from did_wf_base [OF assms(2)] obtain rest where rest: "base d = lit ''did:'' @ rest" by blast
  from assms(3) obtain b58 raw code used a key where m: "did_method d = lit ''key''"
    "method_id d = lit ''z'' @ b58" "bs58_decode L b58 = Some raw" "read_uvarint raw = Ok (code, used)"
    "code = multicodec a" "slice_get used (length raw) raw = Some key" "public_key_new K a key = Ok k"
    by (auto simp: did_key_def res_simps strip_prefix_Some split: if_splits)
  have "method_id d \<noteq> []" using m(2) by simp
  then obtain pre ident where pre: "split_once colon rest = Some (pre, ident)"
    by (auto simp: method_id_def base_rest_did [OF rest] split: option.splits)
  then have r: "rest = pre @ colon # ident" "colon \<notin> set pre" by (auto simp: split_once_Some)
  have "pre = lit ''key''" "ident = lit ''z'' @ b58"
    using did_parts [of d pre ident] rest r m(1,2) by auto
  moreover from m(4) obtain r' where "raw = put_uvarint code @ r'" "used = length (put_uvarint code)"
    by (rule read_uvarint_Ok)
  then have "raw = put_uvarint (multicodec a) @ key" using m(5,6) by (simp add: slice_get_def)
  moreover have "bs58_encode L raw = b58" using assms(1) m(3) by (simp add: bs58_ok_def)
  ultimately show ?thesis using m(7) r(1) rest
    by (simp add: did_from_key_def public_key_new_Ok)
qed

lemma id_byte_ascii: "is_ascii_alphanumeric c \<Longrightarrow> \<exists>b. utf8_char c = [b] \<and> id_byte b"
proof -
  assume c: "is_ascii_alphanumeric c"
  then have "code_point c < 0x80"
    by (auto simp: is_ascii_alphanumeric_def is_ascii_alphabetic_def char_class_defs)
  with c show ?thesis
    by (auto simp: utf8_char_ascii id_byte_def byte_between_def unat_of_nat_byte
        is_ascii_alphanumeric_def is_ascii_alphabetic_def char_class_defs)
qed

lemma id_chars_alphanumeric: "list_all is_ascii_alphanumeric s \<Longrightarrow> id_chars_are_valid (utf8 s)"
  by (induction s) (auto dest!: id_byte_ascii)

text \<open>A \<open>did:key\<close> text over anything that base58 writes parses, into the parts it was made of.\<close>

lemma did_key_text:
  fixes raw
  assumes "bs58_ok L"
  defines "d \<equiv> Did (lit ''did:key:z'' @ bs58_encode L raw)"
  shows "did_parse (did_str d) = Ok d" "did_method d = lit ''key''" "method_id d = lit ''z'' @ bs58_encode L raw"
proof -
  let ?id = "lit ''z'' @ bs58_encode L raw"
  have str: "did_str d = lit ''did:'' @ lit ''key'' @ colon # ?id" by (simp add: d_def)
  have alnum: "list_all is_ascii_alphanumeric ?id"
    using assms(1) by (simp add: bs58_ok_def char_class_defs is_ascii_alphanumeric_def is_ascii_alphabetic_def)
  then have all: "list_all (\<lambda>c. \<not> url_delimiter c) ?id"
    by (auto simp: list_all_iff dest: alphanumeric_not_delimiter)
  then have "before_url_parts ?id = ?id" by (rule before_url_parts_id)
  moreover have "\<not> ends_with_char colon ?id"
    using alnum alphanumeric_not_delimiter [of colon] by (auto simp: ends_with_char_def list_all_iff dest: last_in_set)
  moreover have "id_chars_are_valid (utf8 ?id)" using alnum by (rule id_chars_alphanumeric)
  ultimately show "did_parse (did_str d) = Ok d"
    unfolding str did_parse_def using split_once_append [of colon "lit ''key''" ?id]
    by (simp add: char_class_defs d_def Let_def)
  have "base d = lit ''did:'' @ lit ''key'' @ colon # ?id"
    unfolding base_def str using all by (intro before_url_parts_id) (simp add: url_delimiter_def)
  then show "did_method d = lit ''key''" "method_id d = ?id" by (rule did_parts; simp)+
qed

lemma did_from_key_resolves:
  assumes "bs58_ok L" "public_key_new K a bs = Ok k"
  shows "did_parse (did_str (did_from_key L k)) = Ok (did_from_key L k)
    \<and> key_resolver L K (did_from_key L k) = Ok k"
proof -
  let ?raw = "put_uvarint (multicodec (pk_algorithm k)) @ pk_bytes k"
  have k: "did_from_key L k = Did (lit ''did:key:z'' @ bs58_encode L ?raw)" by (simp add: did_from_key_def Let_def)
  show ?thesis
    using did_key_text [OF assms(1), of ?raw] did_key_of_from_key [OF assms] by (simp add: k key_resolver_def)
qed

section \<open>Properties\<close>

lemma bs58_ok_sample: "bs58_ok sample_lib"
proof -
  have "bs \<noteq> [] \<Longrightarrow> hex_text bs \<noteq> []" for bs by (cases bs) (simp_all add: hex_text_def)
  then show ?thesis
    by (simp add: bs58_ok_def sample_lib_def unhex_hex_text hex_unhex_text hex_text_alphanumeric)
qed

text \<open>The sample key pairs: a secret key is one repeated byte.\<close>

definition sample_key :: "byte \<Rightarrow> public_key" where
  "sample_key b = \<lparr>pk_algorithm = Ed25519, pk_bytes = replicate 32 b\<rparr>"

definition sample_did :: "byte \<Rightarrow> did" where
  "sample_did b = did_from_key sample_lib (sample_key b)"

lemma sample_key_new: "public_key_new sample_crypto Ed25519 (replicate 32 b) = Ok (sample_key b)"
  by (simp add: public_key_new_Ok sample_key_def backend_key_is_valid_def sample_crypto_def
      ed25519_key_is_valid_def)

text \<open>C5. The \<open>did:key\<close> of a key parses, and resolves back to that key.\<close>

theorem did_key_round_trip:
  assumes "bs58_ok L" "public_key_new K a bs = Ok k"
  shows "did_parse (did_str (did_from_key L k)) = Ok (did_from_key L k)
    \<and> key_resolver L K (did_from_key L k) = Ok k"
  using assms by (rule did_from_key_resolves)

theorem did_key_round_trip_witness:
  "key_resolver sample_lib sample_crypto (sample_did 7) = Ok (sample_key 7)"
  using did_key_round_trip [OF bs58_ok_sample sample_key_new] by (simp add: sample_did_def)

text \<open>C6. Two DIDs that resolve as \<open>did:key\<close> name the same principal exactly when they hold the same
  key: no key has two identifiers and no identifier two keys.\<close>

theorem did_key_principal:
  assumes "bs58_ok L" "did_parse s = Ok d" "did_parse t = Ok e"
    and "key_resolver L K d = Ok k" "key_resolver L K e = Ok j"
  shows "same_principal d e \<longleftrightarrow> k = j"
proof
  have keys: "did_key L K d = Ok k" "did_key L K e = Ok j"
    using assms(4,5) by (auto simp: key_resolver_def split: if_splits)
  then have "base d = did_str (did_from_key L k)" "base e = did_str (did_from_key L j)"
    using assms(1-3) did_wf_parse by (auto intro: did_key_canonical)
  then show "k = j \<Longrightarrow> same_principal d e" by (simp add: same_principal_def)
  assume "same_principal d e"
  then have "did_method d = did_method e" "method_id d = method_id e"
    by (simp_all add: same_principal_def did_method_def method_id_def base_rest_def)
  then have "did_key L K d = did_key L K e" by (simp only: did_key_def)
  then show "k = j" using keys by simp
qed

theorem did_key_principal_witness:
  "same_principal (sample_did 1) (sample_did 1) \<and> \<not> same_principal (sample_did 1) (sample_did 2)"
proof -
  have parse: "did_parse (did_str (sample_did b)) = Ok (sample_did b)"
    and resolve: "key_resolver sample_lib sample_crypto (sample_did b) = Ok (sample_key b)" for b
    using did_from_key_resolves [OF bs58_ok_sample sample_key_new, of b] by (simp_all add: sample_did_def)
  show ?thesis
    using did_key_principal [OF bs58_ok_sample parse [of 1] parse [of 1] resolve [of 1] resolve [of 1]]
      did_key_principal [OF bs58_ok_sample parse [of 1] parse [of 2] resolve [of 1] resolve [of 2]]
    by (simp add: sample_key_def)
qed

end
