(* ===== verification/Varsig.thy ===== *)
theory Varsig
  imports Crypto
begin

text \<open>
  \<open>varsig.rs\<close>: the header of a token, which names its signature algorithm and the encoding of the
  payload the signature covers.
\<close>

definition PREFIX :: byte where "PREFIX = 0x34"
definition VERSION :: byte where "VERSION = 0x01"
definition VARSIG_DAG_CBOR :: "64 word" where "VARSIG_DAG_CBOR = 0x71"
definition VARSIG_DAG_JSON :: "64 word" where "VARSIG_DAG_JSON = 0x0129"
definition EDDSA :: "64 word" where "EDDSA = 0xed"
definition ECDSA :: "64 word" where "ECDSA = 0xec"
definition VARSIG_SHA2_256 :: "64 word" where "VARSIG_SHA2_256 = 0x12"
definition VARSIG_SHA2_512 :: "64 word" where "VARSIG_SHA2_512 = 0x13"

lemmas varsig_codes = VARSIG_DAG_CBOR_def VARSIG_DAG_JSON_def EDDSA_def ECDSA_def
  VARSIG_SHA2_256_def VARSIG_SHA2_512_def

datatype encoding = DagCbor | DagJson

fun encoding_code :: "encoding \<Rightarrow> 64 word" where
  "encoding_code DagCbor = VARSIG_DAG_CBOR"
| "encoding_code DagJson = VARSIG_DAG_JSON"

definition encoding_from_code :: "64 word \<Rightarrow> encoding option" where
  "encoding_from_code code =
     (if code = VARSIG_DAG_CBOR then Some DagCbor
      else if code = VARSIG_DAG_JSON then Some DagJson
      else None)"

record header =
  h_algorithm :: algorithm
  h_encoding :: encoding

datatype varsig_error =
    VarsigPrefix
  | VarsigVersion
  | VarsigVarint
  | Truncated
  | UnknownAlgorithm "64 word"
  | UnsupportedParameters
  | UnsupportedEncoding "64 word"

definition header_new :: "algorithm \<Rightarrow> header" where
  "header_new a = \<lparr>h_algorithm = a, h_encoding = DagCbor\<rparr>"

definition with_encoding :: "encoding \<Rightarrow> header \<Rightarrow> header" where
  "with_encoding e h = h\<lparr>h_encoding := e\<rparr>"

fun varsig_segments :: "algorithm \<Rightarrow> 64 word list" where
  "varsig_segments Ed25519 = [EDDSA, 0xed, VARSIG_SHA2_512]"
| "varsig_segments P256 = [ECDSA, 0x1200, VARSIG_SHA2_256]"
| "varsig_segments Secp256k1 = [ECDSA, 0xe7, VARSIG_SHA2_256]"
| "varsig_segments MlDsa44 = [0x1210]"
| "varsig_segments MlDsa65 = [0x1211]"
| "varsig_segments MlDsa87 = [0x1212]"

definition header_encode :: "header \<Rightarrow> byte list" where
  "header_encode h =
     [PREFIX, VERSION] @ concat (map put_uvarint (varsig_segments (h_algorithm h)))
       @ put_uvarint (encoding_code (h_encoding h))"

lemma put_uvarint_nonempty [simp]: "put_uvarint v \<noteq> []"
  by (subst put_uvarint.simps) (simp add: Let_def)

lemma read_uvarint_used: "read_uvarint bs = Ok (v, used) \<Longrightarrow> 0 < used"
  by (auto elim: read_uvarint_Ok)

lemma slice_get_shorter: "slice_get k (length xs) xs = Some ys \<Longrightarrow> 0 < k \<Longrightarrow> xs \<noteq> [] \<Longrightarrow> length ys < length xs"
  by (auto simp: slice_get_def split: if_splits)

text \<open>The loop that reads varints until nothing is left.\<close>

function read_segments :: "byte list \<Rightarrow> varsig_error + 64 word list" where
  "read_segments rest =
     (if rest = [] then Ok []
      else res_bind (map_err (\<lambda>_. VarsigVarint) (read_uvarint rest)) (\<lambda>(value, used).
        res_bind (ok_or VarsigVarint (slice_get used (length rest) rest)) (\<lambda>rest'.
        map_ok (\<lambda>vs. value # vs) (read_segments rest'))))"
  by pat_completeness auto

termination
  by (relation "measure length") (auto intro: slice_get_shorter dest: read_uvarint_used)

declare read_segments.simps [simp del]

definition header_decode :: "byte list \<Rightarrow> varsig_error + header" where
  "header_decode bs =
     res_bind (ok_or VarsigPrefix (strip_prefix [PREFIX] bs)) (\<lambda>rest.
     res_bind (ok_or VarsigVersion (strip_prefix [VERSION] rest)) (\<lambda>rest.
     res_bind (read_segments rest) (\<lambda>segs.
     if segs = [] then Err Truncated
     else let encoding = last segs; algorithm_segments = butlast segs in
       res_bind (case find (\<lambda>a. varsig_segments a = algorithm_segments) ALL_ALGORITHMS of
            Some a \<Rightarrow> Ok a
          | None \<Rightarrow> Err (case algorithm_segments of
               tag # _ \<Rightarrow> if tag \<in> {EDDSA, ECDSA} \<or> from_multicodec tag \<noteq> None
                          then UnsupportedParameters else UnknownAlgorithm tag
             | [] \<Rightarrow> Truncated)) (\<lambda>a.
       res_bind (ok_or (UnsupportedEncoding encoding) (encoding_from_code encoding)) (\<lambda>e.
       Ok \<lparr>h_algorithm = a, h_encoding = e\<rparr>)))))"

section \<open>Lemmas\<close>

lemma slice_get_suffix: "slice_get (length a) (length (a @ b)) (a @ b) = Some b"
  by (simp add: slice_get_def)

lemma read_segments_iff: "read_segments bs = Ok vs \<longleftrightarrow> bs = concat (map put_uvarint vs)"
proof
  show "read_segments bs = Ok vs \<Longrightarrow> bs = concat (map put_uvarint vs)"
  proof (induction bs arbitrary: vs rule: read_segments.induct)
    case (1 rest)
    show ?case
    proof (cases "rest = []")
      case True
      with "1.prems" show ?thesis by (simp add: read_segments.simps)
    next
      case False
      with "1.prems" obtain v used rest' vs' where r: "read_uvarint rest = Ok (v, used)"
        "slice_get used (length rest) rest = Some rest'" "read_segments rest' = Ok vs'" "vs = v # vs'"
        by (subst (asm) read_segments.simps) (auto simp: res_simps)
      from r(1) obtain r' where "rest = put_uvarint v @ r'" "used = length (put_uvarint v)"
        by (rule read_uvarint_Ok)
      moreover from this have "rest' = r'" using r(2) slice_get_suffix [of "put_uvarint v" r'] by simp
      moreover have "rest' = concat (map put_uvarint vs')"
        by (rule "1.IH" [OF False _ refl _ r(3)]) (use r in simp_all)
      ultimately show ?thesis using r(4) by simp
    qed
  qed
next
  have "read_segments (concat (map put_uvarint vs)) = Ok vs"
  proof (induction vs)
    case (Cons v vs)
    then show ?case
      by (subst read_segments.simps)
        (simp add: read_put_uvarint slice_get_suffix [of "put_uvarint v", simplified])
  qed (simp add: read_segments.simps)
  then show "bs = concat (map put_uvarint vs) \<Longrightarrow> read_segments bs = Ok vs" by simp
qed

lemma encoding_from_code_Some [simp]: "encoding_from_code c = Some e \<longleftrightarrow> c = encoding_code e"
  by (cases e) (auto simp: encoding_from_code_def varsig_codes)

lemma encoding_from_code_code [simp]: "encoding_from_code (encoding_code e) = Some e"
  by simp

lemma varsig_segments_inject [simp]: "varsig_segments a = varsig_segments b \<longleftrightarrow> a = b"
  by (cases a; cases b) (simp_all add: varsig_codes)

lemma find_algorithm: "find (\<lambda>a. a = b) ALL_ALGORITHMS = Some b"
  by (cases b) (simp_all add: ALL_ALGORITHMS_def)

lemma header_decode_iff: "header_decode bs = Ok h \<longleftrightarrow> bs = header_encode h"
proof
  assume "header_decode bs = Ok h"
  then obtain segs e where s: "bs = PREFIX # VERSION # concat (map put_uvarint segs)" "segs \<noteq> []"
    "find (\<lambda>a. varsig_segments a = butlast segs) ALL_ALGORITHMS = Some (h_algorithm h)"
    "last segs = encoding_code (h_encoding h)"
    by (auto simp: header_decode_def res_simps strip_prefix_Some read_segments_iff Let_def
        split: option.split_asm if_split_asm)
  then have "butlast segs = varsig_segments (h_algorithm h)" by (auto simp: find_Some_iff)
  with s(2,4) have "segs = varsig_segments (h_algorithm h) @ [encoding_code (h_encoding h)]"
    by (metis append_butlast_last_id)
  with s(1) show "bs = header_encode h" by (simp add: header_encode_def)
next
  assume "bs = header_encode h"
  moreover have "read_segments (concat (map put_uvarint (varsig_segments (h_algorithm h)))
      @ put_uvarint (encoding_code (h_encoding h))) =
      Ok (varsig_segments (h_algorithm h) @ [encoding_code (h_encoding h)])"
    by (simp add: read_segments_iff)
  ultimately show "header_decode bs = Ok h"
    by (simp add: header_decode_def header_encode_def find_algorithm Let_def)
qed

interpretation varsig: round_trip_codec "\<lambda>h. Some (header_encode h)" "\<lambda>bs. res_ok (header_decode bs)" "\<lambda>_. True"
  by unfold_locales (simp_all add: header_decode_iff)

section \<open>Properties\<close>

text \<open>C4. A varsig header decodes exactly from its own encoding: every byte is accounted for, no two
  byte strings are the same header, and no two headers the same bytes.\<close>

theorem varsig_round_trip:
  "(header_decode bs = Ok h \<longleftrightarrow> header_encode h = bs) \<and> (header_encode h = header_encode h' \<longleftrightarrow> h = h')"
proof
  show "header_decode bs = Ok h \<longleftrightarrow> header_encode h = bs" by (auto simp: header_decode_iff)
  show "header_encode h = header_encode h' \<longleftrightarrow> h = h'"
    using varsig.enc_inj [of h "header_encode h" h'] by auto
qed

end
