(* ===== verification/Command.thy ===== *)
theory Command
  imports Text_Ops
begin

text \<open>
  \<open>command.rs\<close>: the paths that name what may be done, and when one covers another. Which
  characters are uppercase is a table of the Rust standard library (\<open>char::is_uppercase\<close>), the
  argument \<open>upper\<close>.
\<close>

datatype command = Command (cmd_str: str)

datatype command_error = EmptyCommand | MissingLeadingSlash | TrailingSlash | EmptySegment | Uppercase

abbreviation slash :: uchar where "slash \<equiv> ascii CHR ''/''"

definition command_parse :: "(uchar \<Rightarrow> bool) \<Rightarrow> str \<Rightarrow> command_error + command" where
  "command_parse upper text =
     (if text = [] then Err EmptyCommand
      else if \<not> starts_with_char slash text then Err MissingLeadingSlash
      else if 1 < str_len text \<and> ends_with_char slash text then Err TrailingSlash
      else if 1 < str_len text \<and> contains_str [slash, slash] text then Err EmptySegment
      else if list_ex upper text then Err Uppercase
      else Ok (Command text))"

definition root :: command where "root = Command [slash]"

definition is_root :: "command \<Rightarrow> bool" where
  "is_root c \<longleftrightarrow> cmd_str c = [slash]"

definition segments_of :: "str \<Rightarrow> str list" where
  "segments_of s = filter (\<lambda>s. s \<noteq> []) (split_char slash s)"

definition segments :: "command \<Rightarrow> str list" where
  "segments c = segments_of (cmd_str c)"

definition covers :: "command \<Rightarrow> command \<Rightarrow> bool" where
  "covers c other =
     (if is_root c then True
      else case strip_prefix (cmd_str c) (cmd_str other) of
        Some rest \<Rightarrow> rest = [] \<or> starts_with_char slash rest
      | None \<Rightarrow> False)"

section \<open>Well-formed commands\<close>

text \<open>What \<open>command_parse\<close> accepts, and what a \<open>Command\<close> therefore always holds.\<close>

definition command_wf :: "(uchar \<Rightarrow> bool) \<Rightarrow> command \<Rightarrow> bool" where
  "command_wf upper c \<longleftrightarrow> command_parse upper (cmd_str c) = Ok c"

text \<open>The text of a list of segments: \<open>/\<close> for none, each one after a slash otherwise.\<close>

definition path_of :: "str list \<Rightarrow> str" where
  "path_of segs = (if segs = [] then [slash] else concat (map (\<lambda>s. slash # s) segs))"

definition seg_ok :: "str \<Rightarrow> bool" where
  "seg_ok s \<longleftrightarrow> s \<noteq> [] \<and> slash \<notin> set s"

lemma str_len_gt_1: "1 < str_len (slash # s) \<longleftrightarrow> s \<noteq> []"
proof -
  have "utf8_char slash = [0x2F]" by (simp add: utf8_char_ascii)
  moreover have "s \<noteq> [] \<Longrightarrow> 0 < length (utf8 s)" by simp
  ultimately show ?thesis by (cases "s = []") (auto simp: str_len_def)
qed

lemma split_char_no_sep: "p \<in> set (split_char c s) \<Longrightarrow> c \<notin> set p"
  by (induction s arbitrary: p) (auto split: list.splits if_splits)

lemma split_char_join: "c # s = concat (map (\<lambda>p. c # p) (split_char c s))"
  by (induction s) (auto split: list.split)

lemma split_char_empty_part:
  "[] \<in> set (split_char c s) \<Longrightarrow> last (c # s) = c \<or> contains_str [c, c] (c # s)"
proof -
  assume "[] \<in> set (split_char c s)"
  then obtain as bs where split: "split_char c s = as @ [] # bs" by (auto dest: split_list)
  have join: "c # s = concat (map (\<lambda>p. c # p) as) @ c # concat (map (\<lambda>p. c # p) bs)"
    using split_char_join [of c s] by (simp add: split)
  show ?thesis
  proof (cases bs)
    case Nil
    then have "c # s = concat (map (\<lambda>p. c # p) as) @ [c]" using join by simp
    then have "last (c # s) = c" by (metis last_snoc)
    then show ?thesis ..
  next
    case (Cons b bs')
    then have "c # s = concat (map (\<lambda>p. c # p) as) @ [c, c] @ (b @ concat (map (\<lambda>p. c # p) bs'))"
      using join by simp
    then have "contains_str [c, c] (c # s)" unfolding contains_str_iff by blast
    then show ?thesis ..
  qed
qed

text \<open>A well-formed command is the text of its segments.\<close>

lemma command_wf_path:
  assumes "command_wf upper c"
  shows "cmd_str c = path_of (segments c) \<and> list_all seg_ok (segments c)"
proof -
  from assms have parse: "command_parse upper (cmd_str c) = Ok c" by (simp add: command_wf_def)
  then obtain s where s: "cmd_str c = slash # s"
    by (cases "cmd_str c") (auto simp: command_parse_def split: if_splits)
  have segs: "segments c = filter (\<lambda>p. p \<noteq> []) (split_char slash s)"
    by (simp add: segments_def segments_of_def s)
  show ?thesis
  proof (cases "s = []")
    case True
    then show ?thesis by (simp add: segs path_of_def s)
  next
    case False
    then have long: "1 < str_len (slash # s)" by (simp only: str_len_gt_1 not_False_eq_True)
    with parse s have "\<not> (last (slash # s) = slash)" "\<not> contains_str [slash, slash] (slash # s)"
      by (auto simp: command_parse_def ends_with_char_def split: if_splits)
    then have "[] \<notin> set (split_char slash s)" using split_char_empty_part by blast
    then have "segments c = split_char slash s" unfolding segs by (intro filter_True) auto
    then show ?thesis using split_char_join [of slash s] split_char_no_sep [of _ slash s] \<open>[] \<notin> _\<close>
      by (auto simp: path_of_def s list_all_iff seg_ok_def)
  qed
qed

lemma command_parse_str: "command_parse upper s = Ok c \<Longrightarrow> cmd_str c = s"
  unfolding command_parse_def by (auto simp only: res_simps Inr_Inl_False command.sel sum.inject split: if_split_asm)

lemma command_parse_wf: "command_parse upper s = Ok c \<Longrightarrow> command_wf upper c"
  using command_parse_str [of upper s c] by (simp add: command_wf_def)

section \<open>Coverage\<close>

lemma segment_prefix:
  assumes "a @ x = b @ y" "slash \<notin> set a" "slash \<notin> set b"
    "x = [] \<or> hd x = slash" "y = [] \<or> hd y = slash"
  shows "a = b \<and> x = y"
  using assms
proof (induction a arbitrary: b)
  case Nil
  then show ?case by (cases b) auto
next
  case (Cons c a)
  then show ?case by (cases b) auto
qed

lemma path_strip_prefix:
  assumes "list_all seg_ok cs" "list_all seg_ok ds" "rest = [] \<or> hd rest = slash"
  shows "concat (map (\<lambda>s. slash # s) ds) = concat (map (\<lambda>s. slash # s) cs) @ rest
    \<longleftrightarrow> (\<exists>es. ds = cs @ es \<and> rest = concat (map (\<lambda>s. slash # s) es))"
  using assms
proof (induction cs arbitrary: ds)
  case Nil
  then show ?case by auto
next
  case (Cons a cs)
  have hd: "concat (map (\<lambda>s. slash # s) es) = [] \<or> hd (concat (map (\<lambda>s. slash # s) es)) = slash" for es
    by (cases es) auto
  show ?case
  proof (cases ds)
    case (Cons b ds')
    have "b @ concat (map (\<lambda>s. slash # s) ds') = a @ concat (map (\<lambda>s. slash # s) cs) @ rest
        \<longleftrightarrow> b = a \<and> concat (map (\<lambda>s. slash # s) ds') = concat (map (\<lambda>s. slash # s) cs) @ rest"
    proof -
      have "concat (map (\<lambda>s. slash # s) cs) @ rest = [] \<or> hd (concat (map (\<lambda>s. slash # s) cs) @ rest) = slash"
        using hd [of cs] Cons.prems(3) by (cases "concat (map (\<lambda>s. slash # s) cs)") auto
      moreover have "slash \<notin> set a" "slash \<notin> set b"
        using Cons.prems(1,2) \<open>ds = _\<close> by (simp_all add: seg_ok_def)
      ultimately show ?thesis using segment_prefix [OF _ _ _ hd [of ds']] by blast
    qed
    with Cons.IH [of ds'] Cons.prems \<open>ds = _\<close> show ?thesis by auto
  qed simp
qed

text \<open>Coverage is the prefix order on segments.\<close>

lemma covers_iff_prefix:
  assumes "command_wf upper c" "command_wf upper d"
  shows "covers c d \<longleftrightarrow> (\<exists>es. segments d = segments c @ es)"
proof (cases "segments c = []")
  case True
  then have "is_root c" using command_wf_path [OF assms(1)] by (simp add: is_root_def path_of_def)
  with True show ?thesis by (simp add: covers_def)
next
  case False
  note c = command_wf_path [OF assms(1)] and d = command_wf_path [OF assms(2)]
  obtain a cs where a: "segments c = a # cs" using False by (cases "segments c") auto
  have "a \<noteq> []" using c a by (simp add: seg_ok_def)
  then have path: "cmd_str c = concat (map (\<lambda>s. slash # s) (segments c))" "\<not> is_root c"
    using c a by (auto simp: path_of_def is_root_def)
  have starts: "rest = [] \<or> starts_with_char slash rest \<longleftrightarrow> rest = [] \<or> hd rest = slash" for rest
    by (cases rest) auto
  have "covers c d \<longleftrightarrow> (\<exists>rest. cmd_str d = cmd_str c @ rest \<and> (rest = [] \<or> hd rest = slash))"
  proof (cases "strip_prefix (cmd_str c) (cmd_str d)")
    case None
    then have "cmd_str d \<noteq> cmd_str c @ rest" for rest by (metis strip_prefix_Some option.simps(3))
    with None path(2) show ?thesis by (simp add: covers_def)
  next
    case (Some rest)
    then have "cmd_str d = cmd_str c @ rest" by (simp add: strip_prefix_Some)
    with Some path(2) show ?thesis by (simp add: covers_def starts)
  qed
  also have "\<dots> \<longleftrightarrow> (\<exists>es. segments d = segments c @ es)"
  proof (cases "segments d = []")
    case True
    then show ?thesis using path a \<open>a \<noteq> []\<close> d by (auto simp: path_of_def)
  next
    case False
    then have "cmd_str d = concat (map (\<lambda>s. slash # s) (segments d))" using d by (simp add: path_of_def)
    moreover have "concat (map (\<lambda>s. slash # s) es) = [] \<or> hd (concat (map (\<lambda>s. slash # s) es)) = slash" for es
      by (cases es) auto
    ultimately show ?thesis using path_strip_prefix [of "segments c" "segments d"] c d path by auto
  qed
  finally show ?thesis .
qed

section \<open>The interface the validator relies on\<close>

text \<open>
  Authority along a chain: each link may only narrow, so the first link is at least as wide as every
  later one.
\<close>

locale attenuation =
  fixes ok :: "'a \<Rightarrow> bool"
    and le :: "'a \<Rightarrow> 'a \<Rightarrow> bool"
  assumes le_refl: "ok a \<Longrightarrow> le a a"
    and le_trans: "ok a \<Longrightarrow> ok b \<Longrightarrow> ok c \<Longrightarrow> le a b \<Longrightarrow> le b c \<Longrightarrow> le a c"
begin

lemma chain_first:
  "(\<And>i. Suc i < length xs \<Longrightarrow> le (xs ! i) (xs ! Suc i)) \<Longrightarrow> (\<And>x. x \<in> set xs \<Longrightarrow> ok x) \<Longrightarrow>
    i < length xs \<Longrightarrow> le (xs ! 0) (xs ! i)"
proof (induction i)
  case 0
  then show ?case by (simp add: le_refl)
next
  case (Suc i)
  then have "le (xs ! 0) (xs ! i)" "le (xs ! i) (xs ! Suc i)" by simp_all
  moreover have "ok (xs ! 0)" "ok (xs ! i)" "ok (xs ! Suc i)"
    using Suc.prems(2,3) by (auto intro!: Suc.prems(2) nth_mem)
  ultimately show ?case using le_trans by blast
qed

lemma chain_between:
  assumes "\<And>i. Suc i < length xs \<Longrightarrow> le (xs ! i) (xs ! Suc i)" "\<And>x. x \<in> set xs \<Longrightarrow> ok x"
    and "i \<le> j" "j < length xs"
  shows "le (xs ! i) (xs ! j)"
proof -
  have "le (drop i xs ! 0) (drop i xs ! (j - i))"
    using assms by (intro chain_first) (auto dest: in_set_dropD)
  with assms(3,4) show ?thesis by simp
qed

end

interpretation command_order: attenuation "command_wf upper" covers for upper
proof unfold_locales
  fix a b c
  show "covers a a" if "command_wf upper a" using that by (simp add: covers_iff_prefix)
  show "covers a c" if "command_wf upper a" "command_wf upper b" "command_wf upper c" "covers a b" "covers b c"
    using that by (auto simp: covers_iff_prefix)
qed

section \<open>Properties\<close>

text \<open>C7. On commands the parser accepts, coverage is the prefix order on segments: \<open>/crud\<close>
  covers \<open>/crud/read\<close> and not \<open>/crudite\<close>, and the root covers everything.\<close>

theorem command_covers_segments:
  assumes "command_parse upper s = Ok c" "command_parse upper t = Ok d"
  shows "covers c d \<longleftrightarrow> take (length (segments c)) (segments d) = segments c"
proof -
  have "command_wf upper c" "command_wf upper d"
    using assms by (auto intro: command_parse_wf)
  then have "covers c d \<longleftrightarrow> (\<exists>es. segments d = segments c @ es)" by (rule covers_iff_prefix)
  also have "\<dots> \<longleftrightarrow> take (length (segments c)) (segments d) = segments c"
    by (metis append_eq_conv_conj append_take_drop_id)
  finally show ?thesis .
qed

definition ascii_upper :: "uchar \<Rightarrow> bool" where
  "ascii_upper c \<longleftrightarrow> is_ascii_uppercase c"

theorem command_covers_segments_witness:
  "covers (Command (lit ''/crud'')) (Command (lit ''/crud/read''))
    \<and> \<not> covers (Command (lit ''/crud'')) (Command (lit ''/crudite''))"
proof -
  have p: "command_parse ascii_upper (lit ''/crud'') = Ok (Command (lit ''/crud''))"
    "command_parse ascii_upper (lit ''/crud/read'') = Ok (Command (lit ''/crud/read''))"
    "command_parse ascii_upper (lit ''/crudite'') = Ok (Command (lit ''/crudite''))"
    by (simp_all add: command_parse_def ends_with_char_def ascii_upper_def char_class_defs)
  show ?thesis
    using command_covers_segments [OF p(1) p(2)] command_covers_segments [OF p(1) p(3)]
    by (simp add: segments_def segments_of_def)
qed

end
