(* ===== verification/Nonce.thy ===== *)
theory Nonce
  imports Prelude
begin

text \<open>\<open>nonce.rs\<close>: the bytes that make a token unique. The random source is an argument.\<close>

datatype nonce = Nonce (nonce_bytes: "byte list")

definition RANDOM_LEN :: nat where "RANDOM_LEN = 12"

definition nonce_random :: "(nat \<Rightarrow> 'r \<Rightarrow> byte list \<times> 'r) \<Rightarrow> 'r \<Rightarrow> nonce \<times> 'r" where
  "nonce_random fill_bytes rng = (let (bs, rng) = fill_bytes RANDOM_LEN rng in (Nonce bs, rng))"

definition nonce_empty :: nonce where "nonce_empty = Nonce []"

definition nonce_from_bytes :: "byte list \<Rightarrow> nonce" where
  "nonce_from_bytes bs = Nonce bs"

definition nonce_is_empty :: "nonce \<Rightarrow> bool" where
  "nonce_is_empty n \<longleftrightarrow> nonce_bytes n = []"

end
