(* ===== verification/Time.thy ===== *)
theory Time
  imports Prelude
begin

text \<open>
  \<open>time.rs\<close>: timestamps bounded to 53 bits, expiries, and moving a timestamp by a skew. The
  \<open>i64\<close> inside a \<open>Timestamp\<close> is an \<open>int\<close> here with \<open>saturating_add\<close> and
  \<open>saturating_sub\<close> written out; \<open>ts_wf\<close> is the bound that the private field keeps.
  The window check that names \<open>crate::Error\<close> is in \<open>Token_Error\<close>.
\<close>

datatype timestamp = Timestamp (as_unix: int)

datatype time_error = OutOfRange

definition ts_max :: int where "ts_max = 2 ^ 53 - 1"
definition ts_min :: int where "ts_min = - (2 ^ 53 - 1)"

definition i64_max :: int where "i64_max = 2 ^ 63 - 1"
definition i64_min :: int where "i64_min = - (2 ^ 63)"

definition i64_saturating_add :: "int \<Rightarrow> int \<Rightarrow> int" where
  "i64_saturating_add a b = max i64_min (min i64_max (a + b))"

definition i64_saturating_sub :: "int \<Rightarrow> int \<Rightarrow> int" where
  "i64_saturating_sub a b = max i64_min (min i64_max (a - b))"

definition from_unix :: "int \<Rightarrow> time_error + timestamp" where
  "from_unix seconds = (if ts_min \<le> seconds \<and> seconds \<le> ts_max then Ok (Timestamp seconds) else Err OutOfRange)"

definition plus_seconds :: "timestamp \<Rightarrow> 32 word \<Rightarrow> timestamp" where
  "plus_seconds t seconds = Timestamp (min (i64_saturating_add (as_unix t) (uint seconds)) ts_max)"

definition minus_seconds :: "timestamp \<Rightarrow> 32 word \<Rightarrow> timestamp" where
  "minus_seconds t seconds = Timestamp (max (i64_saturating_sub (as_unix t) (uint seconds)) ts_min)"

instantiation timestamp :: linorder
begin

definition less_eq_timestamp :: "timestamp \<Rightarrow> timestamp \<Rightarrow> bool" where
  "s \<le> t \<longleftrightarrow> as_unix s \<le> as_unix t"

definition less_timestamp :: "timestamp \<Rightarrow> timestamp \<Rightarrow> bool" where
  "s < t \<longleftrightarrow> as_unix s < as_unix t"

instance
  by standard (auto simp: less_eq_timestamp_def less_timestamp_def timestamp.expand)

end

datatype expiry = At timestamp | Never

definition is_past :: "expiry \<Rightarrow> timestamp \<Rightarrow> 32 word \<Rightarrow> bool" where
  "is_past e now skew = (case e of At at \<Rightarrow> now > plus_seconds at skew | Never \<Rightarrow> False)"

text \<open>The clocks: a fixed one, and the system clock over the seconds since the epoch that the
  platform reports (\<open>None\<close> when the platform's time is before the epoch).\<close>

definition fixed_clock_now :: "timestamp \<Rightarrow> timestamp" where
  "fixed_clock_now t = t"

definition system_clock_now :: "64 word option \<Rightarrow> timestamp" where
  "system_clock_now since_epoch =
     (let seconds = (case since_epoch of None \<Rightarrow> 0
                     | Some d \<Rightarrow> if uint d \<le> i64_max then uint d else i64_max)
      in Timestamp (max ts_min (min ts_max seconds)))"

section \<open>The 53-bit bound\<close>

definition ts_wf :: "timestamp \<Rightarrow> bool" where
  "ts_wf t \<longleftrightarrow> ts_min \<le> as_unix t \<and> as_unix t \<le> ts_max"

definition expiry_wf :: "expiry \<Rightarrow> bool" where
  "expiry_wf e \<longleftrightarrow> (case e of At t \<Rightarrow> ts_wf t | Never \<Rightarrow> True)"

lemmas ts_bounds = ts_min_def ts_max_def i64_min_def i64_max_def

lemma u32_bound: "0 \<le> uint (s :: 32 word) \<and> uint s < 4294967296"
  by (auto intro: order_less_le_trans [OF unsigned_less])

lemma from_unix_Ok: "from_unix s = Ok t \<longleftrightarrow> t = Timestamp s \<and> ts_wf t"
  by (auto simp: from_unix_def ts_wf_def)

text \<open>The \<open>i64\<close> saturation is never reached from a timestamp: only the 53-bit clamp is.\<close>

lemma no_i64_saturation:
  assumes "ts_min \<le> a" "a \<le> ts_max" "0 \<le> b" "b < 4294967296"
  shows "i64_saturating_add a b = a + b" "i64_saturating_sub a b = a - b"
  using assms by (simp_all add: i64_saturating_add_def i64_saturating_sub_def ts_bounds min_def max_def)

lemma plus_seconds_exact: "ts_wf t \<Longrightarrow> as_unix (plus_seconds t s) = min (as_unix t + uint s) ts_max"
  using no_i64_saturation [of "as_unix t" "uint s"] u32_bound [of s] by (simp add: ts_wf_def plus_seconds_def)

lemma minus_seconds_exact: "ts_wf t \<Longrightarrow> as_unix (minus_seconds t s) = max (as_unix t - uint s) ts_min"
  using no_i64_saturation [of "as_unix t" "uint s"] u32_bound [of s] by (simp add: ts_wf_def minus_seconds_def)

lemma plus_seconds_wf [simp, intro]: "ts_wf t \<Longrightarrow> ts_wf (plus_seconds t s)"
  unfolding ts_wf_def [of "plus_seconds t s"] plus_seconds_exact
  by (auto simp: ts_wf_def min_le_iff_disj ts_bounds intro: add_increasing2)

lemma minus_seconds_wf [simp, intro]: "ts_wf t \<Longrightarrow> ts_wf (minus_seconds t s)"
proof -
  assume t: "ts_wf t"
  have "as_unix t - uint s \<le> as_unix t" by simp
  then have "as_unix t - uint s \<le> ts_max" using t unfolding ts_wf_def by linarith
  then show ?thesis using t unfolding ts_wf_def [of "minus_seconds t s"] minus_seconds_exact [OF t]
    by (simp add: ts_bounds)
qed

lemma system_clock_now_wf: "ts_wf (system_clock_now d)"
  by (auto simp: ts_wf_def system_clock_now_def ts_bounds split: option.split)

lemma ts_less: "s < t \<longleftrightarrow> as_unix s < as_unix t"
  by (simp add: less_timestamp_def)

text \<open>Against a clock in range, the clamp makes no difference to a comparison.\<close>

lemma after_plus_seconds: "ts_wf now \<Longrightarrow> ts_wf t \<Longrightarrow> plus_seconds t s < now \<longleftrightarrow> as_unix t + uint s < as_unix now"
  by (auto simp: ts_less plus_seconds_exact ts_wf_def)

lemma before_minus_seconds: "ts_wf now \<Longrightarrow> ts_wf t \<Longrightarrow> now < minus_seconds t s \<longleftrightarrow> as_unix now < as_unix t - uint s"
  by (auto simp: ts_less minus_seconds_exact ts_wf_def)

lemma is_past_iff:
  "ts_wf now \<Longrightarrow> expiry_wf e \<Longrightarrow>
    is_past e now s \<longleftrightarrow> (\<exists>t. e = At t \<and> as_unix t + uint s < as_unix now)"
  by (cases e) (auto simp: is_past_def expiry_wf_def after_plus_seconds)

text \<open>Once past, always past.\<close>

lemma is_past_mono: "is_past e now s \<Longrightarrow> now \<le> later \<Longrightarrow> is_past e later s"
  by (cases e) (auto simp: is_past_def)

end
