(* ===== verification/Selector.thy ===== *)
theory Selector
  imports Ipld Time
begin

text \<open>
  \<open>policy/selector.rs\<close>: paths into an invocation's \<open>args\<close>. Parsing works on the list of characters
  and an index into it, as the source does; \<open>chars.get(i)\<close> is \<open>nth_opt chars i\<close>.
\<close>

datatype kind =
    KKey str
  | KValues
  | KIndex int
  | KSlice "int option" "int option"

record segment =
  seg_kind :: kind
  seg_optional :: bool

record selector =
  sel_text :: str
  sel_segments :: "segment list"

datatype selector_error =
    SelEmpty
  | MissingLeadingDot
  | DoubleDot
  | TrailingDot
  | DanglingOptional
  | Unexpected nat
  | UnterminatedString
  | BadEscape
  | BadIndex

abbreviation dot :: uchar where "dot \<equiv> ascii CHR ''.''"
abbreviation lbracket :: uchar where "lbracket \<equiv> ascii CHR ''[''"
abbreviation rbracket :: uchar where "rbracket \<equiv> ascii CHR '']''"
abbreviation question :: uchar where "question \<equiv> ascii CHR ''?''"
abbreviation minus_sign :: uchar where "minus_sign \<equiv> ascii CHR ''-''"
abbreviation colon_char :: uchar where "colon_char \<equiv> ascii CHR '':''"
abbreviation dquote :: uchar where "dquote \<equiv> ascii (CHR 0x22)"
abbreviation bslash :: uchar where "bslash \<equiv> ascii (CHR 0x5C)"
abbreviation underscore :: uchar where "underscore \<equiv> ascii (CHR 0x5F)"

definition identity :: selector where
  "identity = \<lparr>sel_text = [dot], sel_segments = []\<rparr>"

definition is_ident_start :: "uchar \<Rightarrow> bool" where
  "is_ident_start c \<longleftrightarrow> is_ascii_alphabetic c \<or> c = underscore"

definition is_ident :: "uchar \<Rightarrow> bool" where
  "is_ident c \<longleftrightarrow> is_ascii_alphanumeric c \<or> c = underscore"

section \<open>Parsing\<close>

text \<open>\<open>while let Some(c) = chars.get(i).filter(p) { push(c); i += 1 }\<close>: what it pushes.\<close>

definition run_from :: "(uchar \<Rightarrow> bool) \<Rightarrow> str \<Rightarrow> nat \<Rightarrow> str" where
  "run_from p chars i = takeWhile p (drop i chars)"

definition integer_at :: "str \<Rightarrow> nat \<Rightarrow> selector_error + (int option \<times> nat)" where
  "integer_at chars start =
     (let sign = (if nth_opt chars start = Some minus_sign then [minus_sign] else []);
          digits = run_from is_ascii_digit chars (start + length sign);
          txt = sign @ digits;
          i = start + length txt
      in if txt = [] then Ok (None, i)
         else map_ok (\<lambda>n. (Some n, i)) (ok_or BadIndex (parse_int i64_min i64_max txt)))"

text \<open>The character after a backslash at index \<open>i\<close>, and the index past the escape.\<close>

definition escape_at :: "str \<Rightarrow> nat \<Rightarrow> selector_error + (uchar \<times> nat)" where
  "escape_at chars i =
     (case nth_opt chars i of
        None \<Rightarrow> Err BadEscape
      | Some c \<Rightarrow>
          if c = dquote then Ok (dquote, i + 1)
          else if c = bslash then Ok (bslash, i + 1)
          else if c = ascii CHR ''/'' then Ok (ascii CHR ''/'', i + 1)
          else if c = ascii CHR ''b'' then Ok (uchar_of 0x08, i + 1)
          else if c = ascii CHR ''f'' then Ok (uchar_of 0x0C, i + 1)
          else if c = ascii CHR ''n'' then Ok (uchar_of 0x0A, i + 1)
          else if c = ascii CHR ''r'' then Ok (uchar_of 0x0D, i + 1)
          else if c = ascii CHR ''t'' then Ok (uchar_of 0x09, i + 1)
          else if c = ascii CHR ''u'' then
            res_bind (ok_or BadEscape (slice_get (i + 1) (i + 5) chars)) (\<lambda>hex.
            res_bind (ok_or BadEscape (u32_from_hex hex)) (\<lambda>code.
            res_bind (ok_or BadEscape (char_from_u32 code)) (\<lambda>e.
            Ok (e, i + 5))))
          else Err BadEscape)"

lemma nth_opt_less: "nth_opt xs i = Some x \<Longrightarrow> i < length xs"
  by simp

lemma escape_at_advances: "escape_at chars i = Ok (c, j) \<Longrightarrow> i < j"
  by (auto simp: escape_at_def res_simps split: option.split_asm if_split_asm)

function quoted_loop :: "str \<Rightarrow> nat \<Rightarrow> str \<Rightarrow> selector_error + (str \<times> nat)" where
  "quoted_loop chars i out =
     (case nth_opt chars i of
        None \<Rightarrow> Err UnterminatedString
      | Some c \<Rightarrow>
          if c = dquote then Ok (out, i + 1)
          else if c = bslash then
            res_bind (escape_at chars (i + 1)) (\<lambda>(escaped, j). quoted_loop chars j (out @ [escaped]))
          else quoted_loop chars (i + 1) (out @ [c]))"
  by pat_completeness auto
termination
  by (relation "measure (\<lambda>(chars, i, out). length chars - i)")
    (auto dest!: escape_at_advances)

declare quoted_loop.simps [simp del]

definition quoted :: "str \<Rightarrow> nat \<Rightarrow> selector_error + (str \<times> nat)" where
  "quoted chars start = quoted_loop chars start []"

text \<open>The closing bracket a segment must have at index \<open>i\<close>.\<close>

definition close_bracket :: "str \<Rightarrow> kind \<Rightarrow> nat \<Rightarrow> selector_error + (kind \<times> nat)" where
  "close_bracket chars k i =
     (if nth_opt chars i = Some rbracket then Ok (k, i + 1) else Err (Unexpected i))"

definition bracket :: "str \<Rightarrow> nat \<Rightarrow> selector_error + (kind \<times> nat)" where
  "bracket chars start =
     (case nth_opt chars start of
        None \<Rightarrow> Err (Unexpected start)
      | Some c \<Rightarrow>
          if c = rbracket then Ok (KValues, start + 1)
          else if c = dquote then
            res_bind (quoted chars (start + 1)) (\<lambda>(key, i). close_bracket chars (KKey key) i)
          else if c = minus_sign \<or> c = colon_char \<or> is_ascii_digit c then
            res_bind (integer_at chars start) (\<lambda>(first, i).
            if nth_opt chars i = Some colon_char then
              res_bind (integer_at chars (i + 1)) (\<lambda>(second, i).
              close_bracket chars (KSlice first second) i)
            else
              res_bind (ok_or BadIndex first) (\<lambda>n. close_bracket chars (KIndex n) i))
          else Err (Unexpected start))"

lemma quoted_loop_advances: "quoted_loop chars i out = Ok (s, j) \<Longrightarrow> i < j"
proof (induction chars i out arbitrary: s j rule: quoted_loop.induct)
  case (1 chars i out)
  obtain c where c: "nth_opt chars i = Some c"
    using "1.prems" by (cases "nth_opt chars i") (auto simp: quoted_loop.simps)
  consider "c = dquote" | "c \<noteq> dquote" "c = bslash" | "c \<noteq> dquote" "c \<noteq> bslash" by blast
  then show ?case
  proof cases
    case 1
    with "1.prems" c show ?thesis by (simp add: quoted_loop.simps)
  next
    case 2
    with "1.prems" c obtain e k where e: "escape_at chars (i + 1) = Ok (e, k)"
      "quoted_loop chars k (out @ [e]) = Ok (s, j)"
      by (subst (asm) quoted_loop.simps) (auto simp: res_simps)
    then have "k < j" using "1.IH"(1) [OF c 2 e(1) refl] by blast
    with escape_at_advances [OF e(1)] show ?thesis by simp
  next
    case 3
    then have "quoted_loop chars (i + 1) (out @ [c]) = Ok (s, j)"
      using "1.prems" c by (subst (asm) quoted_loop.simps) simp
    then show ?thesis using "1.IH"(2) [OF c 3] by force
  qed
qed

lemma integer_at_advances: "integer_at chars i = Ok (n, j) \<Longrightarrow> i \<le> j"
  by (auto simp: integer_at_def Let_def res_simps split: if_split_asm)

lemma close_bracket_advances: "close_bracket chars k i = Ok (k', j) \<Longrightarrow> i < j"
  by (auto simp: close_bracket_def split: if_split_asm)

lemma bracket_advances: "bracket chars i = Ok (k, j) \<Longrightarrow> i < j"
  by (fastforce simp: bracket_def quoted_def res_simps split: option.split_asm if_split_asm
      dest!: quoted_loop_advances integer_at_advances close_bracket_advances)

text \<open>\<open>segments.last_mut().optional = true\<close>.\<close>

definition mark_last_optional :: "segment list \<Rightarrow> segment list" where
  "mark_last_optional segs = butlast segs @ [(last segs)\<lparr>seg_optional := True\<rparr>]"

lemma run_from_start: "i < length chars \<Longrightarrow> p (chars ! i) \<Longrightarrow> run_from p chars i \<noteq> []"
  by (simp add: run_from_def Cons_nth_drop_Suc [symmetric])

lemma ident_start: "is_ident_start c \<Longrightarrow> is_ident c"
  by (auto simp: is_ident_start_def is_ident_def is_ascii_alphanumeric_def)

lemma ident_run_shorter:
  "i < length chars \<Longrightarrow> is_ident_start (chars ! i) \<Longrightarrow>
    length chars - (i + length (run_from is_ident chars i)) < length chars - i"
  using run_from_start [of i chars is_ident] ident_start by (simp add: diff_less_mono2)

function parse_loop :: "str \<Rightarrow> nat \<Rightarrow> bool \<Rightarrow> segment list \<Rightarrow> selector_error + segment list" where
  "parse_loop chars i dot_pending segs =
     (case nth_opt chars i of
        None \<Rightarrow> if dot_pending \<and> segs \<noteq> [] then Err TrailingDot else Ok segs
      | Some c \<Rightarrow>
          if c = dot then
            (if dot_pending then Err DoubleDot else parse_loop chars (i + 1) True segs)
          else if c = lbracket then
            res_bind (bracket chars (i + 1)) (\<lambda>(k, next_i).
            parse_loop chars next_i False (segs @ [\<lparr>seg_kind = k, seg_optional = False\<rparr>]))
          else if c = question then
            (if segs \<noteq> [] \<and> \<not> dot_pending then parse_loop chars (i + 1) dot_pending (mark_last_optional segs)
             else Err DanglingOptional)
          else if is_ident_start c then
            (if \<not> dot_pending then Err (Unexpected i)
             else let name = run_from is_ident chars i in
               parse_loop chars (i + length name) False
                 (segs @ [\<lparr>seg_kind = KKey name, seg_optional = False\<rparr>]))
          else Err (Unexpected i))"
  by pat_completeness auto
termination
  by (relation "measure (\<lambda>(chars, i, d, segs). length chars - i)")
    (auto dest!: bracket_advances intro: ident_run_shorter)

declare parse_loop.simps [simp del]

definition selector_parse :: "str \<Rightarrow> selector_error + selector" where
  "selector_parse txt =
     (if nth_opt txt 0 \<noteq> Some dot then Err (if txt = [] then SelEmpty else MissingLeadingDot)
      else map_ok (\<lambda>segs. \<lparr>sel_text = txt, sel_segments = segs\<rparr>) (parse_loop txt 1 True []))"

section \<open>Resolution\<close>

text \<open>\<open>index\<close>: a position counted from either end, \<open>None\<close> out of range.\<close>

definition index_of :: "nat \<Rightarrow> int \<Rightarrow> nat option" where
  "index_of len i =
     (if i < 0 then (if nat (- i) \<le> len then Some (len - nat (- i)) else None)
      else (if nat i < len then Some (nat i) else None))"

definition clamp_index :: "nat \<Rightarrow> int \<Rightarrow> nat" where
  "clamp_index len i = (if i < 0 then len - nat (- i) else min (nat i) len)"

definition bounds :: "nat \<Rightarrow> int option \<Rightarrow> int option \<Rightarrow> nat \<times> nat" where
  "bounds len from to =
     (let start = (case from of None \<Rightarrow> 0 | Some i \<Rightarrow> clamp_index len i);
          stop = max (case to of None \<Rightarrow> len | Some i \<Rightarrow> clamp_index len i) start
      in (start, stop))"

fun step :: "'c ipld \<Rightarrow> kind \<Rightarrow> 'c ipld option" where
  "step (IMap m) (KKey key) = Some (case bt_get m key of Some v \<Rightarrow> v | None \<Rightarrow> INull)"
| "step (IList vs) KValues = Some (IList vs)"
| "step (IMap m) KValues = Some (IList (bt_values m))"
| "step (IList vs) (KIndex i) = Option.bind (index_of (length vs) i) (nth_opt vs)"
| "step (IBytes bs) (KIndex i) =
     map_option (\<lambda>b. IInteger (int (unat b))) (Option.bind (index_of (length bs) i) (nth_opt bs))"
| "step (IList vs) (KSlice from to) =
     (let (s, e) = bounds (length vs) from to in map_option IList (slice_get s e vs))"
| "step (IBytes bs) (KSlice from to) =
     (let (s, e) = bounds (length bs) from to in map_option IBytes (slice_get s e bs))"
| "step _ _ = None"

fun resolve_from :: "segment list \<Rightarrow> 'c ipld \<Rightarrow> 'c ipld option" where
  "resolve_from [] current = Some current"
| "resolve_from (seg # segs) current =
     (case step current (seg_kind seg) of
        Some v \<Rightarrow> resolve_from segs v
      | None \<Rightarrow> if seg_optional seg then Some INull else None)"

definition resolve :: "selector \<Rightarrow> 'c ipld \<Rightarrow> 'c ipld option" where
  "resolve sel root_value = resolve_from (sel_segments sel) root_value"

lemma index_of_less: "index_of len i = Some n \<Longrightarrow> n < len"
  by (auto simp: index_of_def split: if_splits)

lemma bounds_within: "bounds len from to = (s, e) \<Longrightarrow> s \<le> e \<and> e \<le> len"
  by (auto simp: bounds_def clamp_index_def Let_def split: option.splits)

text \<open>Taking a step never leaves well-formed values.\<close>

lemma step_wf: "ipld_wf v \<Longrightarrow> step v k = Some w \<Longrightarrow> ipld_wf w"
proof (induction v k rule: step.induct)
  case (1 m key)
  then show ?case by (auto simp: bt_get_def split: option.splits dest!: map_of_SomeD)
next
  case (3 m)
  then show ?case by (auto simp: bt_values_def)
next
  case (4 vs i)
  then show ?case by (auto simp: bind_eq_Some_conv)
next
  case (5 bs i)
  have "i128_min \<le> int (unat b) \<and> int (unat b) \<le> i128_max" for b :: byte
  proof -
    have "256 \<le> i128_max" "i128_min \<le> 0" by (simp_all add: i128_max_def i128_min_def)
    then show ?thesis using unat_byte_bound [of b] by linarith
  qed
  then show ?case using 5 by (auto simp: bind_eq_Some_conv simp del: unat_eq_nat_uint int_nat_eq)
next
  case (6 vs a b)
  then show ?case
    by (auto simp: slice_get_def split: prod.split_asm if_split_asm dest!: in_set_takeD in_set_dropD)
qed (auto simp: slice_get_def split: prod.split_asm if_split_asm)

text \<open>Following every segment, with no allowance for \<open>?\<close>.\<close>

fun resolve_strict :: "segment list \<Rightarrow> 'c ipld \<Rightarrow> 'c ipld option" where
  "resolve_strict [] current = Some current"
| "resolve_strict (seg # segs) current = Option.bind (step current (seg_kind seg)) (resolve_strict segs)"

lemma resolve_from_append:
  "resolve_from (xs @ ys) v =
    (case resolve_strict xs v of Some w \<Rightarrow> resolve_from ys w | None \<Rightarrow> resolve_from xs v)"
proof (induction xs arbitrary: v)
  case (Cons x xs)
  then show ?case by (cases "step v (seg_kind x)") (simp_all split: option.split)
qed simp

section \<open>Writing selectors\<close>

text \<open>
  A canonical text for a list of segments: keys quoted, with the quote and the backslash escaped.
  That it parses back to the same segments says that every path can be written, whatever the
  characters in its keys.
\<close>

fun quote_chars :: "str \<Rightarrow> str" where
  "quote_chars [] = []"
| "quote_chars (c # s) = (if c = dquote \<or> c = bslash then [bslash, c] else [c]) @ quote_chars s"

definition opt_int :: "int option \<Rightarrow> str" where
  "opt_int n = (case n of None \<Rightarrow> [] | Some i \<Rightarrow> int_to_str i)"

fun kind_text :: "kind \<Rightarrow> str" where
  "kind_text (KKey k) = [dquote] @ quote_chars k @ [dquote]"
| "kind_text KValues = []"
| "kind_text (KIndex i) = int_to_str i"
| "kind_text (KSlice a b) = opt_int a @ [colon_char] @ opt_int b"

definition segment_text :: "segment \<Rightarrow> str" where
  "segment_text seg = [lbracket] @ kind_text (seg_kind seg) @ [rbracket] @ (if seg_optional seg then [question] else [])"

definition selector_text :: "segment list \<Rightarrow> str" where
  "selector_text segs = [dot] @ concat (map segment_text segs)"

definition i64_ok :: "int option \<Rightarrow> bool" where
  "i64_ok n \<longleftrightarrow> (case n of None \<Rightarrow> True | Some i \<Rightarrow> i64_min \<le> i \<and> i \<le> i64_max)"

fun kind_ok :: "kind \<Rightarrow> bool" where
  "kind_ok (KIndex i) \<longleftrightarrow> i64_ok (Some i)"
| "kind_ok (KSlice a b) \<longleftrightarrow> i64_ok a \<and> i64_ok b"
| "kind_ok _ \<longleftrightarrow> True"

lemma nth_opt_at: "i = length pre \<Longrightarrow> nth_opt (pre @ c # post) i = Some c"
  by (simp add: nth_opt_def)

lemma quoted_loop_text:
  "quoted_loop (pre @ quote_chars s @ dquote # post) (length pre) out =
    Ok (out @ s, length pre + length (quote_chars s) + 1)"
proof (induction s arbitrary: pre out)
  case Nil
  then show ?case by (subst quoted_loop.simps) (simp add: nth_opt_at)
next
  case (Cons c s)
  show ?case
  proof (cases "c = dquote \<or> c = bslash")
    case True
    have whole: "pre @ quote_chars (c # s) @ dquote # post = pre @ bslash # c # quote_chars s @ dquote # post"
      using True by simp
    have "nth_opt (pre @ bslash # c # quote_chars s @ dquote # post) (length pre) = Some bslash"
      by (simp add: nth_opt_at)
    moreover have "nth_opt (pre @ bslash # c # quote_chars s @ dquote # post) (length pre + 1) = Some c"
      using nth_opt_at [of _ "pre @ [bslash]"] by simp
    then have "escape_at (pre @ bslash # c # quote_chars s @ dquote # post) (length pre + 1) = Ok (c, length pre + 2)"
      using True by (auto simp: escape_at_def simp del: nth_opt_Some)
    ultimately show ?thesis unfolding whole
      using True Cons.IH [of "pre @ [bslash, c]" "out @ [c]"]
      by (subst quoted_loop.simps) (auto simp: add.commute simp del: nth_opt_Some)
  next
    case False
    have whole: "pre @ quote_chars (c # s) @ dquote # post = pre @ c # quote_chars s @ dquote # post"
      using False by simp
    have "nth_opt (pre @ c # quote_chars s @ dquote # post) (length pre) = Some c"
      by (simp add: nth_opt_at)
    then show ?thesis unfolding whole
      using False Cons.IH [of "pre @ [c]" "out @ [c]"]
      by (subst quoted_loop.simps) (simp del: nth_opt_Some)
  qed
qed

lemma int_to_str_split:
  "int_to_str i = (if i < 0 then [minus_sign] else []) @ nat_to_str (nat \<bar>i\<bar>)"
  by (auto simp: int_to_str_def)

lemma run_from_digits:
  "list_all is_ascii_digit ds \<Longrightarrow> \<not> is_ascii_digit c \<Longrightarrow> i = length pre \<Longrightarrow>
    run_from is_ascii_digit (pre @ ds @ c # post) i = ds"
  by (simp add: run_from_def takeWhile_append1 takeWhile_append2 list_all_iff)

lemma integer_at_text:
  assumes "i64_ok n" "\<not> is_ascii_digit c" "c \<noteq> minus_sign"
  shows "integer_at (pre @ opt_int n @ c # post) (length pre) = Ok (n, length pre + length (opt_int n))"
proof (cases n)
  case None
  then show ?thesis using assms run_from_digits [of "[]" c "length pre" pre post]
    by (simp add: integer_at_def opt_int_def nth_opt_at Let_def)
next
  case (Some i)
  let ?ds = "nat_to_str (nat \<bar>i\<bar>)"
  have range: "i64_min \<le> i" "i \<le> i64_max" using assms(1) Some by (auto simp: i64_ok_def)
  obtain d ds where ds: "?ds = d # ds" "is_ascii_digit d"
    using nat_to_str_digits [of "nat \<bar>i\<bar>"] by (cases ?ds) auto
  show ?thesis
  proof (cases "i < 0")
    case True
    have "nth_opt (pre @ minus_sign # ?ds @ c # post) (length pre) = Some minus_sign"
      by (simp add: nth_opt_at)
    moreover have "run_from is_ascii_digit (pre @ minus_sign # ?ds @ c # post) (length pre + 1) = ?ds"
      using run_from_digits [of ?ds c "length pre + 1" "pre @ [minus_sign]" post] assms(2) nat_to_str_digits
      by simp
    ultimately show ?thesis using Some True range parse_int_int_to_str [of i64_min i i64_max]
      by (simp add: integer_at_def opt_int_def int_to_str_split Let_def del: nth_opt_Some)
  next
    case False
    have "nth_opt (pre @ ?ds @ c # post) (length pre) = Some d"
      using ds by (simp add: nth_opt_at)
    moreover have "d \<noteq> minus_sign" using ds(2) digit_not_sign by blast
    moreover have "run_from is_ascii_digit (pre @ ?ds @ c # post) (length pre) = ?ds"
      using run_from_digits [of ?ds c "length pre" pre post] assms(2) nat_to_str_digits by simp
    ultimately show ?thesis using Some False range parse_int_int_to_str [of i64_min i i64_max]
      by (simp add: integer_at_def opt_int_def int_to_str_split Let_def del: nth_opt_Some)
  qed
qed

lemma opt_int_first:
  obtains d where "nth_opt (pre @ opt_int n @ c # post) (length pre) = Some d"
    "if n = None then d = c else d = minus_sign \<or> is_ascii_digit d"
proof (cases n)
  case None
  then show thesis using that [of c] by (simp add: opt_int_def nth_opt_at)
next
  case (Some i)
  obtain d ds where "int_to_str i = d # ds" "d = minus_sign \<or> is_ascii_digit d"
    using nat_to_str_digits [of "nat \<bar>i\<bar>"]
    by (cases "i < 0"; cases "nat_to_str (nat \<bar>i\<bar>)") (auto simp: int_to_str_split)
  then show thesis using that [of d] Some by (simp add: opt_int_def nth_opt_at)
qed

lemma digit_facts: "is_ascii_digit d \<Longrightarrow> d \<noteq> rbracket \<and> d \<noteq> dquote \<and> d \<noteq> colon_char"
  by (auto simp: char_class_defs)

lemma not_digits: "\<not> is_ascii_digit rbracket" "\<not> is_ascii_digit colon_char"
  by (simp_all add: char_class_defs)

lemma bracket_text:
  assumes "kind_ok k"
  shows "bracket (pre @ kind_text k @ rbracket # post) (length pre) =
    Ok (k, length pre + length (kind_text k) + 1)"
proof (cases k)
  case (KKey s)
  have "quoted (pre @ dquote # quote_chars s @ dquote # rbracket # post) (length pre + 1) =
      Ok (s, length pre + length (quote_chars s) + 2)"
    using quoted_loop_text [of "pre @ [dquote]" s "rbracket # post" "[]"] by (simp add: quoted_def)
  moreover have "nth_opt (pre @ dquote # quote_chars s @ dquote # rbracket # post)
      (length pre + length (quote_chars s) + 2) = Some rbracket"
    using nth_opt_at [of _ "pre @ dquote # quote_chars s @ [dquote]" rbracket post] by simp
  moreover have "nth_opt (pre @ dquote # quote_chars s @ dquote # rbracket # post) (length pre) = Some dquote"
    by (simp add: nth_opt_at)
  ultimately show ?thesis using KKey by (simp add: bracket_def close_bracket_def del: nth_opt_Some)
next
  case KValues
  then show ?thesis by (simp add: bracket_def nth_opt_at)
next
  case (KIndex i)
  have whole: "kind_text k = opt_int (Some i)" by (simp add: KIndex opt_int_def)
  obtain d where d: "nth_opt (pre @ opt_int (Some i) @ rbracket # post) (length pre) = Some d"
    "d = minus_sign \<or> is_ascii_digit d" using opt_int_first [of pre "Some i" rbracket post] by auto
  have "integer_at (pre @ opt_int (Some i) @ rbracket # post) (length pre) =
      Ok (Some i, length pre + length (opt_int (Some i)))"
    using assms not_digits by (intro integer_at_text) (simp_all add: KIndex)
  moreover have "nth_opt (pre @ opt_int (Some i) @ rbracket # post) (length pre + length (opt_int (Some i))) = Some rbracket"
    using nth_opt_at [of _ "pre @ opt_int (Some i)"] by simp
  ultimately show ?thesis unfolding whole using KIndex d digit_facts
    by (auto simp: bracket_def close_bracket_def simp del: nth_opt_Some)
next
  case (KSlice a b)
  let ?t = "pre @ opt_int a @ colon_char # opt_int b @ rbracket # post"
  obtain d where d: "nth_opt ?t (length pre) = Some d" "d = colon_char \<or> d = minus_sign \<or> is_ascii_digit d"
    using opt_int_first [of pre a colon_char "opt_int b @ rbracket # post"] by (metis (full_types))
  have ok: "i64_ok a" "i64_ok b" using assms by (simp_all add: KSlice)
  have "integer_at ?t (length pre) = Ok (a, length pre + length (opt_int a))"
    using ok not_digits by (intro integer_at_text) simp_all
  moreover have "nth_opt ?t (length pre + length (opt_int a)) = Some colon_char"
    using nth_opt_at [of _ "pre @ opt_int a"] by simp
  moreover have "integer_at ?t (length pre + length (opt_int a) + 1) =
      Ok (b, length pre + length (opt_int a) + 1 + length (opt_int b))"
    using integer_at_text [OF ok(2), of rbracket "pre @ opt_int a @ [colon_char]" post] not_digits by simp
  moreover have "nth_opt ?t (length pre + length (opt_int a) + 1 + length (opt_int b)) = Some rbracket"
    using nth_opt_at [of _ "pre @ opt_int a @ colon_char # opt_int b" rbracket post] by (simp add: add.assoc)
  ultimately show ?thesis using KSlice d digit_facts
    by (auto simp: bracket_def close_bracket_def simp del: nth_opt_Some)
qed

lemma parse_loop_text:
  assumes "\<And>seg. seg \<in> set segs \<Longrightarrow> kind_ok (seg_kind seg)" "dp \<longrightarrow> acc = []"
  shows "parse_loop (pre @ concat (map segment_text segs)) (length pre) dp acc = Ok (acc @ segs)"
  using assms
proof (induction segs arbitrary: pre dp acc)
  case Nil
  have "nth_opt pre (length pre) = None" by simp
  then show ?case using Nil by (subst parse_loop.simps) (simp del: nth_opt_None)
next
  case (Cons seg segs)
  define k where "k = seg_kind seg"
  define rest where "rest = concat (map segment_text segs)"
  define opt where "opt = (if seg_optional seg then [question] else [])"
  let ?t = "pre @ lbracket # kind_text k @ rbracket # opt @ rest"
  have whole: "pre @ concat (map segment_text (seg # segs)) = ?t"
    by (simp add: segment_text_def k_def rest_def opt_def)
  let ?n = "length pre + length (kind_text k) + 2"
  have "bracket ?t (length pre + 1) = Ok (k, ?n)"
    using bracket_text [of k "pre @ [lbracket]" "opt @ rest"] Cons.prems(1) by (simp add: k_def)
  moreover have "nth_opt ?t (length pre) = Some lbracket" by (simp add: nth_opt_at)
  ultimately have first: "parse_loop ?t (length pre) dp acc =
      parse_loop ?t ?n False (acc @ [\<lparr>seg_kind = k, seg_optional = False\<rparr>])"
    by (subst parse_loop.simps) (simp del: nth_opt_Some)
  show ?case
  proof (cases "seg_optional seg")
    case True
    then have "seg = \<lparr>seg_kind = k, seg_optional = True\<rparr>" by (simp add: k_def)
    have "nth_opt ?t ?n = Some question"
      using nth_opt_at [of _ "pre @ lbracket # kind_text k @ [rbracket]" question rest] True by (simp add: opt_def)
    then have "parse_loop ?t ?n False (acc @ [\<lparr>seg_kind = k, seg_optional = False\<rparr>]) =
        parse_loop ?t (?n + 1) False (acc @ [seg])"
      using \<open>seg = _\<close> by (subst parse_loop.simps) (simp add: mark_last_optional_def del: nth_opt_Some)
    also have "\<dots> = Ok (acc @ seg # segs)"
      using Cons.IH [of False "acc @ [seg]" "pre @ lbracket # kind_text k @ [rbracket, question]"] Cons.prems(1) True
      by (simp add: rest_def opt_def)
    finally show ?thesis unfolding whole first .
  next
    case False
    then have "seg = \<lparr>seg_kind = k, seg_optional = False\<rparr>" by (simp add: k_def)
    then show ?thesis unfolding whole first
      using Cons.IH [of False "acc @ [seg]" "pre @ lbracket # kind_text k @ [rbracket]"] Cons.prems(1) False
      by (simp add: rest_def opt_def)
  qed
qed

section \<open>Properties\<close>

text \<open>C15. Every path can be written: the canonical text of a list of segments parses to exactly those
  segments, whatever characters its keys hold.\<close>

theorem selector_text_parses:
  assumes "\<forall>seg \<in> set segs. kind_ok (seg_kind seg)"
  shows "selector_parse (selector_text segs) = Ok \<lparr>sel_text = selector_text segs, sel_segments = segs\<rparr>"
  using assms parse_loop_text [of segs True "[]" "[dot]"]
  by (simp add: selector_parse_def selector_text_def nth_opt_at [of 0 "[]", simplified])

lemma digit_one: "digit_char (Suc 0) = ascii CHR ''1''"
  by (simp add: digit_char_def ascii_def)

theorem selector_text_parses_witness:
  "selector_parse (lit ''.['' @ [dquote] @ lit ''a'' @ [bslash, dquote] @ lit ''b'' @ [dquote] @ lit '']?[-1]'') =
    Ok \<lparr>sel_text = lit ''.['' @ [dquote] @ lit ''a'' @ [bslash, dquote] @ lit ''b'' @ [dquote] @ lit '']?[-1]'',
        sel_segments = [\<lparr>seg_kind = KKey (lit ''a'' @ [dquote] @ lit ''b''), seg_optional = True\<rparr>,
          \<lparr>seg_kind = KIndex (- 1), seg_optional = False\<rparr>]\<rparr>"
  using selector_text_parses [of "[\<lparr>seg_kind = KKey (lit ''a'' @ [dquote] @ lit ''b''), seg_optional = True\<rparr>,
          \<lparr>seg_kind = KIndex (- 1), seg_optional = False\<rparr>]"]
  by (simp add: selector_text_def segment_text_def i64_ok_def i64_min_def i64_max_def int_to_str_def
      nat_to_str.simps digit_one)

text \<open>C16. The first segment that fails decides: one marked \<open>?\<close> makes the selection \<open>null\<close>, any
  other fails the whole selector, whatever follows it.\<close>

theorem selector_first_failure:
  assumes "resolve_strict segs v = Some w" "step w (seg_kind seg) = None"
  shows "resolve \<lparr>sel_text = s, sel_segments = segs @ seg # later\<rparr> v =
    (if seg_optional seg then Some INull else None)"
  using assms by (simp add: resolve_def resolve_from_append)

theorem selector_first_failure_witness:
  "resolve \<lparr>sel_text = lit ''.[7][]?'', sel_segments =
      [\<lparr>seg_kind = KIndex 7, seg_optional = False\<rparr>, \<lparr>seg_kind = KValues, seg_optional = True\<rparr>]\<rparr>
    (IList [INull]) = (None :: unit ipld option)"
  using selector_first_failure [of "[]" "IList [INull :: unit ipld]" "IList [INull]"
      "\<lparr>seg_kind = KIndex 7, seg_optional = False\<rparr>" "lit ''.[7][]?''" "[\<lparr>seg_kind = KValues, seg_optional = True\<rparr>]"]
  by (simp add: index_of_def)

text \<open>
  The slice as a set of positions: a negative number counts from the end, and nothing is clamped.
\<close>

definition slice_position :: "nat \<Rightarrow> int \<Rightarrow> int" where
  "slice_position len i = (if i < 0 then i + int len else i)"

definition in_slice :: "nat \<Rightarrow> int option \<Rightarrow> int option \<Rightarrow> nat \<Rightarrow> bool" where
  "in_slice len from to j \<longleftrightarrow>
     (case from of None \<Rightarrow> True | Some i \<Rightarrow> slice_position len i \<le> int j) \<and>
     (case to of None \<Rightarrow> True | Some i \<Rightarrow> int j < slice_position len i)"

lemma clamp_index_position:
  "j < len \<Longrightarrow> clamp_index len i \<le> j \<longleftrightarrow> slice_position len i \<le> int j"
  "j < len \<Longrightarrow> j < clamp_index len i \<longleftrightarrow> int j < slice_position len i"
  by (auto simp: clamp_index_def slice_position_def)

lemma bounds_in_slice:
  assumes "bounds len from to = (s, e)" "j < len"
  shows "s \<le> j \<and> j < e \<longleftrightarrow> in_slice len from to j"
  using assms(1) clamp_index_position [OF assms(2), symmetric] assms(2)
  by (cases "from"; cases "to") (auto simp: bounds_def in_slice_def Let_def less_max_iff_disj)

lemma nths_interval: "nths xs {s..<e} = take (e - s) (drop s xs)"
proof -
  have "nths (drop s xs) {..<e - s} = nths xs ((+) s ` {..<e - s})" by (rule nths_drop)
  moreover have "(+) s ` {..<e - s} = {s..<e}"
    by (cases "s \<le> e") (simp_all add: lessThan_atLeast0)
  ultimately show ?thesis by simp
qed

lemma nths_positions: "(\<And>j. j < length xs \<Longrightarrow> j \<in> A \<longleftrightarrow> j \<in> B) \<Longrightarrow> nths xs A = nths xs B"
  by (auto simp: nths_def set_zip intro!: arg_cong [of _ _ "List.map fst"] filter_cong)

lemma slice_get_bounds:
  assumes "bounds (length xs) from to = (s, e)"
  shows "slice_get s e xs = Some (nths xs {j. in_slice (length xs) from to j})"
proof -
  have "nths xs {j. in_slice (length xs) from to j} = nths xs {s..<e}"
    using bounds_in_slice [OF assms] by (intro nths_positions) auto
  then show ?thesis using bounds_within [OF assms] by (simp add: slice_get_def nths_interval)
qed

text \<open>
  C17. A slice of a list or of bytes never fails: it selects the elements whose positions lie between the
  two numbers, each counted from whichever end its sign says, however far out of range they are.
\<close>

theorem selector_slice_elements:
  "step (IList vs) (KSlice from to) = Some (IList (nths vs {j. in_slice (length vs) from to j}))
    \<and> step (IBytes bs) (KSlice from to) = Some (IBytes (nths bs {j. in_slice (length bs) from to j}))"
  by (cases "bounds (length vs) from to"; cases "bounds (length bs) from to") (simp add: slice_get_bounds)

end
