(* ===== verification/Glob.thy ===== *)
theory Glob
  imports Rust_Text
begin

text \<open>
  \<open>policy/glob.rs\<close>: \<open>like\<close> patterns. The matcher is the source's loop with one backtracking
  point; the reference matcher \<open>glob\<close> is what it is proved equal to.
\<close>

datatype token = Literal uchar | Any

record pattern =
  pattern_text :: str
  pattern_tokens :: "token list"

abbreviation star :: uchar where "star \<equiv> ascii CHR ''*''"
abbreviation backslash :: uchar where "backslash \<equiv> ascii (CHR 0x5C)"

text \<open>The compiling loop; the first argument is \<open>tokens.last()\<close>.\<close>

fun pattern_loop :: "token option \<Rightarrow> str \<Rightarrow> token list" where
  "pattern_loop prev [] = []"
| "pattern_loop prev (c # cs) =
     (if c = backslash \<and> (cs \<noteq> [] \<and> hd cs = star)
      then Literal star # pattern_loop (Some (Literal star)) (tl cs)
      else if c = star
      then (if prev \<noteq> Some Any then Any # pattern_loop (Some Any) cs else pattern_loop prev cs)
      else Literal c # pattern_loop (Some (Literal c)) cs)"

definition pattern_parse :: "str \<Rightarrow> pattern" where
  "pattern_parse txt = \<lparr>pattern_text = txt, pattern_tokens = pattern_loop None txt\<rparr>"

text \<open>
  The loop terminates from every state: a state whose backtracking point is not behind the position
  turns into one whose is, and from then on the point only moves forward.
\<close>

definition behind :: "nat \<Rightarrow> nat \<Rightarrow> (nat \<times> nat) option \<Rightarrow> bool" where
  "behind s t bt = (case bt of None \<Rightarrow> True | Some (st, m) \<Rightarrow> st < t \<and> m \<le> s)"

definition match_measure :: "token list \<times> str \<times> nat \<times> nat \<times> (nat \<times> nat) option \<Rightarrow> nat \<times> nat \<times> nat \<times> nat" where
  "match_measure = (\<lambda>(toks, input, s, t, bt).
     (if behind s t bt then 0 else 1,
      case bt of None \<Rightarrow> length toks | Some (st, m) \<Rightarrow> length toks - (st + 1),
      case bt of None \<Rightarrow> 0 | Some (st, m) \<Rightarrow> length input - m,
      length input - s))"

text \<open>The matching loop over \<open>(s, t, backtrack)\<close>, and the check of what remains after it.\<close>

function match_loop :: "token list \<Rightarrow> str \<Rightarrow> nat \<Rightarrow> nat \<Rightarrow> (nat \<times> nat) option \<Rightarrow> bool" where
  "match_loop toks input s t backtrack =
     (if s < length input then
        if nth_opt toks t = Some Any then match_loop toks input s (t + 1) (Some (t, s))
        else if nth_opt toks t = map_option Literal (nth_opt input s)
        then match_loop toks input (s + 1) (t + 1) backtrack
        else (case backtrack of
            Some (st, matched) \<Rightarrow>
              match_loop toks input (matched + 1) (st + 1) (Some (st, matched + 1))
          | None \<Rightarrow> False)
      else (case slice_get t (length toks) toks of
              Some rest \<Rightarrow> list_all (\<lambda>tok. tok = Any) rest
            | None \<Rightarrow> False))"
  by pat_completeness auto

termination
proof (relation "inv_image (less_than <*lex*> less_than <*lex*> less_than <*lex*> less_than) match_measure", goal_cases)
  case 1
  show ?case by (intro wf_inv_image wf_lex_prod wf_less_than)
qed (auto simp: match_measure_def behind_def split: option.splits prod.splits)

declare match_loop.simps [simp del]

definition matches :: "pattern \<Rightarrow> str \<Rightarrow> bool" where
  "matches p input = match_loop (pattern_tokens p) input 0 0 None"

section \<open>The reference matcher\<close>

fun glob :: "token list \<Rightarrow> str \<Rightarrow> bool" where
  "glob [] s \<longleftrightarrow> s = []"
| "glob (Any # ts) [] \<longleftrightarrow> glob ts []"
| "glob (Any # ts) (c # s) \<longleftrightarrow> glob ts (c # s) \<or> glob (Any # ts) s"
| "glob (Literal c # ts) [] \<longleftrightarrow> False"
| "glob (Literal c # ts) (d # s) \<longleftrightarrow> c = d \<and> glob ts s"

lemma glob_Any: "glob (Any # ts) s \<longleftrightarrow> (\<exists>a b. s = a @ b \<and> glob ts b)"
  by (induction s) (auto simp: Cons_eq_append_conv)

lemma glob_Any_suffix: "glob (Any # ts) b \<Longrightarrow> glob (Any # ts) (a @ b)"
  by (metis append.assoc glob_Any)

lemma glob_literals: "glob (map Literal l @ ts) s \<longleftrightarrow> (\<exists>b. s = l @ b \<and> glob ts b)"
proof (induction l arbitrary: s)
  case (Cons c l)
  then show ?case by (cases s) auto
qed simp

lemma glob_Nil: "glob ts [] \<longleftrightarrow> list_all (\<lambda>tok. tok = Any) ts"
proof (induction ts)
  case (Cons t ts)
  then show ?case by (cases t) auto
qed simp

text \<open>What the loop has established about the whole match when it is at \<open>(s, t, backtrack)\<close>.\<close>

definition match_inv :: "token list \<Rightarrow> str \<Rightarrow> nat \<Rightarrow> nat \<Rightarrow> (nat \<times> nat) option \<Rightarrow> bool" where
  "match_inv toks input s t bt \<longleftrightarrow>
     (case bt of
        None \<Rightarrow> (\<exists>l rest ts. input = l @ rest \<and> toks = map Literal l @ ts \<and> s = length l \<and> t = length l)
      | Some (st, m) \<Rightarrow> (\<exists>p l rest pre ts. input = p @ l @ rest \<and> toks = pre @ Any # map Literal l @ ts
           \<and> length p = m \<and> length pre = st \<and> s = m + length l \<and> t = st + 1 + length l
           \<and> (glob toks input \<longleftrightarrow> glob (Any # map Literal l @ ts) (l @ rest))))"

lemma nth_opt_drop: "drop i xs = ys \<Longrightarrow> nth_opt xs i = (case ys of [] \<Rightarrow> None | y # _ \<Rightarrow> Some y)"
  by (auto simp: nth_opt_def Cons_nth_drop_Suc [symmetric] not_less split: list.split)

lemma match_loop_end:
  "length input \<le> s \<Longrightarrow> t \<le> length toks \<Longrightarrow>
    match_loop toks input s t bt \<longleftrightarrow> list_all (\<lambda>tok. tok = Any) (drop t toks)"
  by (simp add: match_loop.simps slice_get_def)

lemma match_inv_Any:
  assumes "match_inv toks input s t bt" "nth_opt toks t = Some Any"
  shows "match_inv toks input s (t + 1) (Some (t, s))"
proof (cases bt)
  case None
  with assms(1) obtain l rest ts where inv: "input = l @ rest" "toks = map Literal l @ ts"
    "s = length l" "t = length l" by (auto simp: match_inv_def)
  then obtain ts' where ts: "ts = Any # ts'" using assms(2) by (cases ts) (auto simp: nth_opt_def nth_append)
  show ?thesis unfolding match_inv_def option.case prod.case
    by (rule exI [of _ l], rule exI [of _ "[]"], rule exI [of _ rest],
        rule exI [of _ "map Literal l"], rule exI [of _ ts'])
      (simp add: inv ts glob_literals)
next
  case (Some pt)
  obtain st m where pt: "pt = (st, m)" by (cases pt)
  with Some assms(1) obtain p l rest pre ts where inv: "input = p @ l @ rest"
    "toks = pre @ Any # map Literal l @ ts" "length p = m" "length pre = st" "s = m + length l"
    "t = st + 1 + length l" and whole: "glob toks input \<longleftrightarrow> glob (Any # map Literal l @ ts) (l @ rest)"
    by (auto simp: match_inv_def)
  have "drop t toks = ts" by (simp add: inv)
  then obtain ts' where ts: "ts = Any # ts'" using assms(2) unfolding nth_opt_drop [OF \<open>drop t toks = ts\<close>]
    by (cases ts) auto
  have "glob (Any # map Literal l @ ts) (l @ rest) \<longleftrightarrow> glob ts rest"
  proof
    assume "glob (Any # map Literal l @ ts) (l @ rest)"
    then obtain a b where ab: "l @ rest = a @ l @ b" "glob ts b" unfolding glob_Any glob_literals by blast
    have "length l + length rest = length a + length l + length b"
      using arg_cong [OF ab(1), of length] by simp
    then have "drop (length a) rest = drop (length (a @ l)) (l @ rest)" by simp
    also have "\<dots> = b" using ab(1) by simp
    finally have "rest = take (length a) rest @ b" by (metis append_take_drop_id)
    then show "glob ts rest" using ab(2) glob_Any_suffix [of ts' b "take (length a) rest"] ts by metis
  next
    assume "glob ts rest"
    then show "glob (Any # map Literal l @ ts) (l @ rest)" unfolding glob_Any glob_literals by blast
  qed
  with whole show ?thesis unfolding match_inv_def option.case prod.case
    by (intro exI [of _ "p @ l"] exI [of _ "[]"] exI [of _ rest]
        exI [of _ "pre @ Any # map Literal l"] exI [of _ ts']) (simp add: inv ts)
qed

lemma match_inv_Literal:
  assumes "match_inv toks input s t bt" "nth_opt input s = Some c" "nth_opt toks t = Some (Literal c)"
  shows "match_inv toks input (s + 1) (t + 1) bt"
proof (cases bt)
  case None
  with assms(1) obtain l rest ts where inv: "input = l @ rest" "toks = map Literal l @ ts"
    "s = length l" "t = length l" by (auto simp: match_inv_def)
  obtain rest' ts' where r: "rest = c # rest'" "ts = Literal c # ts'"
    using assms(2,3) inv by (cases rest; cases ts) (auto simp: nth_opt_def nth_append)
  show ?thesis unfolding match_inv_def None option.case
    by (rule exI [of _ "l @ [c]"], rule exI [of _ rest'], rule exI [of _ ts']) (use inv r in simp)
next
  case (Some pt)
  obtain st m where pt: "pt = (st, m)" by (cases pt)
  with Some assms(1) obtain p l rest pre ts where inv: "input = p @ l @ rest"
    "toks = pre @ Any # map Literal l @ ts" "length p = m" "length pre = st" "s = m + length l"
    "t = st + 1 + length l" and whole: "glob toks input \<longleftrightarrow> glob (Any # map Literal l @ ts) (l @ rest)"
    by (auto simp: match_inv_def)
  have "drop t toks = ts" "drop s input = rest" by (simp_all add: inv)
  obtain rest' ts' where r: "rest = c # rest'" "ts = Literal c # ts'" using assms(2,3)
    unfolding nth_opt_drop [OF \<open>drop t toks = ts\<close>] nth_opt_drop [OF \<open>drop s input = rest\<close>]
    by (cases ts; cases rest) auto
  show ?thesis unfolding match_inv_def Some pt option.case prod.case
    by (rule exI [of _ p], rule exI [of _ "l @ [c]"], rule exI [of _ rest'], rule exI [of _ pre],
        rule exI [of _ ts']) (use inv whole r in simp)
qed

lemma match_inv_back:
  assumes "match_inv toks input s t (Some (st, m))" "nth_opt input s = Some c"
    "nth_opt toks t \<noteq> Some Any" "nth_opt toks t \<noteq> Some (Literal c)"
  shows "match_inv toks input (m + 1) (st + 1) (Some (st, m + 1))"
proof -
  from assms(1) obtain p l rest pre ts where inv: "input = p @ l @ rest"
    "toks = pre @ Any # map Literal l @ ts" "length p = m" "length pre = st" "s = m + length l"
    "t = st + 1 + length l" and whole: "glob toks input \<longleftrightarrow> glob (Any # map Literal l @ ts) (l @ rest)"
    by (auto simp: match_inv_def)
  have d: "drop t toks = ts" "drop s input = rest" by (simp_all add: inv)
  obtain rest' where r: "rest = c # rest'" using assms(2) unfolding nth_opt_drop [OF d(2)]
    by (cases rest) auto
  have "\<not> glob ts rest"
  proof (cases ts)
    case Nil
    then show ?thesis by (simp add: r)
  next
    case (Cons k ts')
    then have "nth_opt toks t = Some k" using nth_opt_drop [OF d(1)] by simp
    then show ?thesis using assms(3,4) Cons r by (cases k) auto
  qed
  then have fails: "\<not> glob (map Literal l @ ts) (l @ rest)" by (simp add: glob_literals)
  obtain x y where xy: "l @ rest = x # y" using r by (cases l) auto
  have "glob toks input \<longleftrightarrow> glob (Any # map Literal l @ ts) y"
    using whole fails unfolding xy by simp
  moreover have "input = (p @ [x]) @ y" using inv(1) xy by simp
  ultimately show ?thesis unfolding match_inv_def option.case prod.case
    by (intro exI [of _ "p @ [x]"] exI [of _ "[]"] exI [of _ y] exI [of _ pre]
        exI [of _ "map Literal l @ ts"]) (simp add: inv(2-6))
qed

lemma match_inv_end:
  assumes "match_inv toks input s t bt" "length input \<le> s"
  shows "t \<le> length toks \<and> (glob toks input \<longleftrightarrow> list_all (\<lambda>tok. tok = Any) (drop t toks))"
proof (cases bt)
  case None
  with assms obtain l ts where "input = l" "toks = map Literal l @ ts" "t = length l"
    by (auto simp: match_inv_def)
  then show ?thesis using glob_literals [of l ts l] by (simp add: glob_Nil)
next
  case (Some pt)
  obtain st m where pt: "pt = (st, m)" by (cases pt)
  with Some assms obtain p l pre ts where inv: "input = p @ l"
    "toks = pre @ Any # map Literal l @ ts" "length pre = st"
    "t = st + 1 + length l" and whole: "glob toks input \<longleftrightarrow> glob (Any # map Literal l @ ts) l"
    by (auto simp: match_inv_def)
  have "glob (Any # map Literal l @ ts) l \<longleftrightarrow> glob ts []"
  proof
    assume "glob (Any # map Literal l @ ts) l"
    then obtain a b where ab: "l = a @ l @ b" "glob ts b" unfolding glob_Any glob_literals by blast
    have "length l = length a + length l + length b" using arg_cong [OF ab(1), of length] by simp
    with ab(2) show "glob ts []" by simp
  next
    assume "glob ts []"
    moreover have "l = [] @ l @ []" by simp
    ultimately show "glob (Any # map Literal l @ ts) l" unfolding glob_Any glob_literals by blast
  qed
  with whole inv show ?thesis by (simp add: glob_Nil)
qed

lemma match_loop_correct: "match_inv toks input s t bt \<Longrightarrow> match_loop toks input s t bt \<longleftrightarrow> glob toks input"
proof (induction toks input s t bt rule: match_loop.induct)
  case (1 toks input s t bt)
  show ?case
  proof (cases "s < length input")
    case False
    then show ?thesis using match_inv_end [OF "1.prems"] match_loop_end [of input s t toks bt] by simp
  next
    case True
    then obtain c where c: "nth_opt input s = Some c" by simp
    consider "nth_opt toks t = Some Any" | "nth_opt toks t = Some (Literal c)"
      | "nth_opt toks t \<noteq> Some Any" "nth_opt toks t \<noteq> Some (Literal c)" by blast
    then show ?thesis
    proof cases
      case 1
      with "1.IH"(1) [OF True 1 match_inv_Any [OF "1.prems" 1]] True show ?thesis
        by (subst match_loop.simps) simp
    next
      case 2
      have "match_loop toks input (s + 1) (t + 1) bt \<longleftrightarrow> glob toks input"
        using "1.IH"(2) [OF True _ _ match_inv_Literal [OF "1.prems" c 2]] c 2 by simp
      then show ?thesis using True c 2 by (subst match_loop.simps) (simp del: nth_opt_Some nth_opt_None)
    next
      case 3
      show ?thesis
      proof (cases bt)
        case None
        with "1.prems" obtain l rest ts where inv: "input = l @ rest" "toks = map Literal l @ ts"
          "s = length l" "t = length l" by (auto simp: match_inv_def)
        have "\<not> glob ts rest"
          using 3 c True inv by (cases ts; cases rest; cases "hd ts") (auto simp: nth_opt_def nth_append)
        then have "\<not> glob toks input" by (simp add: inv glob_literals)
        with None 3 True c show ?thesis by (subst match_loop.simps) (simp del: nth_opt_Some nth_opt_None)
      next
        case (Some pt)
        obtain st m where pt: "pt = (st, m)" by (cases pt)
        have "match_loop toks input (m + 1) (st + 1) (Some (st, m + 1)) \<longleftrightarrow> glob toks input"
          using "1.IH"(3) [OF True 3(1) _ Some pt [symmetric]] match_inv_back [of toks input s t st m c] "1.prems" Some pt c 3
          by (simp del: nth_opt_Some nth_opt_None)
        then show ?thesis using Some pt 3 True c by (subst match_loop.simps) (simp del: nth_opt_Some nth_opt_None)
      qed
    qed
  qed
qed

lemma matches_iff_glob: "matches p input \<longleftrightarrow> glob (pattern_tokens p) input"
  unfolding matches_def by (rule match_loop_correct) (simp add: match_inv_def)

section \<open>What a compiled pattern means\<close>

text \<open>Runs of \<open>*\<close> compile to one \<open>Any\<close>, which loses nothing.\<close>

lemma glob_Any_Any: "glob (Any # Any # ts) s \<longleftrightarrow> glob (Any # ts) s"
  unfolding glob_Any [of "Any # ts"] using glob_Any_suffix [of ts] by (metis append_Nil)

text \<open>The tokens of a pattern with nothing merged.\<close>

fun plain_tokens :: "str \<Rightarrow> token list" where
  "plain_tokens [] = []"
| "plain_tokens [c] = [if c = star then Any else Literal c]"
| "plain_tokens (c # d # cs) =
     (if c = backslash \<and> d = star then Literal star # plain_tokens cs
      else (if c = star then Any else Literal c) # plain_tokens (d # cs))"

lemma backslash_not_star: "backslash \<noteq> star"
  by simp

lemma pattern_loop_plain:
  "(prev \<noteq> Some Any \<longrightarrow> glob (pattern_loop prev cs) s = glob (plain_tokens cs) s)
    \<and> (prev = Some Any \<longrightarrow> glob (Any # pattern_loop prev cs) s = glob (Any # plain_tokens cs) s)"
proof (induction cs arbitrary: prev s rule: plain_tokens.induct)
  case (2 c)
  then show ?case by (auto simp: glob_Any_Any)
next
  case (3 c d cs)
  have cong: "(\<And>s. glob ts s = glob us s) \<Longrightarrow> glob (k # ts) s = glob (k # us) s" for k ts us s
  proof (cases k)
    case (Literal e)
    moreover assume "\<And>s. glob ts s = glob us s"
    ultimately show ?thesis by (cases s) simp_all
  next
    case Any
    moreover assume "\<And>s. glob ts s = glob us s"
    ultimately show ?thesis by (simp add: glob_Any)
  qed
  show ?case
  proof (cases "c = backslash \<and> d = star")
    case True
    then have "glob (pattern_loop (Some (Literal star)) cs) s = glob (plain_tokens cs) s" for s
      using "3.IH"(1) [OF True] by blast
    then have "glob (Literal star # pattern_loop (Some (Literal star)) cs) s
        = glob (Literal star # plain_tokens cs) s" for s by (rule cong)
    then show ?thesis using True by (simp add: glob_Any)
  next
    case False
    show ?thesis
    proof (cases "c = star")
      case True
      then have "glob (Any # pattern_loop (Some Any) (d # cs)) s = glob (Any # plain_tokens (d # cs)) s"
        using "3.IH"(2) [OF False] by blast
      moreover have "prev \<noteq> Some Any \<Longrightarrow> pattern_loop prev (c # d # cs) = Any # pattern_loop (Some Any) (d # cs)"
        "pattern_loop (Some Any) (c # d # cs) = pattern_loop (Some Any) (d # cs)"
        using True by simp_all
      moreover have "plain_tokens (c # d # cs) = Any # plain_tokens (d # cs)" using True by simp
      ultimately show ?thesis by (simp add: glob_Any_Any del: pattern_loop.simps plain_tokens.simps)
    next
      case notstar: False
      then have "glob (pattern_loop (Some (Literal c)) (d # cs)) s = glob (plain_tokens (d # cs)) s" for s
        using "3.IH"(2) [OF False] by blast
      then have "glob (Literal c # pattern_loop (Some (Literal c)) (d # cs)) s
          = glob (Literal c # plain_tokens (d # cs)) s" for s by (rule cong)
      moreover have "pattern_loop q (c # d # cs) = Literal c # pattern_loop (Some (Literal c)) (d # cs)" for q
        using notstar False by simp
      moreover have "plain_tokens (c # d # cs) = Literal c # plain_tokens (d # cs)"
        using notstar False by simp
      ultimately show ?thesis by (simp add: glob_Any del: pattern_loop.simps plain_tokens.simps)
    qed
  qed
qed simp

section \<open>How long the matcher runs\<close>

text \<open>The same loop with a bound on its iterations, and a bound on the iterations still to come.\<close>

fun match_fuel :: "nat \<Rightarrow> token list \<Rightarrow> str \<Rightarrow> nat \<Rightarrow> nat \<Rightarrow> (nat \<times> nat) option \<Rightarrow> bool option" where
  "match_fuel 0 toks input s t backtrack = None"
| "match_fuel (Suc n) toks input s t backtrack =
     (if s < length input then
        if nth_opt toks t = Some Any then match_fuel n toks input s (t + 1) (Some (t, s))
        else if nth_opt toks t = map_option Literal (nth_opt input s)
        then match_fuel n toks input (s + 1) (t + 1) backtrack
        else (case backtrack of
            Some (st, matched) \<Rightarrow> match_fuel n toks input (matched + 1) (st + 1) (Some (st, matched + 1))
          | None \<Rightarrow> Some False)
      else Some (case slice_get t (length toks) toks of
              Some rest \<Rightarrow> list_all (\<lambda>tok. tok = Any) rest
            | None \<Rightarrow> False))"

definition iterations_left :: "token list \<Rightarrow> str \<Rightarrow> nat \<Rightarrow> (nat \<times> nat) option \<Rightarrow> nat" where
  "iterations_left toks input t backtrack =
     (length input - (case backtrack of Some (_, matched) \<Rightarrow> matched | None \<Rightarrow> 0)) * (length toks + 1) + (length toks - t)"

lemma match_fuel_enough:
  "iterations_left toks input t bt < n \<Longrightarrow> t \<le> length toks \<Longrightarrow> pred_option (\<lambda>(st, m). m \<le> s \<and> st < t) bt \<Longrightarrow>
    match_fuel n toks input s t bt = Some (match_loop toks input s t bt)"
proof (induction n arbitrary: s t bt)
  case (Suc n)
  show ?case
  proof (cases "s < length input")
    case True
    then obtain c where c: "nth_opt input s = Some c" by simp
    consider "nth_opt toks t = Some Any" | "nth_opt toks t = Some (Literal c)"
      | "nth_opt toks t \<noteq> Some Any" "nth_opt toks t \<noteq> Some (Literal c)" by blast
    then show ?thesis
    proof cases
      case 1
      then have t: "t < length toks" by (metis nth_opt_None option.distinct(1) not_less)
      define m where "m = (case bt of Some (_, matched) \<Rightarrow> matched | None \<Rightarrow> 0)"
      have "m \<le> s" using Suc.prems(3) by (auto simp: m_def split: option.split)
      define X Y where "X = (length input - s) * (length toks + 1)" and "Y = (length input - m) * (length toks + 1)"
      have "X \<le> Y" using \<open>m \<le> s\<close> unfolding X_def Y_def by (intro mult_right_mono) simp_all
      moreover have "iterations_left toks input (t + 1) (Some (t, s)) = X + (length toks - (t + 1))"
        "iterations_left toks input t bt = Y + (length toks - t)"
        by (simp_all add: iterations_left_def X_def Y_def m_def)
      ultimately have "iterations_left toks input (t + 1) (Some (t, s)) < n" using Suc.prems(1) t by linarith
      with Suc.IH [of "t + 1" "Some (t, s)" s] True 1 t show ?thesis by (subst match_loop.simps) simp
    next
      case 2
      then have t: "t < length toks" by (metis nth_opt_None option.distinct(1) not_less)
      then have "iterations_left toks input (t + 1) bt < n" using Suc.prems(1) by (simp add: iterations_left_def)
      moreover have "pred_option (\<lambda>(st, m). m \<le> s + 1 \<and> st < t + 1) bt" using Suc.prems(3) by (cases bt) auto
      ultimately show ?thesis using Suc.IH [of "t + 1" bt "s + 1"] True 2 t c
        by (subst match_loop.simps) (simp del: nth_opt_Some nth_opt_None)
    next
      case 3
      show ?thesis
      proof (cases bt)
        case (Some pt)
        obtain st m where pt: "pt = (st, m)" by (cases pt)
        have "m < length input" "st < t" using Suc.prems(3) True by (simp_all add: Some pt)
        define X where "X = (length input - (m + 1)) * (length toks + 1)"
        have "(length input - m) * (length toks + 1) = X + (length toks + 1)"
          unfolding X_def by (metis Suc_diff_Suc Suc_eq_plus1 add.commute mult_Suc \<open>m < length input\<close>)
        then have "iterations_left toks input t bt = X + (length toks + 1) + (length toks - t)"
          "iterations_left toks input (st + 1) (Some (st, m + 1)) = X + (length toks - (st + 1))"
          by (simp_all add: iterations_left_def Some pt X_def)
        then have "iterations_left toks input (st + 1) (Some (st, m + 1)) < n"
          using Suc.prems(1,2) \<open>st < t\<close> by linarith
        with Suc.IH [of "st + 1" "Some (st, m + 1)" "m + 1"] True 3 c Some pt \<open>st < t\<close> Suc.prems(2) show ?thesis
          by (subst match_loop.simps) (simp del: nth_opt_Some nth_opt_None)
      qed (use True 3 c in \<open>subst match_loop.simps, simp del: nth_opt_Some nth_opt_None\<close>)
    qed
  qed (subst match_loop.simps, simp)
qed simp

section \<open>Properties\<close>

text \<open>C13. The matcher's loop with a single backtracking point decides whole-string matching of the
  pattern as written: it agrees with the reference matcher on the unmerged tokens.\<close>

theorem glob_matches: "matches (pattern_parse p) s \<longleftrightarrow> glob (plain_tokens p) s"
  using pattern_loop_plain [of None p s] by (simp add: matches_iff_glob pattern_parse_def)

text \<open>
  C14. The matcher is never exponential: on every pattern and input its loop ends within \<open>n (k + 1) + k\<close>
  iterations, for \<open>n\<close> characters and \<open>k\<close> tokens, with the answer of \<open>matches\<close>.
\<close>

theorem glob_terminates:
  "match_fuel (length input * (length (pattern_tokens p) + 1) + length (pattern_tokens p) + 1)
     (pattern_tokens p) input 0 0 None = Some (matches p input)"
  unfolding matches_def by (rule match_fuel_enough) (simp_all add: iterations_left_def)

end
