(* ===== verification/Policy.thy ===== *)
theory Policy
  imports Selector Glob
begin

text \<open>
  \<open>policy/mod.rs\<close>: the statements a delegation places on the \<open>args\<close> of any invocation that uses
  it, their wire form, and their evaluation.
\<close>

datatype number = NInteger int | NFloat f64

datatype 'c statement =
    Equal selector "'c ipld"
  | NotEqual selector "'c ipld"
  | Less selector number
  | LessOrEqual selector number
  | Greater selector number
  | GreaterOrEqual selector number
  | Like selector pattern
  | And "'c statement list"
  | Or "'c statement list"
  | Not "'c statement"
  | All selector "'c statement"
  | Any selector "'c statement"

datatype 'c policy = Policy (statements: "'c statement list")

datatype policy_error =
    NotAList
  | StatementNotAList
  | MissingOperator
  | UnknownOperator str
  | Arity str
  | MissingOperand
  | ExpectedSelector
  | PolicySelector selector_error
  | ExpectedNumber
  | ExpectedString
  | ExpectedStatementList

fun number_from_ipld :: "'c ipld \<Rightarrow> number option" where
  "number_from_ipld (IInteger i) = Some (NInteger i)"
| "number_from_ipld (IFloat f) = Some (NFloat f)"
| "number_from_ipld _ = None"

fun number_to_ipld :: "number \<Rightarrow> 'c ipld" where
  "number_to_ipld (NInteger i) = IInteger i"
| "number_to_ipld (NFloat f) = IFloat f"

section \<open>Wire form\<close>

definition arity :: "str \<Rightarrow> 'c ipld list \<Rightarrow> nat \<Rightarrow> policy_error + unit" where
  "arity op items n = (if length items = n then Ok () else Err (Arity op))"

definition selector_operand :: "'c ipld list \<Rightarrow> policy_error + selector" where
  "selector_operand items =
     (case nth_opt items 1 of
        Some (IString txt) \<Rightarrow> map_err PolicySelector (selector_parse txt)
      | _ \<Rightarrow> Err ExpectedSelector)"

definition number_operand :: "'c ipld list \<Rightarrow> policy_error + number" where
  "number_operand items = ok_or ExpectedNumber (Option.bind (nth_opt items 2) number_from_ipld)"

definition comparison :: "(selector \<Rightarrow> number \<Rightarrow> 'c statement) \<Rightarrow> str \<Rightarrow> 'c ipld list \<Rightarrow> policy_error + 'c statement" where
  "comparison build op items =
     res_bind (arity op items 3) (\<lambda>_.
     res_bind (selector_operand items) (\<lambda>sel.
     res_bind (number_operand items) (\<lambda>n. Ok (build sel n))))"

definition value_operand :: "(selector \<Rightarrow> 'c ipld \<Rightarrow> 'c statement) \<Rightarrow> str \<Rightarrow> 'c ipld list \<Rightarrow> policy_error + 'c statement" where
  "value_operand build op items =
     res_bind (arity op items 3) (\<lambda>_.
     res_bind (selector_operand items) (\<lambda>sel.
     res_bind (ok_or MissingOperand (nth_opt items 2)) (\<lambda>v. Ok (build sel v))))"

definition like_operand :: "str \<Rightarrow> 'c ipld list \<Rightarrow> policy_error + 'c statement" where
  "like_operand op items =
     res_bind (arity op items 3) (\<lambda>_.
     res_bind (case nth_opt items 2 of Some (IString txt) \<Rightarrow> Ok (pattern_parse txt) | _ \<Rightarrow> Err ExpectedString)
       (\<lambda>p. res_bind (selector_operand items) (\<lambda>sel. Ok (Like sel p))))"

lemma size_nth_opt: "nth_opt items i = Some v \<Longrightarrow> size v < Suc (size_list size items)"
  using size_list_estimation' [of v items "size v" size] by force

lemma size_nth_list:
  "nth_opt items i = Some (IList vs) \<Longrightarrow> v \<in> set vs \<Longrightarrow> size v < Suc (size_list size items)"
  using size_nth_opt [of items i "IList vs"] size_list_estimation' [of v vs "size v" size] by simp

function statement_from_ipld :: "'c ipld \<Rightarrow> policy_error + 'c statement" where
  "statement_from_ipld wire =
     (case wire of
        IList items \<Rightarrow>
          (case nth_opt items 0 of
             Some (IString op) \<Rightarrow>
               if op = lit ''=='' then value_operand Equal op items
               else if op = lit ''!='' then value_operand NotEqual op items
               else if op = lit ''<'' then comparison Less op items
               else if op = lit ''<='' then comparison LessOrEqual op items
               else if op = lit ''>'' then comparison Greater op items
               else if op = lit ''>='' then comparison GreaterOrEqual op items
               else if op = lit ''like'' then like_operand op items
               else if op = lit ''and'' then
                 res_bind (arity op items 2) (\<lambda>_.
                 case nth_opt items 1 of
                   Some (IList vs) \<Rightarrow> map_ok And (res_map statement_from_ipld vs)
                 | _ \<Rightarrow> Err ExpectedStatementList)
               else if op = lit ''or'' then
                 res_bind (arity op items 2) (\<lambda>_.
                 case nth_opt items 1 of
                   Some (IList vs) \<Rightarrow> map_ok Or (res_map statement_from_ipld vs)
                 | _ \<Rightarrow> Err ExpectedStatementList)
               else if op = lit ''not'' then
                 res_bind (arity op items 2) (\<lambda>_.
                 case nth_opt items 1 of
                   Some v \<Rightarrow> map_ok Not (statement_from_ipld v)
                 | None \<Rightarrow> Err MissingOperand)
               else if op = lit ''all'' then
                 res_bind (arity op items 3) (\<lambda>_.
                 res_bind (selector_operand items) (\<lambda>sel.
                 case nth_opt items 2 of
                   Some v \<Rightarrow> map_ok (All sel) (statement_from_ipld v)
                 | None \<Rightarrow> Err MissingOperand))
               else if op = lit ''any'' then
                 res_bind (arity op items 3) (\<lambda>_.
                 res_bind (selector_operand items) (\<lambda>sel.
                 case nth_opt items 2 of
                   Some v \<Rightarrow> map_ok (Any sel) (statement_from_ipld v)
                 | None \<Rightarrow> Err MissingOperand))
               else Err (UnknownOperator op)
           | _ \<Rightarrow> Err MissingOperator)
      | _ \<Rightarrow> Err StatementNotAList)"
  by pat_completeness auto
termination
  by (relation "measure size") (auto intro: size_nth_opt size_nth_list simp del: nth_opt_Some)

declare statement_from_ipld.simps [simp del]

definition triple :: "string \<Rightarrow> selector \<Rightarrow> 'c ipld \<Rightarrow> 'c ipld" where
  "triple op sel v = IList [IString (lit op), IString (sel_text sel), v]"

fun statement_to_ipld :: "'c statement \<Rightarrow> 'c ipld" where
  "statement_to_ipld (Equal sel v) = triple ''=='' sel v"
| "statement_to_ipld (NotEqual sel v) = triple ''!='' sel v"
| "statement_to_ipld (Less sel n) = triple ''<'' sel (number_to_ipld n)"
| "statement_to_ipld (LessOrEqual sel n) = triple ''<='' sel (number_to_ipld n)"
| "statement_to_ipld (Greater sel n) = triple ''>'' sel (number_to_ipld n)"
| "statement_to_ipld (GreaterOrEqual sel n) = triple ''>='' sel (number_to_ipld n)"
| "statement_to_ipld (Like sel p) = triple ''like'' sel (IString (pattern_text p))"
| "statement_to_ipld (And list) = IList [IString (lit ''and''), IList (map statement_to_ipld list)]"
| "statement_to_ipld (Or list) = IList [IString (lit ''or''), IList (map statement_to_ipld list)]"
| "statement_to_ipld (Not inner) = IList [IString (lit ''not''), statement_to_ipld inner]"
| "statement_to_ipld (All sel inner) = triple ''all'' sel (statement_to_ipld inner)"
| "statement_to_ipld (Any sel inner) = triple ''any'' sel (statement_to_ipld inner)"

definition policy_is_empty :: "'c policy \<Rightarrow> bool" where
  "policy_is_empty p \<longleftrightarrow> statements p = []"

definition policy_from_ipld :: "'c ipld \<Rightarrow> policy_error + 'c policy" where
  "policy_from_ipld wire =
     (case wire of
        IList items \<Rightarrow> map_ok Policy (res_map statement_from_ipld items)
      | _ \<Rightarrow> Err NotAList)"

definition policy_to_ipld :: "'c policy \<Rightarrow> 'c ipld" where
  "policy_to_ipld p = IList (map statement_to_ipld (statements p))"

section \<open>Numbers\<close>

text \<open>\<open>1.0e38\<close>, the double.\<close>

definition float_1e38 :: f64 where "float_1e38 = 0x47D2CED32A16A1B1"

definition int_float :: "int \<Rightarrow> f64 \<Rightarrow> ordering option" where
  "int_float i f =
     (if \<not> f64_is_finite f then None
      else if - f64_scaled float_1e38 < f64_scaled f \<and> f64_scaled f < f64_scaled float_1e38
        \<and> round_int (f64_to_i128 f) * 2 ^ 1074 = f64_scaled f
      then Some (cmp i (f64_to_i128 f))
      else Some (cmp (round_int i * 2 ^ 1074) (f64_scaled f)))"

fun number_partial_cmp :: "number \<Rightarrow> number \<Rightarrow> ordering option" where
  "number_partial_cmp (NInteger a) (NInteger b) = Some (cmp a b)"
| "number_partial_cmp (NFloat a) (NFloat b) = f64_partial_cmp a b"
| "number_partial_cmp (NInteger a) (NFloat b) = int_float a b"
| "number_partial_cmp (NFloat a) (NInteger b) = map_option reverse_ordering (int_float b a)"

section \<open>Evaluation\<close>

definition is_number :: "'c ipld \<Rightarrow> bool" where
  "is_number v \<longleftrightarrow> number_from_ipld v \<noteq> None"

function equal :: "'c ipld \<Rightarrow> 'c ipld \<Rightarrow> bool" where
  "equal a b =
     (if is_number a \<and> is_number b then
        (case (number_from_ipld a, number_from_ipld b) of
           (Some x, Some y) \<Rightarrow> number_partial_cmp x y = Some ordering.Equal
         | _ \<Rightarrow> False)
      else case a of
        IList x \<Rightarrow> (case b of
            IList y \<Rightarrow> length x = length y \<and> list_all (\<lambda>(p, q). equal p q) (zip x y)
          | _ \<Rightarrow> a = b)
      | IMap x \<Rightarrow> (case b of
            IMap y \<Rightarrow> length x = length y
              \<and> list_all (\<lambda>e. case bt_get y (fst e) of Some w \<Rightarrow> equal (snd e) w | None \<Rightarrow> False) x
          | _ \<Rightarrow> a = b)
      | _ \<Rightarrow> a = b)"
  by pat_completeness auto
termination
  by (relation "measure (size \<circ> fst)")
    (auto simp: less_Suc_eq_le size_list_estimation' dest: set_zip_leftD intro: size_map_entry [simplified])

declare equal.simps [simp del]

definition compare :: "selector \<Rightarrow> 'c ipld \<Rightarrow> number \<Rightarrow> (ordering \<Rightarrow> bool) \<Rightarrow> bool" where
  "compare sel args right accept =
     (case Option.bind (Option.bind (resolve sel args) number_from_ipld)
             (\<lambda>left. number_partial_cmp left right) of
        Some c \<Rightarrow> accept c | None \<Rightarrow> False)"

definition elements :: "selector \<Rightarrow> 'c ipld \<Rightarrow> 'c ipld list option" where
  "elements sel args =
     (case resolve sel args of
        Some (IList vs) \<Rightarrow> Some vs
      | Some (IMap m) \<Rightarrow> Some (bt_values m)
      | _ \<Rightarrow> None)"

definition selected_equal :: "selector \<Rightarrow> 'c ipld \<Rightarrow> 'c ipld \<Rightarrow> bool" where
  "selected_equal sel args v = (case resolve sel args of Some found \<Rightarrow> equal found v | None \<Rightarrow> False)"

fun holds :: "'c statement \<Rightarrow> 'c ipld \<Rightarrow> bool" where
  "holds (Equal sel v) args = selected_equal sel args v"
| "holds (NotEqual sel v) args = (\<not> selected_equal sel args v)"
| "holds (Less sel n) args = compare sel args n (\<lambda>c. c = ordering.Less)"
| "holds (LessOrEqual sel n) args = compare sel args n (\<lambda>c. c \<noteq> ordering.Greater)"
| "holds (Greater sel n) args = compare sel args n (\<lambda>c. c = ordering.Greater)"
| "holds (GreaterOrEqual sel n) args = compare sel args n (\<lambda>c. c \<noteq> ordering.Less)"
| "holds (Like sel p) args = (case resolve sel args of Some (IString s) \<Rightarrow> matches p s | _ \<Rightarrow> False)"
| "holds (And list) args = list_all (\<lambda>s. holds s args) list"
| "holds (Or list) args = (list = [] \<or> list_ex (\<lambda>s. holds s args) list)"
| "holds (Not inner) args = (\<not> holds inner args)"
| "holds (All sel inner) args =
     (case elements sel args of Some items \<Rightarrow> list_all (\<lambda>item. holds inner item) items | None \<Rightarrow> False)"
| "holds (Any sel inner) args =
     (case elements sel args of Some items \<Rightarrow> items = [] \<or> list_ex (\<lambda>item. holds inner item) items | None \<Rightarrow> False)"

definition policy_check :: "'c policy \<Rightarrow> 'c ipld \<Rightarrow> nat + unit" where
  "policy_check p args =
     (case position (\<lambda>s. \<not> holds s args) (statements p) of
        None \<Rightarrow> Ok () | Some index \<Rightarrow> Err index)"

end
