(* ===== verification/Policy_Laws.thy ===== *)
theory Policy_Laws
  imports Policy
begin

text \<open>
  What the policy language guarantees: its wire form is a strict codec, comparisons are exact below
  \<open>1e38\<close>, \<open>equal\<close> is equality of canonical values there, and a check reports the first statement
  that does not hold.
\<close>

section \<open>Wire form\<close>

text \<open>The texts a statement carries are ones its selectors and patterns were parsed from.\<close>

definition selector_wf :: "selector \<Rightarrow> bool" where
  "selector_wf sel \<longleftrightarrow> selector_parse (sel_text sel) = Ok sel"

definition pattern_wf :: "pattern \<Rightarrow> bool" where
  "pattern_wf p \<longleftrightarrow> pattern_parse (pattern_text p) = p"

fun statement_wf :: "'c statement \<Rightarrow> bool" where
  "statement_wf (Like sel p) \<longleftrightarrow> selector_wf sel \<and> pattern_wf p"
| "statement_wf (And ss) \<longleftrightarrow> list_all statement_wf ss"
| "statement_wf (Or ss) \<longleftrightarrow> list_all statement_wf ss"
| "statement_wf (Not inner) \<longleftrightarrow> statement_wf inner"
| "statement_wf (All sel inner) \<longleftrightarrow> selector_wf sel \<and> statement_wf inner"
| "statement_wf (Any sel inner) \<longleftrightarrow> selector_wf sel \<and> statement_wf inner"
| "statement_wf (Equal sel v) \<longleftrightarrow> selector_wf sel"
| "statement_wf (NotEqual sel v) \<longleftrightarrow> selector_wf sel"
| "statement_wf (Less sel n) \<longleftrightarrow> selector_wf sel"
| "statement_wf (LessOrEqual sel n) \<longleftrightarrow> selector_wf sel"
| "statement_wf (Greater sel n) \<longleftrightarrow> selector_wf sel"
| "statement_wf (GreaterOrEqual sel n) \<longleftrightarrow> selector_wf sel"

definition policy_wf :: "'c policy \<Rightarrow> bool" where
  "policy_wf p \<longleftrightarrow> list_all statement_wf (statements p)"

lemma selector_parse_wf: "selector_parse t = Ok sel \<Longrightarrow> selector_wf sel \<and> sel_text sel = t"
  by (auto simp: selector_wf_def selector_parse_def res_simps)

lemma pattern_parse_wf [simp]: "pattern_wf (pattern_parse t)" "pattern_text (pattern_parse t) = t"
  by (simp_all add: pattern_wf_def pattern_parse_def)

lemma number_to_from [simp]: "number_from_ipld (number_to_ipld n) = Some n"
  by (cases n) auto

lemma number_from_to: "number_from_ipld v = Some n \<Longrightarrow> number_to_ipld n = v"
  by (cases v) auto

lemmas operand_defs = arity_def selector_operand_def number_operand_def comparison_def value_operand_def
  like_operand_def triple_def selector_wf_def pattern_wf_def

lemma res_map_to_from:
  "(\<And>s. s \<in> set ss \<Longrightarrow> f (g s) = Ok s) \<Longrightarrow> res_map f (map g ss) = Ok ss"
  by (induction ss) auto

lemma statement_to_from: "statement_wf s \<Longrightarrow> statement_from_ipld (statement_to_ipld s) = Ok s"
proof (induction s)
  case (And ss)
  then have "res_map statement_from_ipld (map statement_to_ipld ss) = Ok ss"
    by (intro res_map_to_from) (auto simp: list_all_iff)
  then show ?case by (simp add: statement_from_ipld.simps operand_defs nth_opt_def)
next
  case (Or ss)
  then have "res_map statement_from_ipld (map statement_to_ipld ss) = Ok ss"
    by (intro res_map_to_from) (auto simp: list_all_iff)
  then show ?case by (simp add: statement_from_ipld.simps operand_defs nth_opt_def)
qed (simp_all add: statement_from_ipld.simps [of "IList _"] operand_defs nth_opt_def)

text \<open>A list of known length whose elements have been read one by one.\<close>

lemma list_of_two: "length xs = 2 \<Longrightarrow> nth_opt xs 0 = Some a \<Longrightarrow> nth_opt xs 1 = Some b \<Longrightarrow> xs = [a, b]"
  by (cases xs; cases "tl xs") auto

lemma list_of_three:
  "length xs = 3 \<Longrightarrow> nth_opt xs 0 = Some a \<Longrightarrow> nth_opt xs 1 = Some b \<Longrightarrow> nth_opt xs 2 = Some c \<Longrightarrow> xs = [a, b, c]"
  by (cases xs; cases "tl xs"; cases "tl (tl xs)") auto

lemma arity_Ok: "arity op items n = Ok u \<longleftrightarrow> length items = n"
  by (simp add: arity_def)

lemma selector_operand_Ok:
  "selector_operand items = Ok sel \<Longrightarrow> nth_opt items 1 = Some (IString (sel_text sel)) \<and> selector_wf sel"
  using selector_parse_wf
  by (auto simp: selector_operand_def simp del: nth_opt_Some split: option.splits ipld.splits)

lemma number_operand_Ok: "number_operand items = Ok n \<Longrightarrow> nth_opt items 2 = Some (number_to_ipld n)"
  by (auto simp: number_operand_def bind_eq_Some_conv number_from_to simp del: nth_opt_Some)

lemma value_operand_Ok:
  assumes "value_operand build op items = Ok s" and "nth_opt items 0 = Some (IString op)"
  obtains sel v where "s = build sel v" "selector_wf sel" "items = [IString op, IString (sel_text sel), v]"
proof -
  obtain sel v where 1: "length items = 3" "selector_operand items = Ok sel"
    "nth_opt items 2 = Some v" "s = build sel v"
    using assms(1) by (auto simp: value_operand_def res_simps arity_Ok simp del: nth_opt_Some)
  with selector_operand_Ok [OF 1(2)] list_of_three [OF 1(1) assms(2)] that show ?thesis by simp
qed

lemma comparison_Ok:
  assumes "comparison build op items = Ok s" and "nth_opt items 0 = Some (IString op)"
  obtains sel n where "s = build sel n" "selector_wf sel"
    "items = [IString op, IString (sel_text sel), number_to_ipld n]"
proof -
  obtain sel n where 1: "length items = 3" "selector_operand items = Ok sel"
    "number_operand items = Ok n" "s = build sel n"
    using assms(1) by (auto simp: comparison_def res_simps arity_Ok simp del: nth_opt_Some)
  with selector_operand_Ok [OF 1(2)] number_operand_Ok [OF 1(3)] list_of_three [OF 1(1) assms(2)] that
  show ?thesis by simp
qed

lemma like_operand_Ok:
  assumes "like_operand op items = Ok s" and "nth_opt items 0 = Some (IString op)"
  obtains sel p where "s = Like sel p" "selector_wf sel" "pattern_wf p"
    "items = [IString op, IString (sel_text sel), IString (pattern_text p)]"
proof -
  obtain t sel where 1: "length items = 3" "nth_opt items 2 = Some (IString t)"
    "selector_operand items = Ok sel" "s = Like sel (pattern_parse t)"
    using assms(1) by (auto simp: like_operand_def res_simps arity_Ok simp del: nth_opt_Some)
  with selector_operand_Ok [OF 1(3)] list_of_three [OF 1(1) assms(2)] that [of sel "pattern_parse t"]
  show ?thesis by simp
qed

text \<open>The parts of a statement are statements read from the parts of the value.\<close>

lemma res_map_from_to:
  "res_map f vs = Ok ss \<Longrightarrow> (\<And>v s. v \<in> set vs \<Longrightarrow> f v = Ok s \<Longrightarrow> P s \<and> g s = v) \<Longrightarrow>
    list_all P ss \<and> map g ss = vs"
proof (induction vs arbitrary: ss)
  case (Cons v vs)
  obtain s ss' where s: "f v = Ok s" "res_map f vs = Ok ss'" "ss = s # ss'"
    using Cons.prems(1) by (auto simp: res_simps)
  with Cons.IH [OF s(2) Cons.prems(2)] Cons.prems(2) [OF _ s(1)] show ?case by simp
qed simp

lemma statement_from_to:
  fixes w :: "'a ipld"
  shows "statement_from_ipld w = Ok s \<Longrightarrow> statement_wf s \<and> statement_to_ipld s = w"
proof (induction "size w" arbitrary: w s rule: less_induct)
  case less
  obtain items op where w: "w = IList items" and op: "nth_opt items 0 = Some (IString op)"
    using less.prems by (subst (asm) statement_from_ipld.simps) (auto simp: res_simps simp del: nth_opt_Some)
  note parse = less.prems [unfolded w statement_from_ipld.simps [of "IList items"], simplified op, simplified]
  have part: "statement_wf s' \<and> statement_to_ipld s' = v"
    if "statement_from_ipld v = Ok s'" "nth_opt items i = Some v" for v :: "'a ipld" and s' i
    using less.hyps [of v s'] size_nth_opt [OF that(2)] that(1) w by simp
  have parts: "list_all statement_wf ss \<and> items = [IString op, IList (map statement_to_ipld ss)]"
    if "res_map statement_from_ipld vs = Ok ss" "nth_opt items (Suc 0) = Some (IList vs)" "length items = 2"
    for vs :: "'a ipld list" and ss
  proof -
    note ss = that
    have "statement_wf s \<and> statement_to_ipld s = v" if v: "v \<in> set vs" "statement_from_ipld v = Ok s" for v s
      using less.hyps [of v s] v size_nth_list [OF ss(2) v(1)] w by simp
    with that(1) have "list_all statement_wf ss \<and> map statement_to_ipld ss = vs" by (rule res_map_from_to)
    with that list_of_two [of items "IString op" "IList vs"] op show ?thesis by simp
  qed
  have one: "statement_wf s' \<and> items = [IString op, statement_to_ipld s']"
    if "statement_from_ipld v = Ok s'" "nth_opt items (Suc 0) = Some v" "length items = 2"
    for v :: "'a ipld" and s'
    using part [OF that(1,2)] that list_of_two [of items "IString op" v] op by simp
  have three: "selector_wf sel \<and> items = [IString op, IString (sel_text sel), v]"
    if "selector_operand items = Ok sel" "length items = 3" "nth_opt items 2 = Some v" for sel v
    using that selector_operand_Ok [OF that(1)] list_of_three [OF that(2) op] by simp
  show ?case
    using parse op
    by (auto simp: res_simps arity_Ok w triple_def simp del: nth_opt_Some split: if_split_asm
        elim!: value_operand_Ok comparison_Ok like_operand_Ok dest: one part parts three)
qed

lemma policy_from_to: "policy_from_ipld w = Ok p \<Longrightarrow> policy_wf p \<and> policy_to_ipld p = w"
proof -
  assume "policy_from_ipld w = Ok p"
  then obtain items ss where items: "w = IList items" "res_map statement_from_ipld items = Ok ss" "p = Policy ss"
    by (auto simp: policy_from_ipld_def res_simps)
  have "list_all statement_wf ss \<and> map statement_to_ipld ss = items"
    using items(2) by (rule res_map_from_to) (rule statement_from_to)
  with items show ?thesis by (simp add: policy_wf_def policy_to_ipld_def)
qed

lemma policy_to_from: "policy_wf p \<Longrightarrow> policy_from_ipld (policy_to_ipld p) = Ok p"
proof -
  assume "policy_wf p"
  then have "res_map statement_from_ipld (map statement_to_ipld (statements p)) = Ok (statements p)"
    by (intro res_map_to_from statement_to_from) (simp add: policy_wf_def list_all_iff)
  then show ?thesis by (simp add: policy_from_ipld_def policy_to_ipld_def)
qed

text \<open>A policy travels inside a signed payload: its wire form is a strict codec.\<close>

interpretation policy_codec: round_trip_codec "\<lambda>p. Some (policy_to_ipld p)"
  "\<lambda>w. res_ok (policy_from_ipld w)" policy_wf
  by unfold_locales (use policy_from_to policy_to_from in auto)

text \<open>
  C8. \<open>Policy::from_ipld\<close> accepts a value exactly when it is what \<open>Policy::to_ipld\<close> writes for
  a policy whose selectors and patterns were parsed from their texts: the wire form loses nothing
  and no policy has two.
\<close>

theorem policy_wire_form:
  "policy_from_ipld w = Ok p \<longleftrightarrow> policy_wf p \<and> policy_to_ipld p = w"
  using policy_codec.dec_iff [of p w] policy_from_to [of w p] by auto

section \<open>Numbers\<close>

text \<open>The value of a number, times \<open>2 ^ 1074\<close>, and the floats whose comparison is exact.\<close>

fun number_value :: "number \<Rightarrow> int" where
  "number_value (NInteger i) = i * 2 ^ 1074"
| "number_value (NFloat f) = f64_scaled f"

definition float_exact :: "f64 \<Rightarrow> bool" where
  "float_exact f \<longleftrightarrow> f64_is_finite f \<and> \<bar>f64_scaled f\<bar> < f64_scaled float_1e38"

fun number_exact :: "number \<Rightarrow> bool" where
  "number_exact (NInteger i) = True"
| "number_exact (NFloat f) = float_exact f"

lemma float_1e38_bound: "f64_scaled float_1e38 < 2 ^ 127 * 2 ^ 1074"
  by (simp add: float_1e38_def f64_scaled_def f64_exponent_def f64_mantissa_def f64_negative_def)

lemma sgn_abs_div: "sgn s * (\<bar>s\<bar> div P) * P = s" if "P dvd s" for s P :: int
  using that by (auto simp: sgn_if)

lemma int_div_less: "a < b * P \<Longrightarrow> 0 < P \<Longrightarrow> a div P < b" for a b P :: int
proof (rule ccontr)
  assume "a < b * P" "0 < P" "\<not> a div P < b"
  moreover from this have "b * P \<le> a div P * P" by (intro mult_right_mono) auto
  moreover have "a div P * P \<le> a" using \<open>0 < P\<close> by (simp add: div_mult_mod_eq minus_mod_eq_div_mult [symmetric])
  ultimately show False by linarith
qed

lemma cmp_mult: "0 < P \<Longrightarrow> cmp (a * P) (b * P) = cmp a b" for P :: int
  by (simp add: cmp_def)

text \<open>Truncation keeps an integral float and \<open>as f64\<close> gives it back; others stay below \<open>2 ^ 52\<close>.\<close>

lemma truncate_exact:
  assumes "float_exact f"
  shows "2 ^ 1074 dvd f64_scaled f \<Longrightarrow>
      f64_to_i128 f * 2 ^ 1074 = f64_scaled f \<and> round_int (f64_to_i128 f) = f64_to_i128 f"
    and "\<not> 2 ^ 1074 dvd f64_scaled f \<Longrightarrow>
      round_int (f64_to_i128 f) * 2 ^ 1074 \<noteq> f64_scaled f \<and> \<bar>f64_scaled f\<bar> < 2 ^ 52 * 2 ^ 1074"
proof -
  define P :: int where "P = 2 ^ 1074"
  define s where "s = f64_scaled f"
  define t where "t = f64_to_i128 f"
  have P: "0 < P" by (simp add: P_def)
  have "\<bar>s\<bar> < 2 ^ 127 * P"
    using assms float_1e38_bound unfolding float_exact_def s_def P_def by linarith
  then have "\<bar>s\<bar> div P < 2 ^ 127" using P by (rule int_div_less)
  moreover have "0 \<le> \<bar>s\<bar> div P" using P by (simp add: pos_imp_zdiv_nonneg_iff)
  ultimately have t: "t = sgn s * (\<bar>s\<bar> div P)"
    unfolding t_def f64_to_i128_def Let_def s_def [symmetric] P_def [symmetric] i128_min_def i128_max_def
    by (auto simp: sgn_if)
  have dvd_t: "t * P = s" if "P dvd s" using sgn_abs_div [OF that] t by simp
  have round: "round_int t = t" if "P dvd s"
  proof (cases rule: f64_scaled_cases [of f])
    case (1 m k)
    then have "t * P = m * 2 ^ k * P" using dvd_t that unfolding s_def P_def by simp
    then have "t = m * 2 ^ k" using P by simp
    with 1(2) show ?thesis by (simp only: round_int_mult_power)
  next
    case 2
    then have "\<bar>t * P\<bar> < 2 ^ 52 * P" using dvd_t that unfolding s_def P_def by simp
    then have "\<bar>t\<bar> < 2 ^ 52" using P by (simp only: abs_mult abs_of_pos mult_less_cancel_right_pos)
    then show ?thesis by (intro round_int_small) simp
  qed
  show "2 ^ 1074 dvd f64_scaled f \<Longrightarrow>
      f64_to_i128 f * 2 ^ 1074 = f64_scaled f \<and> round_int (f64_to_i128 f) = f64_to_i128 f"
    using dvd_t round unfolding s_def t_def P_def by simp
  assume "\<not> 2 ^ 1074 dvd f64_scaled f"
  then have ndvd: "\<not> P dvd s" unfolding P_def s_def .
  then have "round_int t * P \<noteq> s" by auto
  moreover have "\<bar>s\<bar> < 2 ^ 52 * P"
    using ndvd unfolding s_def P_def
    by (cases rule: f64_scaled_cases [of f]) (metis dvd_triv_right, blast)
  ultimately show "round_int (f64_to_i128 f) * 2 ^ 1074 \<noteq> f64_scaled f \<and> \<bar>f64_scaled f\<bar> < 2 ^ 52 * 2 ^ 1074"
    unfolding s_def t_def P_def by blast
qed

text \<open>Rounding an integer does not move it across a float below \<open>2 ^ 52\<close>.\<close>

lemma round_int_side:
  assumes "\<bar>s\<bar> < 2 ^ 52 * P" and "0 < P"
  shows "cmp (round_int i * P) s = cmp (i * P) s"
proof -
  consider "\<bar>i\<bar> < 2 ^ 53" | "2 ^ 53 \<le> i" | "i \<le> - (2 ^ 53)" by linarith
  then show ?thesis
  proof cases
    case 1
    then show ?thesis by (simp only: round_int_small)
  next
    case 2
    have "s < j * P" if "2 ^ 53 \<le> j" for j
    proof -
      have "2 ^ 52 * P < j * P" using that assms(2) by (intro mult_strict_right_mono) auto
      with assms(1) show ?thesis by linarith
    qed
    from this [OF 2] this [OF round_int_large(1) [OF 2]] show ?thesis by (simp add: cmp_def)
  next
    case 3
    have "j * P < s" if "j \<le> - (2 ^ 53)" for j
    proof -
      have "j * P < - (2 ^ 52) * P" using that assms(2) by (intro mult_strict_right_mono) auto
      with assms(1) show ?thesis by linarith
    qed
    from this [OF 3] this [OF round_int_large(2) [OF 3]] show ?thesis by (simp add: cmp_def)
  qed
qed

lemma int_float_exact:
  assumes "float_exact f"
  shows "int_float i f = Some (cmp (i * 2 ^ 1074) (f64_scaled f))"
proof -
  define P :: int where "P = 2 ^ 1074"
  have P: "0 < P" by (simp add: P_def)
  note trunc = truncate_exact [OF assms, folded P_def]
  have bounds: "f64_is_finite f" "- f64_scaled float_1e38 < f64_scaled f" "f64_scaled f < f64_scaled float_1e38"
    using assms by (auto simp: float_exact_def)
  have "int_float i f = Some (cmp (i * P) (f64_scaled f))"
  proof (cases "P dvd f64_scaled f")
    case True
    with trunc(1) have "f64_to_i128 f * P = f64_scaled f" "round_int (f64_to_i128 f) * P = f64_scaled f" by simp_all
    with bounds cmp_mult [OF P, of i "f64_to_i128 f"] show ?thesis
      unfolding int_float_def P_def [symmetric] by simp
  next
    case False
    with trunc(2) bounds round_int_side [of "f64_scaled f" P i] P show ?thesis
      unfolding int_float_def P_def [symmetric] by simp
  qed
  then show ?thesis unfolding P_def .
qed

lemma float_exact_not_nan: "float_exact f \<Longrightarrow> \<not> f64_is_nan f"
  by (simp add: float_exact_def f64_is_finite_def f64_is_nan_def)

lemma number_comparison_exact_aux:
  "number_exact a \<Longrightarrow> number_exact b \<Longrightarrow>
    number_partial_cmp a b = Some (cmp (number_value a) (number_value b))"
  by (cases a; cases b)
    (simp_all add: int_float_exact float_exact_not_nan f64_partial_cmp_def cmp_def)

text \<open>
  C10. Comparisons between integers and floats, in any combination, are by exact numeric value, as
  long as the floats are finite and below \<open>1e38\<close> in magnitude.
\<close>

theorem number_comparison_exact:
  "number_exact a \<Longrightarrow> number_exact b \<Longrightarrow>
    number_partial_cmp a b = Some (cmp (number_value a) (number_value b))"
  by (rule number_comparison_exact_aux)

theorem number_comparison_exact_witness:
  "number_partial_cmp (NInteger (2 ^ 53 + 1)) (NFloat 0x4340000000000000) = Some ordering.Greater"
proof -
  have "f64_scaled 0x4340000000000000 = 2 ^ 53 * 2 ^ 1074"
    by (simp add: f64_scaled_def f64_exponent_def f64_mantissa_def f64_negative_def)
  moreover have "number_exact (NFloat 0x4340000000000000)"
    by (simp add: float_exact_def float_1e38_def f64_is_finite_def f64_scaled_def f64_exponent_def
        f64_mantissa_def f64_negative_def)
  ultimately show ?thesis
    using number_comparison_exact [of "NInteger (2 ^ 53 + 1)" "NFloat 0x4340000000000000"]
    by (simp add: cmp_def)
qed

lemma rounds_to_2_127:
  assumes "n = 2 ^ 127 - 1 \<or> n = 2 ^ 127 - 2"
  shows "int_float n 0x47E0000000000000 = Some ordering.Equal"
proof -
  have scaled: "f64_scaled 0x47E0000000000000 = 2 ^ 127 * 2 ^ 1074" "f64_is_finite 0x47E0000000000000"
    by (simp_all add: f64_scaled_def f64_exponent_def f64_mantissa_def f64_negative_def f64_is_finite_def)
  have big: "\<not> f64_scaled 0x47E0000000000000 < f64_scaled float_1e38"
    using float_1e38_bound scaled(1) by linarith
  have "bit_length (2 ^ 127 - 1) = 127" "bit_length (2 ^ 127 - 2) = 127" by (simp_all add: bit_length.simps)
  then have round: "round_int n = 2 ^ 127"
    using assms by (auto simp: round_int_def round_nat_def Let_def)
  have "int_float n 0x47E0000000000000 = Some (cmp (round_int n * 2 ^ 1074) (f64_scaled 0x47E0000000000000))"
    using big scaled(2) by (simp only: int_float_def) simp
  then show ?thesis by (simp only: round scaled) (simp add: cmp_def)
qed


section \<open>Equality\<close>

text \<open>
  The canonical form of a value: numbers become their value (times \<open>2 ^ 1074\<close>), everything else
  stays. Values whose floats are exact:
\<close>

fun canonical :: "'c ipld \<Rightarrow> 'c ipld" where
  "canonical (IInteger i) = IInteger (number_value (NInteger i))"
| "canonical (IFloat f) = IInteger (number_value (NFloat f))"
| "canonical (IList vs) = IList (map canonical vs)"
| "canonical (IMap m) = IMap (map (\<lambda>(k, v). (k, canonical v)) m)"
| "canonical v = v"

fun exact_node :: "'c ipld \<Rightarrow> bool" where
  "exact_node (IFloat f) = float_exact f"
| "exact_node _ = True"

lemma equal_numbers:
  "number_from_ipld a = Some x \<Longrightarrow> number_from_ipld b = Some y \<Longrightarrow>
    equal a b \<longleftrightarrow> number_partial_cmp x y = Some ordering.Equal"
  by (simp add: equal.simps [of a b] is_number_def)

lemma equal_leaf:
  "number_from_ipld a = None \<Longrightarrow> (\<And>vs. a \<noteq> IList vs) \<Longrightarrow> (\<And>m. a \<noteq> IMap m) \<Longrightarrow> equal a b \<longleftrightarrow> a = b"
  by (cases a) (auto simp: equal.simps [of _ b] is_number_def)

lemma equal_IList:
  "equal (IList x) b \<longleftrightarrow> (\<exists>y. b = IList y \<and> list_all2 equal x y)"
  by (cases b) (auto simp: equal.simps [of "IList x"] is_number_def list_all2_iff list_all_iff)

lemma equal_IMap:
  "equal (IMap x) b \<longleftrightarrow> (\<exists>y. b = IMap y \<and> length x = length y
    \<and> (\<forall>e \<in> set x. \<exists>w. bt_get y (fst e) = Some w \<and> equal (snd e) w))"
  by (cases b) (auto simp: equal.simps [of "IMap x"] is_number_def list_all_iff split: option.splits)

lemma canonical_number:
  "number_from_ipld a = Some x \<Longrightarrow> canonical a = IInteger (number_value x) \<and> (ipld_all exact_node a \<longleftrightarrow> number_exact x)"
  by (cases a) auto

lemma canonical_eq_number: "number_from_ipld b = None \<Longrightarrow> canonical b \<noteq> IInteger i"
  by (cases b) auto

lemma list_all2_map_eq:
  "(\<And>p q. p \<in> set x \<Longrightarrow> q \<in> set y \<Longrightarrow> r p q \<longleftrightarrow> f p = f q) \<Longrightarrow> list_all2 r x y \<longleftrightarrow> map f x = map f y"
  by (auto simp: list_all2_conv_all_nth list_eq_iff_nth_eq)

text \<open>Two maps of the same size, the one's entries found in the other, have the same entries.\<close>

lemma map_entries_eq:
  assumes wf: "bt_wf x" "bt_wf y"
    and r: "\<And>e w. e \<in> set x \<Longrightarrow> (fst e, w) \<in> set y \<Longrightarrow> r (snd e) w \<longleftrightarrow> f (snd e) = f w"
  shows "length x = length y \<and> (\<forall>e \<in> set x. \<exists>w. bt_get y (fst e) = Some w \<and> r (snd e) w)
    \<longleftrightarrow> map (\<lambda>(k, v). (k, f v)) x = map (\<lambda>(k, v). (k, f v)) y"
    (is "?found \<longleftrightarrow> ?g x = ?g y")
proof
  assume found: ?found
  have wf_g: "bt_wf (?g m) \<longleftrightarrow> bt_wf m" for m by (simp add: bt_wf_def comp_def case_prod_unfold)
  have "set (?g x) \<subseteq> set (?g y)"
  proof
    fix e
    assume "e \<in> set (?g x)"
    then obtain k v where e: "(k, v) \<in> set x" "e = (k, f v)" by auto
    with found obtain w where w: "bt_get y k = Some w" "r v w" by force
    then have "(k, w) \<in> set y" using wf(2) by (simp add: bt_get_Some_iff)
    with r [of "(k, v)" w] e w(2) show "e \<in> set (?g y)" by force
  qed
  moreover have "distinct (?g x)" "distinct (?g y)"
    using wf wf_g bt_wf_distinct distinct_map by blast+
  moreover have "length (?g x) = length (?g y)" using found by simp
  ultimately have "set (?g x) = set (?g y)" by (metis card_subset_eq distinct_card finite_set)
  with wf wf_g show "?g x = ?g y" by (intro bt_set_ext) auto
next
  assume g: "?g x = ?g y"
  have "\<exists>w. bt_get y (fst e) = Some w \<and> r (snd e) w" if e: "e \<in> set x" for e
  proof -
    have "(fst e, f (snd e)) \<in> set (?g y)" using e g [symmetric] by force
    then obtain w where w: "(fst e, w) \<in> set y" "f w = f (snd e)" by auto
    with wf(2) r [OF e w(1)] show ?thesis by (auto simp: bt_get_Some_iff)
  qed
  with g show ?found using map_eq_imp_length_eq [OF g] by blast
qed

lemma equal_number_canonical:
  assumes a: "number_from_ipld a = Some x" and exact: "ipld_all exact_node a" "ipld_all exact_node b"
  shows "equal a b \<longleftrightarrow> canonical a = canonical b"
proof (cases "number_from_ipld b")
  case None
  then have "a \<noteq> b" using a by auto
  with None a have "\<not> equal a b" by (cases a) (auto simp: equal.simps [of _ b] is_number_def)
  with None a show ?thesis by (metis canonical_number canonical_eq_number)
next
  case (Some y)
  with a exact show ?thesis
    using number_comparison_exact_aux [of x y] canonical_number [OF a] canonical_number [OF Some]
    by (simp add: equal_numbers)
qed

lemma equal_canonical:
  "ipld_wf a \<Longrightarrow> ipld_wf b \<Longrightarrow> ipld_all exact_node a \<Longrightarrow> ipld_all exact_node b \<Longrightarrow>
    equal a b \<longleftrightarrow> canonical a = canonical b"
proof (induction a arbitrary: b)
  case (IList x)
  have "equal p q \<longleftrightarrow> canonical p = canonical q" if "p \<in> set x" "q \<in> set y" "b = IList y" for p q y
    using IList that by simp
  then show ?case by (cases b) (auto simp: equal_IList list_all2_map_eq)
next
  case (IMap x)
  show ?case
  proof (cases b)
    case b: (IMap y)
    have "equal (snd e) w \<longleftrightarrow> canonical (snd e) = canonical w" if "e \<in> set x" "(fst e, w) \<in> set y" for e w
      using IMap.IH [of e "snd e" w] IMap.prems that b by (cases e) force
    then show ?thesis using IMap.prems b map_entries_eq [of x y equal canonical]
      by (simp add: equal_IMap)
  qed (simp_all add: equal_IMap)
next
  case (IInteger i)
  then show ?case by (intro equal_number_canonical [of _ "NInteger i"]) auto
next
  case (IFloat f)
  then show ?case by (intro equal_number_canonical [of _ "NFloat f"]) auto
qed (simp add: equal_leaf, case_tac b; simp)+



section \<open>Checking\<close>

lemma policy_check_Ok: "policy_check p args = Ok u \<longleftrightarrow> list_all (\<lambda>s. holds s args) (statements p)"
  using position_None [of "\<lambda>s. \<not> holds s args" "statements p"]
  by (cases "position (\<lambda>s. \<not> holds s args) (statements p)") (auto simp: policy_check_def list_all_iff)

lemma policy_check_Err: "policy_check p args = Err i \<longleftrightarrow>
  i < length (statements p) \<and> \<not> holds (statements p ! i) args \<and> (\<forall>j < i. holds (statements p ! j) args)"
  using position_Some [of "\<lambda>s. \<not> holds s args" "statements p" i]
  by (cases "position (\<lambda>s. \<not> holds s args) (statements p)") (auto simp: policy_check_def)



text \<open>A longer policy allows less: every statement can only narrow.\<close>

lemma policy_check_append:
  "policy_check (Policy (xs @ ys)) args = Ok u \<longleftrightarrow>
    policy_check (Policy xs) args = Ok () \<and> policy_check (Policy ys) args = Ok ()"
  by (simp add: policy_check_Ok)

text \<open>What a statement does when its selector does not resolve: all but \<open>!=\<close> fail.\<close>

lemma holds_unresolved:
  assumes "resolve sel args = None"
  shows "\<not> holds (Equal sel v) args" "holds (NotEqual sel v) args"
    "\<not> holds (Less sel n) args" "\<not> holds (LessOrEqual sel n) args"
    "\<not> holds (Greater sel n) args" "\<not> holds (GreaterOrEqual sel n) args"
    "\<not> holds (Like sel p) args" "\<not> holds (All sel inner) args" "\<not> holds (Any sel inner) args"
  using assms by (simp_all add: selected_equal_def compare_def elements_def)

end
