(* ===== verification/Dag_Json.thy ===== *)
theory Dag_Json
  imports Cbor_Encode
begin

unbundle bit_operations_syntax

text \<open>
  \<open>codec/json.rs\<close>: strict DAG-JSON, in both directions. The parser's \<open>(text, pos)\<close> is the text
  that remains: every step that succeeds ends on a character boundary, and a byte taken out of the
  middle of a character is followed by an error.
\<close>

section \<open>Base64\<close>

definition ALPHABET :: str where
  "ALPHABET = lit ''ABCDEFGHIJKLMNOPQRSTUVWXYZabcdefghijklmnopqrstuvwxyz0123456789+/''"

text \<open>One round of the encoder: up to three bytes, left aligned in 24 bits.\<close>

definition base64_group :: "byte list \<Rightarrow> str" where
  "base64_group chunk =
     (let group = map (\<lambda>i. case nth_opt chunk i of Some b \<Rightarrow> ucast b | None \<Rightarrow> 0) [0, 1, 2];
          bits = push_bit 16 (group ! 0) OR push_bit 8 (group ! 1) OR (group ! 2) :: 32 word
      in map (\<lambda>i. ALPHABET ! unat (drop_bit (18 - 6 * i) bits AND 0x3F)) [0..<Suc (length chunk)])"

fun base64_encode :: "byte list \<Rightarrow> str" where
  "base64_encode bs = (if bs = [] then [] else base64_group (take 3 bs) @ base64_encode (drop 3 bs))"

declare base64_encode.simps [simp del]

text \<open>The decoding loop over the symbols, with the pending bits and their number.\<close>

fun base64_loop :: "32 word \<Rightarrow> nat \<Rightarrow> byte list \<Rightarrow> str \<Rightarrow> codec_error + byte list" where
  "base64_loop bits pending out [] = (if 6 \<le> pending then Err InvalidBase64 else Ok out)"
| "base64_loop bits pending out (c # s) =
     (case position (\<lambda>a. a = c) ALPHABET of
        None \<Rightarrow> Err InvalidBase64
      | Some v \<Rightarrow>
          let bits' = push_bit 6 bits OR of_nat v; pending' = pending + 6 in
          if 8 \<le> pending' then base64_loop bits' (pending' - 8) (out @ [ucast (drop_bit (pending' - 8) bits' AND 0xFF)]) s
          else base64_loop bits' pending' out s)"

definition base64_decode :: "str \<Rightarrow> codec_error + byte list" where
  "base64_decode text' = base64_loop 0 0 [] text'"

section \<open>Encoding\<close>

abbreviation quote_mark :: uchar where "quote_mark \<equiv> ascii (CHR 0x22)"
abbreviation reverse_solidus :: uchar where "reverse_solidus \<equiv> ascii (CHR 0x5C)"
abbreviation comma :: uchar where "comma \<equiv> ascii CHR '',''"
abbreviation colon_mark :: uchar where "colon_mark \<equiv> ascii CHR '':''"
abbreviation open_bracket :: uchar where "open_bracket \<equiv> ascii CHR ''[''"
abbreviation close_bracket_mark :: uchar where "close_bracket_mark \<equiv> ascii CHR '']''"
abbreviation open_brace :: uchar where "open_brace \<equiv> ascii CHR ''{''"
abbreviation close_brace :: uchar where "close_brace \<equiv> ascii CHR ''}''"

definition check_range :: "int \<Rightarrow> codec_error + unit" where
  "check_range value' =
     (let magnitude = (if 0 \<le> value' then value' else - 1 - value')
      in map_ok (\<lambda>_. ()) (ok_or IntegerOutOfRange (u64_try_from magnitude)))"

text \<open>What the string writer pushes for one character.\<close>

definition escaped :: "uchar \<Rightarrow> str" where
  "escaped c =
     (if c = quote_mark then [reverse_solidus, quote_mark]
      else if c = reverse_solidus then [reverse_solidus, reverse_solidus]
      else if c = uchar_of 10 then [reverse_solidus, ascii CHR ''n'']
      else if c = uchar_of 13 then [reverse_solidus, ascii CHR ''r'']
      else if c = uchar_of 9 then [reverse_solidus, ascii CHR ''t'']
      else if c = uchar_of 8 then [reverse_solidus, ascii CHR ''b'']
      else if c = uchar_of 12 then [reverse_solidus, ascii CHR ''f'']
      else if code_point c < 0x20 then
        [reverse_solidus] @ lit ''u00'' @ [hex_digit_char (code_point c div 16), hex_digit_char (code_point c mod 16)]
      else [c])"

definition json_string :: "str \<Rightarrow> str" where
  "json_string s = [quote_mark] @ concat (map escaped s) @ [quote_mark]"

text \<open>Items separated by commas.\<close>

fun commas :: "str list \<Rightarrow> str" where
  "commas [] = []"
| "commas [s] = s"
| "commas (s # ss) = s @ comma # commas ss"

function json_item :: "'c cid_lib \<Rightarrow> nat \<Rightarrow> 'c ipld \<Rightarrow> codec_error + str" where
  "json_item L depth value' =
     (if MAX_DEPTH < depth then Err NestingTooDeep
      else case value' of
        INull \<Rightarrow> Ok (lit ''null'')
      | IBool b \<Rightarrow> Ok (if b then lit ''true'' else lit ''false'')
      | IInteger i \<Rightarrow> map_ok (\<lambda>_. int_to_str i) (check_range i)
      | IFloat _ \<Rightarrow> Err FloatInText
      | IString s \<Rightarrow> Ok (json_string s)
      | IBytes b \<Rightarrow>
          Ok ([open_brace] @ json_string (lit ''/'') @ [colon_mark, open_brace] @ json_string (lit ''bytes'')
            @ [colon_mark, quote_mark] @ base64_encode b @ [quote_mark, close_brace, close_brace])
      | IList vs \<Rightarrow>
          map_ok (\<lambda>ts. [open_bracket] @ commas ts @ [close_bracket_mark])
            (res_map (\<lambda>entry. json_item L (depth + 1) entry) vs)
      | IMap m \<Rightarrow>
          if bt_get m (lit ''/'') \<noteq> None then Err ReservedKey
          else map_ok (\<lambda>ts. [open_brace] @ commas ts @ [close_brace])
            (res_map (\<lambda>e. map_ok (\<lambda>t. json_string (fst e) @ colon_mark # t) (json_item L (depth + 1) (snd e))) m)
      | ILink cid \<Rightarrow>
          Ok ([open_brace] @ json_string (lit ''/'') @ [colon_mark, quote_mark] @ cid_to_string L cid
            @ [quote_mark, close_brace]))"
  by pat_completeness auto
termination
  by (relation "measure (\<lambda>(L, depth, v). size v)")
    (auto simp: less_Suc_eq_le size_list_estimation' intro: size_map_entry [simplified])

declare json_item.simps [simp del]

definition json_encode :: "'c cid_lib \<Rightarrow> 'c ipld \<Rightarrow> codec_error + str" where
  "json_encode L value' = json_item L 0 value'"

section \<open>Decoding\<close>

type_synonym 'a parsing = "codec_error + ('a \<times> str)"

definition js_next :: "str \<Rightarrow> uchar parsing" where
  "js_next s = (case s of [] \<Rightarrow> Err UnexpectedEnd | c # r \<Rightarrow> Ok (c, r))"

definition js_expect :: "uchar \<Rightarrow> str \<Rightarrow> codec_error + str" where
  "js_expect c s = res_bind (js_next s) (\<lambda>(d, r). if d = c then Ok r else Err InvalidJson)"

definition js_literal :: "str \<Rightarrow> str \<Rightarrow> codec_error + str" where
  "js_literal word s = ok_or InvalidJson (strip_prefix word s)"

definition hex4 :: "str \<Rightarrow> nat parsing" where
  "hex4 s =
     res_bind (ok_or UnexpectedEnd (split_at_byte 4 s)) (\<lambda>(digits, r).
     res_bind (ok_or InvalidJson (u32_from_hex digits)) (\<lambda>n. Ok (n, r)))"

definition js_escape :: "str \<Rightarrow> uchar parsing" where
  "js_escape s =
     res_bind (js_next s) (\<lambda>(c, r).
       if c = quote_mark then Ok (quote_mark, r)
       else if c = reverse_solidus then Ok (reverse_solidus, r)
       else if c = ascii CHR ''/'' then Ok (ascii CHR ''/'', r)
       else if c = ascii CHR ''b'' then Ok (uchar_of 8, r)
       else if c = ascii CHR ''f'' then Ok (uchar_of 12, r)
       else if c = ascii CHR ''n'' then Ok (uchar_of 10, r)
       else if c = ascii CHR ''r'' then Ok (uchar_of 13, r)
       else if c = ascii CHR ''t'' then Ok (uchar_of 9, r)
       else if c = ascii CHR ''u'' then
         res_bind (hex4 r) (\<lambda>(high, r).
         res_bind (if 0xD800 \<le> high \<and> high < 0xDC00 then
             res_bind (js_literal ([reverse_solidus, ascii CHR ''u'']) r) (\<lambda>r.
             res_bind (hex4 r) (\<lambda>(low, r).
             if \<not> (0xDC00 \<le> low \<and> low < 0xE000) then Err InvalidJson
             else Ok (0x10000 + (high - 0xD800) * 2 ^ 10 + (low - 0xDC00), r)))
           else Ok (high, r)) (\<lambda>(code, r).
         res_bind (ok_or InvalidJson (char_from_u32 code)) (\<lambda>c. Ok (c, r))))
       else Err InvalidJson)"

definition plain :: "uchar \<Rightarrow> bool" where
  "plain c \<longleftrightarrow> \<not> (c = quote_mark \<or> c = reverse_solidus \<or> code_point c < 0x20)"

lemma hex4_shorter: "hex4 s = Ok (n, r) \<Longrightarrow> length r < length s"
proof -
  assume "hex4 s = Ok (n, r)"
  then obtain digits where "split_at_byte 4 s = Some (digits, r)" by (auto simp: hex4_def res_simps)
  then have "s = digits @ r" "4 = str_len digits" by (auto dest: split_at_byte_Some)
  then show ?thesis by (cases digits) (auto simp: str_len_def)
qed

lemma js_next_Ok: "js_next s = Ok (c, r) \<longleftrightarrow> s = c # r"
  by (cases s) (auto simp: js_next_def)

lemma js_literal_Ok: "js_literal word s = Ok r \<longleftrightarrow> s = word @ r"
  by (simp add: js_literal_def strip_prefix_Some)

lemma js_expect_Ok: "js_expect c s = Ok r \<longleftrightarrow> s = c # r"
  by (auto simp: js_expect_def res_simps js_next_Ok)

lemma js_escape_shorter: "js_escape s = Ok (c, r) \<Longrightarrow> length r < length s"
proof -
  assume "js_escape s = Ok (c, r)"
  then obtain d r' where s: "s = d # r'" and "length r \<le> length r'"
    by (auto simp: js_escape_def res_simps js_next_Ok js_literal_Ok dest!: hex4_shorter split: if_splits prod.splits)
  then show ?thesis by simp
qed

function js_string_loop :: "str \<Rightarrow> str \<Rightarrow> str parsing" where
  "js_string_loop out s =
     (let run = takeWhile plain s in
      case dropWhile plain s of
        [] \<Rightarrow> Err UnexpectedEnd
      | c # r \<Rightarrow>
          if c = quote_mark then Ok (out @ run, r)
          else if c = reverse_solidus then
            res_bind (js_escape r) (\<lambda>(e, r'). js_string_loop (out @ run @ [e]) r')
          else Err InvalidJson)"
  by pat_completeness auto
termination
proof (relation "measure (\<lambda>(out, s). length s)", goal_cases)
  case (2 out s run c r x e r')
  then have "length r' < length r" by (cases x) (auto dest: js_escape_shorter)
  moreover have "length (c # r) \<le> length s" using 2 length_dropWhile_le [of plain s] by simp
  ultimately show ?case by simp
qed simp

declare js_string_loop.simps [simp del]

definition js_string :: "str \<Rightarrow> str parsing" where
  "js_string s = res_bind (js_expect quote_mark s) (js_string_loop [])"

definition js_number :: "str \<Rightarrow> 'c ipld parsing" where
  "js_number s =
     (let sign = (if starts_with_char (ascii CHR ''-'') s then [ascii CHR ''-''] else []);
          body = drop (length sign) s;
          digits = takeWhile is_ascii_digit body;
          r = dropWhile is_ascii_digit body
      in if digits = [] then Err InvalidJson
         else if r \<noteq> [] \<and> hd r \<in> {ascii CHR ''.'', ascii CHR ''e'', ascii CHR ''E''} then Err FloatInText
         else
           res_bind (ok_or IntegerOutOfRange (parse_int i128_min i128_max (sign @ digits))) (\<lambda>i.
           res_bind (check_range i) (\<lambda>_. Ok (IInteger i, r))))"

text \<open>A map keyed by \<open>/\<close> is a link or bytes, and nothing else.\<close>

definition reserved :: "'c cid_lib \<Rightarrow> (str \<times> 'c ipld) list \<Rightarrow> codec_error + 'c ipld" where
  "reserved L m =
     (case bt_get m (lit ''/'') of
        None \<Rightarrow> Ok (IMap m)
      | Some inner \<Rightarrow>
          if bt_remove (lit ''/'') m \<noteq> [] then Err ReservedKey
          else case inner of
            IString t \<Rightarrow> map_ok ILink (map_err (\<lambda>_. InvalidCid) (cid_from_text L t))
          | IMap form \<Rightarrow>
              (case (bt_get form (lit ''bytes''), bt_remove (lit ''bytes'') form) of
                 (Some (IString t), []) \<Rightarrow> map_ok IBytes (base64_decode t)
               | _ \<Rightarrow> Err ReservedKey)
          | _ \<Rightarrow> Err ReservedKey)"

text \<open>
  The loops of \<open>list\<close> and \<open>map\<close> after the opening bracket, with the parser of the elements as a
  parameter and one unit of fuel for each element; an element takes at least one character, so the
  number of characters that remain is more than enough (\<open>js_items_loop\<close>, \<open>js_entries_loop\<close>).
\<close>

fun js_items :: "nat \<Rightarrow> (str \<Rightarrow> 'a parsing) \<Rightarrow> str \<Rightarrow> 'a list parsing" where
  "js_items 0 p s = Err UnexpectedEnd"
| "js_items (Suc n) p s =
     res_bind (p s) (\<lambda>(v, r).
     res_bind (js_next r) (\<lambda>(c, r).
       if c = comma then map_ok (\<lambda>(vs, r). (v # vs, r)) (js_items n p r)
       else if c = close_bracket_mark then Ok ([v], r)
       else Err InvalidJson))"

fun js_entries ::
  "'c cid_lib \<Rightarrow> nat \<Rightarrow> (str \<Rightarrow> 'c ipld parsing) \<Rightarrow> (str \<times> 'c ipld) list \<Rightarrow> str \<Rightarrow> 'c ipld parsing" where
  "js_entries L 0 p m s = Err UnexpectedEnd"
| "js_entries L (Suc n) p m s =
     res_bind (js_string s) (\<lambda>(key, r).
     res_bind (js_expect colon_mark r) (\<lambda>r.
     res_bind (p r) (\<lambda>(v, r).
       if bt_get m key \<noteq> None then Err DuplicateKey
       else
         res_bind (js_next r) (\<lambda>(c, r).
           if c = comma then js_entries L n p (bt_insert key v m) r
           else if c = close_brace then map_ok (\<lambda>w. (w, r)) (reserved L (bt_insert key v m))
           else Err InvalidJson))))"

definition js_list :: "(str \<Rightarrow> 'c ipld parsing) \<Rightarrow> str \<Rightarrow> 'c ipld parsing" where
  "js_list p s =
     res_bind (js_expect open_bracket s) (\<lambda>r.
       if starts_with_char close_bracket_mark r then Ok (IList [], tl r)
       else map_ok (\<lambda>(vs, r). (IList vs, r)) (js_items (Suc (length r)) p r))"

definition js_map :: "'c cid_lib \<Rightarrow> (str \<Rightarrow> 'c ipld parsing) \<Rightarrow> str \<Rightarrow> 'c ipld parsing" where
  "js_map L p s =
     res_bind (js_expect open_brace s) (\<lambda>r.
       if starts_with_char close_brace r then Ok (IMap [], tl r)
       else js_entries L (Suc (length r)) p [] r)"

function js_value :: "'c cid_lib \<Rightarrow> nat \<Rightarrow> str \<Rightarrow> 'c ipld parsing" where
  "js_value L depth s =
     (if MAX_DEPTH < depth then Err NestingTooDeep
      else case s of
        [] \<Rightarrow> Err UnexpectedEnd
      | c # _ \<Rightarrow>
          if c = ascii CHR ''n'' then map_ok (Pair INull) (js_literal (lit ''null'') s)
          else if c = ascii CHR ''t'' then map_ok (Pair (IBool True)) (js_literal (lit ''true'') s)
          else if c = ascii CHR ''f'' then map_ok (Pair (IBool False)) (js_literal (lit ''false'') s)
          else if c = quote_mark then map_ok (\<lambda>(t, r). (IString t, r)) (js_string s)
          else if c = open_bracket then js_list (\<lambda>r. js_value L (depth + 1) r) s
          else if c = open_brace then js_map L (\<lambda>r. js_value L (depth + 1) r) s
          else if c = ascii CHR ''-'' \<or> is_ascii_digit c then js_number s
          else Err InvalidJson)"
  by pat_completeness auto
termination
  by (relation "measure (\<lambda>(L, depth, s). Suc MAX_DEPTH - depth)") auto

declare js_value.simps [simp del]

definition json_decode :: "'c cid_lib \<Rightarrow> byte list \<Rightarrow> codec_error + 'c ipld" where
  "json_decode L raw =
     res_bind (ok_or InvalidUtf8 (from_utf8 raw)) (\<lambda>t.
     res_bind (js_value L 0 t) (\<lambda>(v, r).
       if r \<noteq> [] then Err TrailingBytes
       else res_bind (json_encode L v) (\<lambda>s. if utf8 s \<noteq> raw then Err NotCanonical else Ok v)))"

end
