(* ===== verification/Dag_Json_Laws.thy ===== *)
theory Dag_Json_Laws
  imports Dag_Json
begin

text \<open>
  Strict DAG-JSON reads back what it writes: base64, strings, numbers, then whole values, each
  followed by whatever comes after it in the text.
\<close>

section \<open>Base64\<close>

lemma position_distinct: "distinct xs \<Longrightarrow> n < length xs \<Longrightarrow> position (\<lambda>a. a = xs ! n) xs = Some n"
  by (auto simp: position_Some nth_eq_iff_index_eq)

lemma length_ALPHABET: "length ALPHABET = 64"
  by (simp add: ALPHABET_def)

lemma distinct_ALPHABET: "distinct ALPHABET"
  by (simp add: ALPHABET_def)

lemma and_3F: "w AND 0x3F = take_bit 6 w" for w :: "32 word"
  by (simp add: take_bit_eq_mask mask_numeral)

lemma and_FF: "w AND 0xFF = take_bit 8 w" for w :: "32 word"
  by (simp add: take_bit_eq_mask mask_numeral)

text \<open>A symbol the encoder wrote is read back as its six bits.\<close>

lemma six_bits_bound: "unat (take_bit 6 w :: 32 word) < 64"
proof -
  have "unat (take_bit 6 w) = take_bit 6 (unat w)" by (simp add: unsigned_take_bit_eq)
  also have "\<dots> < 2 ^ 6" by (rule take_bit_nat_less_exp)
  finally show ?thesis by simp
qed

lemma position_symbol: "position (\<lambda>a. a = ALPHABET ! unat (take_bit 6 w :: 32 word)) ALPHABET = Some (unat (take_bit 6 w))"
  using position_distinct [OF distinct_ALPHABET, of "unat (take_bit 6 w)"] six_bits_bound
  by (simp add: length_ALPHABET)

text \<open>The three bytes the decoder pushes for four symbols, with \<open>x\<close> the bits left from before.\<close>

definition group_word :: "byte \<Rightarrow> byte \<Rightarrow> byte \<Rightarrow> 32 word" where
  "group_word a b c = push_bit 16 (ucast a) OR push_bit 8 (ucast b) OR ucast c"

definition shifted :: "32 word \<Rightarrow> nat \<Rightarrow> 32 word \<Rightarrow> 32 word" where
  "shifted x n w = push_bit 6 x OR take_bit 6 (drop_bit n w)"

lemma byte_high_bit: "8 \<le> n \<Longrightarrow> \<not> bit (b :: byte) n"
  using bit_imp_le_length [of b n] by auto

lemma byte_index: "n < LENGTH(8) \<Longrightarrow> n = 0 \<or> n = 1 \<or> n = 2 \<or> n = 3 \<or> n = 4 \<or> n = 5 \<or> n = 6 \<or> n = 7"
  by simp linarith

lemmas group_bits = bit_simps shifted_def group_word_def byte_high_bit

lemma group_first:
  "ucast (take_bit 8 (drop_bit 4 (shifted (shifted x 18 (group_word a b c)) 12 (group_word a b c)))) = a"
  (is "?l = _")
proof (rule bit_word_eqI)
  show "bit ?l n = bit a n" if "n < LENGTH(8)" for n
    using byte_index [OF that] by (elim disjE) (simp_all add: group_bits)
qed

lemma group_second:
  "ucast (take_bit 8 (drop_bit 2 (shifted (shifted x 12 (group_word a b c)) 6 (group_word a b c)))) = b"
  (is "?l = _")
proof (rule bit_word_eqI)
  show "bit ?l n = bit b n" if "n < LENGTH(8)" for n
    using byte_index [OF that] by (elim disjE) (simp_all add: group_bits)
qed

lemma group_third:
  "ucast (take_bit 8 (shifted (shifted x 6 (group_word a b c)) 0 (group_word a b c))) = c"
  (is "?l = _")
proof (rule bit_word_eqI)
  show "bit ?l n = bit c n" if "n < LENGTH(8)" for n
    using byte_index [OF that] by (elim disjE) (simp_all add: group_bits)
qed

definition symbol :: "nat \<Rightarrow> 32 word \<Rightarrow> uchar" where
  "symbol n w = ALPHABET ! unat (take_bit 6 (drop_bit n w))"

lemma base64_loop_symbol:
  "base64_loop bits pending out (symbol n w # s) =
     (if 2 \<le> pending
      then base64_loop (shifted bits n w) (pending - 2) (out @ [ucast (take_bit 8 (drop_bit (pending - 2) (shifted bits n w)))]) s
      else base64_loop (shifted bits n w) (pending + 6) out s)"
  using position_symbol [of "drop_bit n w"] by (simp add: symbol_def shifted_def and_FF Let_def)

lemma base64_group_3: "base64_group [a, b, c] = map (\<lambda>n. symbol n (group_word a b c)) [18, 12, 6, 0]"
  by (simp add: base64_group_def Let_def and_3F symbol_def group_word_def upt_rec nth_opt_def)

lemma base64_group_2: "base64_group [a, b] = map (\<lambda>n. symbol n (group_word a b 0)) [18, 12, 6]"
  by (simp add: base64_group_def Let_def and_3F symbol_def group_word_def upt_rec nth_opt_def)

lemma base64_group_1: "base64_group [a] = map (\<lambda>n. symbol n (group_word a 0 0)) [18, 12]"
  by (simp add: base64_group_def Let_def and_3F symbol_def group_word_def upt_rec nth_opt_def)

lemmas base64_loop_group = base64_loop_symbol group_first group_second group_third

lemma base64_loop_encode: "base64_loop x 0 out (base64_encode bs) = Ok (out @ bs)"
proof (induction bs arbitrary: x out rule: base64_encode.induct)
  case (1 bs)
  consider "bs = []" | a where "bs = [a]" | a b where "bs = [a, b]" | a b c r where "bs = a # b # c # r"
    by (metis list.exhaust)
  then show ?case
  proof cases
    case 4
    with 1 show ?thesis
      by (subst base64_encode.simps) (simp add: base64_group_3 base64_loop_group del: base64_loop.simps(2))
  qed (subst base64_encode.simps, simp add: base64_group_2 base64_group_1 base64_loop_group base64_encode.simps del: base64_loop.simps(2))+
qed

lemma base64_decode_encode [simp]: "base64_decode (base64_encode bs) = Ok bs"
  by (simp add: base64_decode_def base64_loop_encode)

section \<open>Strings\<close>

lemma js_string_loop_plain: "plain c \<Longrightarrow> js_string_loop out (c # s) = js_string_loop (out @ [c]) s"
  by (cases "dropWhile plain s") (simp_all add: js_string_loop.simps [of _ "c # s"] js_string_loop.simps [of _ s] Let_def del: dropWhile_eq_Nil_conv)

lemma js_string_loop_escape:
  "js_string_loop out (reverse_solidus # s) = res_bind (js_escape s) (\<lambda>(e, r). js_string_loop (out @ [e]) r)"
  by (simp add: js_string_loop.simps [of _ "reverse_solidus # s"] plain_def uchar_eq_iff)

lemma js_string_loop_end: "js_string_loop out (quote_mark # r) = Ok (out, r)"
  by (simp add: js_string_loop.simps plain_def)

text \<open>The escapes the writer uses.\<close>

lemma js_escape_letter:
  "js_escape (quote_mark # r) = Ok (quote_mark, r)"
  "js_escape (reverse_solidus # r) = Ok (reverse_solidus, r)"
  "js_escape (ascii CHR ''n'' # r) = Ok (uchar_of 10, r)"
  "js_escape (ascii CHR ''r'' # r) = Ok (uchar_of 13, r)"
  "js_escape (ascii CHR ''t'' # r) = Ok (uchar_of 9, r)"
  "js_escape (ascii CHR ''b'' # r) = Ok (uchar_of 8, r)"
  "js_escape (ascii CHR ''f'' # r) = Ok (uchar_of 12, r)"
  by (simp_all add: js_escape_def js_next_def)

lemma hex4_control:
  assumes "h < 16" "l < 16"
  shows "hex4 (ascii CHR ''0'' # ascii CHR ''0'' # hex_digit_char h # hex_digit_char l # r) = Ok (16 * h + l, r)"
proof -
  have len: "str_len [c] = 1" if "is_ascii_hexdigit c" for c
    using that by (auto simp: str_len_def utf8_char_def char_class_defs Let_def)
  have zero: "is_ascii_hexdigit (ascii CHR ''0'')" "hex_val (ascii CHR ''0'') = 0" "ascii CHR ''0'' \<noteq> ascii CHR ''+''"
    by (simp_all add: hex_val_def char_class_defs)
  let ?d = "[ascii CHR ''0'', ascii CHR ''0'', hex_digit_char h, hex_digit_char l]"
  have "str_len ?d = 4"
    using len [of "ascii CHR ''0''"] len [of "hex_digit_char h"] len [of "hex_digit_char l"]
      zero hex_digit_char_props(1) assms by (simp add: str_len_def)
  then have "split_at_byte 4 (?d @ r) = Some (?d, r)" using split_at_byte_append [of ?d r] by simp
  moreover have "u32_from_hex ?d = Some (16 * h + l)"
    using assms zero hex_digit_char_props by (simp add: u32_from_hex_def hexadecimal_def)
  ultimately show ?thesis by (simp add: hex4_def)
qed

lemma js_escape_control:
  "code_point c < 0x20 \<Longrightarrow>
    js_escape (lit ''u00'' @ hex_digit_char (code_point c div 16) # hex_digit_char (code_point c mod 16) # r) = Ok (c, r)"
  using hex4_control [of "code_point c div 16" "code_point c mod 16" r]
  by (simp add: js_escape_def js_next_def char_from_u32_def scalar_def)

lemma js_string_loop_escaped: "js_string_loop out (escaped c @ s) = js_string_loop (out @ [c]) s"
proof (cases "plain c")
  case True
  then have "escaped c = [c]" by (auto simp: plain_def escaped_def uchar_eq_iff scalar_def)
  with True show ?thesis by (simp add: js_string_loop_plain)
next
  case False
  then show ?thesis
    using js_escape_control [of c s]
    by (auto simp: escaped_def js_string_loop_escape js_escape_letter plain_def)
qed

lemma js_string_loop_text: "js_string_loop out (concat (map escaped t) @ quote_mark # r) = Ok (out @ t, r)"
  by (induction t arbitrary: out) (simp_all add: js_string_loop_end js_string_loop_escaped)

lemma js_string_text: "js_string (json_string t @ r) = Ok (t, r)"
  using js_string_loop_text [of "[]" t r] by (simp add: js_string_def json_string_def js_expect_def js_next_def)

text \<open>Text that needs no escape is written as it is.\<close>

lemma json_string_plain: "list_all plain t \<Longrightarrow> json_string t = [quote_mark] @ t @ [quote_mark]"
proof -
  have "escaped c = [c]" if "plain c" for c
    using that by (auto simp: plain_def escaped_def uchar_eq_iff scalar_def)
  then have "list_all plain t \<Longrightarrow> concat (map escaped t) = t" by (induction t) auto
  then show "list_all plain t \<Longrightarrow> ?thesis" by (simp add: json_string_def)
qed

lemma base64_group_plain: "length chunk \<le> 3 \<Longrightarrow> list_all plain (base64_group chunk)"
proof -
  have "list_all plain ALPHABET" by (simp add: ALPHABET_def plain_def)
  then have "plain (ALPHABET ! unat (take_bit 6 (w :: 32 word)))" for w
    using six_bits_bound [of w] by (simp add: list_all_length length_ALPHABET)
  then show ?thesis unfolding base64_group_def Let_def and_3F list_all_iff
    by (auto simp del: take_bit_or drop_bit_or upt_Suc)
qed

lemma base64_plain: "list_all plain (base64_encode bs)"
proof (induction bs rule: base64_encode.induct)
  case (1 bs)
  then show ?case by (subst base64_encode.simps) (simp add: base64_group_plain)
qed

section \<open>Numbers\<close>

text \<open>What can follow a value inside a text.\<close>

definition value_ends :: "str \<Rightarrow> bool" where
  "value_ends r \<longleftrightarrow> r = [] \<or> hd r \<in> {comma, close_bracket_mark, close_brace}"

lemma takeWhile_dropWhile_append:
  "list_all p xs \<Longrightarrow> (ys = [] \<or> \<not> p (hd ys)) \<Longrightarrow> takeWhile p (xs @ ys) = xs \<and> dropWhile p (xs @ ys) = ys"
  by (induction xs) (cases ys; auto)+

lemma value_ends_not_digit:
  "value_ends r \<Longrightarrow> r = [] \<or> \<not> is_ascii_digit (hd r) \<and> hd r \<notin> {ascii CHR ''.'', ascii CHR ''e'', ascii CHR ''E''}"
  by (auto simp: value_ends_def char_class_defs)

lemma js_number_text:
  assumes "check_range i = Ok ()" "i128_min \<le> i" "i \<le> i128_max" "value_ends r"
  shows "js_number (int_to_str i @ r) = Ok (IInteger i, r)"
proof -
  define digits where "digits = nat_to_str (nat \<bar>i\<bar>)"
  define sign where "sign = (if i < 0 then [ascii CHR ''-''] else [])"
  have parts: "int_to_str i = sign @ digits" by (simp add: int_to_str_def digits_def sign_def)
  have d: "digits \<noteq> []" "list_all is_ascii_digit digits" "\<not> starts_with_char (ascii CHR ''-'') digits"
    using nat_to_str_digits nat_to_str_no_sign by (simp_all add: digits_def)
  have starts: "starts_with_char (ascii CHR ''-'') (digits @ r) = starts_with_char (ascii CHR ''-'') digits"
    using d(1) by (cases digits) auto
  have runs: "takeWhile is_ascii_digit (digits @ r) = digits" "dropWhile is_ascii_digit (digits @ r) = r"
    using takeWhile_dropWhile_append [OF d(2)] value_ends_not_digit [OF assms(4)] by auto
  have "parse_int i128_min i128_max (sign @ digits) = Some i"
    using assms(2,3) parts [symmetric] by simp
  then show ?thesis
    using assms d starts runs value_ends_not_digit [OF assms(4)]
    unfolding parts js_number_def Let_def by (cases "i < 0") (auto simp: sign_def)
qed

section \<open>Values\<close>

text \<open>
  Nesting as the parser counts it: bytes are written as a map that holds a map that holds a string,
  a link as a map that holds a string.
\<close>

fun json_depth :: "'c ipld \<Rightarrow> nat" where
  "json_depth (IList vs) = (if vs = [] then 0 else Suc (fold max (map json_depth vs) 0))"
| "json_depth (IMap m) = (if m = [] then 0 else Suc (fold max (map (\<lambda>e. json_depth (snd e)) m) 0))"
| "json_depth (IBytes b) = 2"
| "json_depth (ILink c) = 1"
| "json_depth _ = 0"

lemma add_json_depth_IList: "d + json_depth (IList vs) \<le> k \<longleftrightarrow> d \<le> k \<and> (\<forall>v \<in> set vs. Suc d + json_depth v \<le> k)"
  by (cases vs) (auto simp: add_fold_max_le)

lemma add_json_depth_IMap:
  "d + json_depth (IMap m) \<le> k \<longleftrightarrow> d \<le> k \<and> (\<forall>e \<in> set m. Suc d + json_depth (snd e) \<le> k)"
  by (cases m) (auto simp: add_fold_max_le)

declare json_depth.simps(1,2) [simp del]

text \<open>A link's text needs no escape and reads back; \<open>Cid\<close>'s base32 text does.\<close>

fun link_text_ok :: "'c cid_lib \<Rightarrow> 'c ipld \<Rightarrow> bool" where
  "link_text_ok L (ILink c) \<longleftrightarrow> list_all plain (cid_to_string L c) \<and> cid_from_text L (cid_to_string L c) = Ok c"
| "link_text_ok L _ \<longleftrightarrow> True"

text \<open>The loops of the source, without the fuel, for a parser of elements that consumes something.\<close>

definition consumes :: "(str \<Rightarrow> 'a parsing) \<Rightarrow> bool" where
  "consumes p \<longleftrightarrow> (\<forall>s v r. p s = Ok (v, r) \<longrightarrow> length r < length s)"

lemma js_items_fuel:
  "consumes p \<Longrightarrow> length s < n \<Longrightarrow> length s < n' \<Longrightarrow> js_items n p s = js_items n' p s"
proof (induction n arbitrary: n' s)
  case (Suc n)
  obtain k where k: "n' = Suc k" using Suc.prems(3) by (cases n') auto
  have "js_items n p r' = js_items k p r'" if "p s = Ok (v, r)" "js_next r = Ok (c, r')" for v r c r'
  proof -
    have "length r < length s" using Suc.prems(1) that(1) by (auto simp: consumes_def)
    moreover have "length r' < length r" using that(2) by (simp add: js_next_Ok)
    ultimately show ?thesis using Suc.IH [of r' k] Suc.prems k by simp
  qed
  then show ?case unfolding k by (auto simp: k intro!: res_bind_cong split: prod.split)
qed simp

text \<open>\<open>loop { items.push(value()?); match next()? { b',' => {} b']' => return, _ => Err } }\<close>.\<close>

lemma js_items_loop:
  assumes "consumes p"
  shows "js_items (Suc (length s)) p s =
     res_bind (p s) (\<lambda>(v, r).
     res_bind (js_next r) (\<lambda>(c, r').
       if c = comma then map_ok (\<lambda>(vs, r). (v # vs, r)) (js_items (Suc (length r')) p r')
       else if c = close_bracket_mark then Ok ([v], r') else Err InvalidJson))"
proof -
  have "js_items (length s) p r' = js_items (Suc (length r')) p r'"
    if "p s = Ok (v, r)" "js_next r = Ok (c, r')" for v r c r'
    using that assms js_items_fuel [OF assms, of r' "length s" "Suc (length r')"]
    by (force simp: consumes_def js_next_Ok)
  then show ?thesis by (auto intro!: res_bind_cong split: prod.split)
qed

lemma js_string_loop_shorter: "js_string_loop out s = Ok (t, r) \<Longrightarrow> length r < length s"
proof (induction out s rule: js_string_loop.induct)
  case (1 out s)
  obtain c r1 where d: "dropWhile plain s = c # r1"
    using "1.prems" by (subst (asm) js_string_loop.simps) (auto simp: Let_def split: list.splits)
  then have "length r1 < length s" using length_dropWhile_le [of plain s] by simp
  moreover have "length r \<le> length r1"
  proof (cases "c = quote_mark")
    case True
    then show ?thesis using "1.prems" d by (simp add: js_string_loop.simps [of out s] Let_def)
  next
    case False
    then obtain e r2 where r2: "js_escape r1 = Ok (e, r2)" "c = reverse_solidus"
      "js_string_loop (out @ takeWhile plain s @ [e]) r2 = Ok (t, r)"
      using "1.prems" d by (auto simp: js_string_loop.simps [of out s] Let_def res_simps split: if_splits)
    have "length r < length r2" using "1.IH" [OF refl d False r2(2) r2(1) refl r2(3)] .
    then show ?thesis using js_escape_shorter [OF r2(1)] by simp
  qed
  ultimately show ?case by simp
qed

lemma js_string_shorter: "js_string s = Ok (t, r) \<Longrightarrow> length r < length s"
  by (auto simp: js_string_def res_simps js_expect_Ok dest!: js_string_loop_shorter)

lemma js_items_shorter: "consumes p \<Longrightarrow> js_items n p s = Ok (vs, r) \<Longrightarrow> length r < length s"
proof (induction n p s arbitrary: vs r rule: js_items.induct)
  case (2 n p s)
  then show ?case
    by (auto simp: res_simps js_next_Ok consumes_def split: if_splits) fastforce+
qed simp

lemma js_entries_shorter: "consumes p \<Longrightarrow> js_entries L n p m s = Ok (v, r) \<Longrightarrow> length r < length s"
proof (induction n arbitrary: m s)
  case (Suc n)
  then show ?case
    by (auto simp: res_simps js_next_Ok js_expect_Ok consumes_def split: if_splits dest!: js_string_shorter) force+
qed simp

lemma js_number_shorter: "js_number s = Ok (v, r) \<Longrightarrow> length r < length s"
proof -
  assume "js_number s = Ok (v, r)"
  then obtain k where "takeWhile is_ascii_digit (drop k s) \<noteq> []" "r = dropWhile is_ascii_digit (drop k s)"
    by (auto simp: js_number_def Let_def res_simps)
  then have "length r < length (drop k s)"
    using takeWhile_dropWhile_id [of is_ascii_digit "drop k s"] by (metis length_append less_add_same_cancel2 length_greater_0_conv)
  then show ?thesis by simp
qed

lemma js_list_shorter: "consumes p \<Longrightarrow> js_list p s = Ok (v, r) \<Longrightarrow> length r < length s"
  by (auto simp: js_list_def res_simps js_expect_Ok split: if_splits simp del: js_items.simps
      dest: js_items_shorter)

lemma js_map_shorter: "consumes p \<Longrightarrow> js_map L p s = Ok (v, r) \<Longrightarrow> length r < length s"
  by (auto simp: js_map_def res_simps js_expect_Ok split: if_splits simp del: js_entries.simps
      dest: js_entries_shorter)

lemma js_value_consumes: "consumes (js_value L depth)"
proof (induction "Suc MAX_DEPTH - depth" arbitrary: depth rule: less_induct)
  case less
  have inner: "consumes (js_value L (Suc depth))" if "depth \<le> MAX_DEPTH" using less that by simp
  show ?case unfolding consumes_def
  proof (intro allI impI)
    fix s v r
    assume "js_value L depth s = Ok (v, r)"
    then show "length r < length s"
      using inner
      by (subst (asm) js_value.simps)
        (auto simp: res_simps js_literal_Ok split: if_splits list.splits
          dest: js_string_shorter js_number_shorter js_list_shorter js_map_shorter)
  qed
qed

section \<open>Round trip\<close>

lemma json_start: "json_item L d v = Ok t \<Longrightarrow> t \<noteq> [] \<and> hd t \<noteq> close_bracket_mark"
proof -
  have "int_to_str i \<noteq> [] \<and> hd (int_to_str i) \<noteq> close_bracket_mark" for i
    using nat_to_str_digits [of "nat i"] by (cases "nat_to_str (nat i)") (auto simp: int_to_str_def char_class_defs)
  then show "json_item L d v = Ok t \<Longrightarrow> ?thesis"
    by (subst (asm) json_item.simps)
      (auto simp: res_simps json_string_def split: if_splits ipld.splits)
qed

lemma commas_length: "length ts \<le> Suc (length (commas ts))"
  by (induction ts rule: commas.induct) auto

lemma js_items_text:
  "list_all2 (\<lambda>v t. \<forall>r. value_ends r \<longrightarrow> p (t @ r) = Ok (v, r)) vs ts \<Longrightarrow> vs \<noteq> [] \<Longrightarrow> length vs \<le> n \<Longrightarrow>
    js_items n p (commas ts @ close_bracket_mark # r) = Ok (vs, r)"
proof (induction ts arbitrary: vs n rule: commas.induct)
  case (2 t)
  then show ?case by (cases n) (auto simp: list_all2_Cons2 value_ends_def js_next_def)
next
  case (3 t t' ts)
  then obtain v vs' where vs: "vs = v # vs'" "vs' \<noteq> []" by (auto simp: list_all2_Cons2)
  with 3 show ?case by (cases n) (auto simp: value_ends_def js_next_def)
qed simp

lemma bt_append_entry:
  assumes "bt_wf (pre @ e # m)"
  shows "bt_get pre (fst e) = None" "bt_insert (fst e) (snd e) pre = pre @ [e]" "bt_wf ((pre @ [e]) @ m)"
proof -
  have less: "k < fst e" if "k \<in> fst ` set pre" for k
    using assms that by (auto simp: bt_wf_def sorted_wrt_append)
  then have "fst e \<notin> fst ` set pre" by blast
  then show "bt_get pre (fst e) = None" by (simp add: bt_get_None_iff)
  show "bt_insert (fst e) (snd e) pre = pre @ [e]" using less bt_insert_last [of pre "fst e" "snd e"] by simp
  show "bt_wf ((pre @ [e]) @ m)" using assms by simp
qed

text \<open>The text of one map entry, and one turn of the loop that reads it.\<close>

definition entry_text :: "(str \<Rightarrow> 'c ipld parsing) \<Rightarrow> str \<times> 'c ipld \<Rightarrow> str \<Rightarrow> bool" where
  "entry_text p e t \<longleftrightarrow> (\<exists>t'. t = json_string (fst e) @ colon_mark # t' \<and>
      (\<forall>r. value_ends r \<longrightarrow> p (t' @ r) = Ok (snd e, r)))"

lemma js_entries_step:
  assumes "entry_text p e t" "bt_wf (pre @ e # m)" "c = comma \<or> c = close_brace"
  shows "js_entries L (Suc n) p pre (t @ c # r) =
    (if c = comma then js_entries L n p (pre @ [e]) r else map_ok (\<lambda>w. (w, r)) (reserved L (pre @ [e])))"
proof -
  obtain t' where t: "t = json_string (fst e) @ colon_mark # t'"
    and p: "\<And>r. value_ends r \<Longrightarrow> p (t' @ r) = Ok (snd e, r)"
    using assms(1) by (auto simp: entry_text_def)
  have "p (t' @ c # r) = Ok (snd e, c # r)" using assms(3) p by (auto simp: value_ends_def)
  then show ?thesis
    using assms(3) bt_append_entry [OF assms(2)] js_string_text [of "fst e" "colon_mark # t' @ c # r"]
    by (auto simp: t js_expect_def js_next_def)
qed

lemma js_entries_text:
  "list_all2 (entry_text p) m ts \<Longrightarrow> m \<noteq> [] \<Longrightarrow> length m \<le> n \<Longrightarrow> bt_wf (pre @ m) \<Longrightarrow>
    js_entries L n p pre (commas ts @ close_brace # r) = map_ok (\<lambda>w. (w, r)) (reserved L (pre @ m))"
proof (induction ts arbitrary: m n pre rule: commas.induct)
  case (2 t)
  then obtain e k where "m = [e]" "entry_text p e t" "n = Suc k"
    by (cases n) (auto simp: list_all2_Cons2)
  with 2 show ?case by (simp add: js_entries_step del: js_entries.simps)
next
  case (3 t t' ts)
  then obtain e m' k where m: "m = e # m'" "m' \<noteq> []" "entry_text p e t" "n = Suc k" "length m' \<le> k"
    "list_all2 (entry_text p) m' (t' # ts)"
    by (cases n) (auto simp: list_all2_Cons2)
  have "bt_wf (pre @ e # m')" using 3 m by simp
  from js_entries_step [OF m(3) this, of comma] 3(1) [OF m(6,2,5), of "pre @ [e]"] bt_append_entry(3) [OF this] m
  show ?case by (simp del: js_entries.simps)
qed simp

text \<open>What round trips: links that read back, and nesting within the parser's count.\<close>

definition json_fit :: "'c cid_lib \<Rightarrow> nat \<Rightarrow> 'c ipld \<Rightarrow> bool" where
  "json_fit L d v \<longleftrightarrow> ipld_wf v \<and> ipld_all (link_text_ok L) v \<and> d + json_depth v \<le> MAX_DEPTH"

lemma json_fit_IList: "json_fit L d (IList vs) \<longleftrightarrow> d \<le> MAX_DEPTH \<and> (\<forall>v \<in> set vs. json_fit L (Suc d) v)"
  by (auto simp: json_fit_def add_json_depth_IList)

lemma json_fit_IMap:
  "json_fit L d (IMap m) \<longleftrightarrow> d \<le> MAX_DEPTH \<and> bt_wf m \<and> (\<forall>e \<in> set m. json_fit L (Suc d) (snd e))"
  by (auto simp: json_fit_def add_json_depth_IMap)

lemma json_fit_depth: "json_fit L d v \<Longrightarrow> d \<le> MAX_DEPTH"
  by (simp add: json_fit_def)

text \<open>A whole map, from its opening brace.\<close>

lemma js_map_text:
  assumes "list_all2 (entry_text p) m ts" "m \<noteq> []" "bt_wf m"
  shows "js_map L p (open_brace # commas ts @ close_brace # r) = map_ok (\<lambda>w. (w, r)) (reserved L m)"
proof -
  have "length ts = length m" using assms(1) by (simp add: list_all2_lengthD)
  then have n: "length m \<le> Suc (length (commas ts @ close_brace # r))" using commas_length [of ts] by simp
  obtain t ts' where ts: "ts = t # ts'" using assms(1,2) by (cases m) (auto simp: list_all2_Cons1)
  then have "hd t = quote_mark" "t \<noteq> []" using assms(1,2)
    by (cases m; auto simp: entry_text_def json_string_def)+
  then have "\<not> starts_with_char close_brace (commas ts @ close_brace # r)"
    unfolding ts by (cases t; cases ts'; simp)
  with js_entries_text [OF assms(1,2) n, of "[]"] assms(3) show ?thesis
    by (simp add: js_map_def js_expect_def js_next_def del: js_entries.simps)
qed

lemma js_string_value:
  "depth \<le> MAX_DEPTH \<Longrightarrow> js_value L depth (json_string t @ r) = Ok (IString t, r)"
  using js_string_text [of t r] by (simp add: js_value.simps json_string_def)

lemma js_value_map: "depth \<le> MAX_DEPTH \<Longrightarrow> js_value L depth (open_brace # s) = js_map L (js_value L (Suc depth)) (open_brace # s)"
  by (simp add: js_value.simps [of L depth])

lemma js_value_list: "depth \<le> MAX_DEPTH \<Longrightarrow> js_value L depth (open_bracket # s) = js_list (js_value L (Suc depth)) (open_bracket # s)"
  by (simp add: js_value.simps [of L depth])

lemma js_value_number:
  assumes "check_range i = Ok ()" "i128_min \<le> i" "i \<le> i128_max" "value_ends r" "depth \<le> MAX_DEPTH"
  shows "js_value L depth (int_to_str i @ r) = Ok (IInteger i, r)"
proof -
  obtain c s where c: "int_to_str i = c # s" "c = ascii CHR ''-'' \<or> is_ascii_digit c"
    using nat_to_str_digits [of "nat \<bar>i\<bar>"]
    by (cases "i < 0"; cases "nat_to_str (nat \<bar>i\<bar>)") (auto simp: int_to_str_def)
  then have "c \<notin> {ascii CHR ''n'', ascii CHR ''t'', ascii CHR ''f'', quote_mark, open_bracket, open_brace}"
    by (auto simp: char_class_defs)
  then show ?thesis
    using js_number_text [OF assms(1-4)] assms(5) c by (simp add: js_value.simps [of L depth])
qed

text \<open>A map with one entry, for the two reserved forms.\<close>

lemma js_value_single:
  assumes "depth < MAX_DEPTH" "\<And>r. value_ends r \<Longrightarrow> js_value L (Suc depth) (t @ r) = Ok (v, r)"
  shows "js_value L depth (open_brace # json_string k @ colon_mark # t @ close_brace # r) =
    map_ok (\<lambda>w. (w, r)) (reserved L [(k, v)])"
proof -
  have "entry_text (js_value L (Suc depth)) (k, v) (json_string k @ colon_mark # t)"
    using assms(2) by (auto simp: entry_text_def)
  then have "list_all2 (entry_text (js_value L (Suc depth))) [(k, v)] [json_string k @ colon_mark # t]" by simp
  from js_map_text [OF this, of L r] assms(1) show ?thesis
    by (simp add: js_value_map bt_wf_def)
qed

lemma reserved_bytes: "reserved L [(lit ''/'', IMap [(lit ''bytes'', IString (base64_encode b))])] = Ok (IBytes b)"
  by (simp add: reserved_def bt_get_Cons)

lemma reserved_link: "cid_from_text L t = Ok c \<Longrightarrow> reserved L [(lit ''/'', IString t)] = Ok (ILink c)"
  by (simp add: reserved_def bt_get_Cons)

lemma reserved_none: "bt_get m (lit ''/'') = None \<Longrightarrow> reserved L m = Ok (IMap m)"
  by (simp add: reserved_def)

lemma js_value_bytes:
  assumes "depth + 2 \<le> MAX_DEPTH"
  shows "js_value L depth (open_brace # json_string (lit ''/'') @ colon_mark # open_brace # json_string (lit ''bytes'')
    @ colon_mark # json_string (base64_encode b) @ close_brace # close_brace # r) = Ok (IBytes b, r)"
proof -
  let ?inner = "open_brace # json_string (lit ''bytes'') @ colon_mark # json_string (base64_encode b) @ [close_brace]"
  have "js_value L (Suc depth) (?inner @ s) = Ok (IMap [(lit ''bytes'', IString (base64_encode b))], s)" for s
    using js_value_single [of "Suc depth" L _ _ "lit ''bytes''" s, OF _ js_string_value] assms
    by (simp add: reserved_none bt_get_Cons)
  from js_value_single [of depth L ?inner, OF _ this, of "lit ''/''" r] assms show ?thesis
    by (simp only: reserved_bytes) simp
qed

lemma js_value_link:
  assumes "depth < MAX_DEPTH" "cid_from_text L t = Ok c"
  shows "js_value L depth (open_brace # json_string (lit ''/'') @ colon_mark # json_string t @ close_brace # r) =
    Ok (ILink c, r)"
  using js_value_single [of depth L _ _ "lit ''/''" r, OF _ js_string_value] reserved_link [OF assms(2)] assms(1)
  by simp

lemma json_leaf_text:
  assumes "json_item L depth v = Ok t" "json_fit L depth v" "value_ends r"
    and "\<And>vs. v \<noteq> IList vs" "\<And>m. v \<noteq> IMap m"
  shows "js_value L depth (t @ r) = Ok (v, r)"
proof -
  note item = assms(1) [unfolded json_item.simps [of L depth]]
  have depth: "depth \<le> MAX_DEPTH" using assms(2) by (rule json_fit_depth)
  show ?thesis
  proof (cases v)
    case (IInteger i)
    then show ?thesis using item assms(2,3) depth by (auto simp: res_simps json_fit_def js_value_number)
  next
    case (IBytes b)
    then have "t = open_brace # json_string (lit ''/'') @ colon_mark # open_brace # json_string (lit ''bytes'')
        @ colon_mark # json_string (base64_encode b) @ [close_brace, close_brace]"
      using item depth by (simp add: json_string_plain [OF base64_plain])
    with IBytes assms(2) js_value_bytes [of depth L b r] show ?thesis by (simp add: json_fit_def)
  next
    case (ILink c)
    then have ok: "list_all plain (cid_to_string L c)" "cid_from_text L (cid_to_string L c) = Ok c" "depth < MAX_DEPTH"
      using assms(2) by (simp_all add: json_fit_def)
    then have "t = open_brace # json_string (lit ''/'') @ colon_mark # json_string (cid_to_string L c) @ [close_brace]"
      using item ILink depth by (simp add: json_string_plain)
    with ILink js_value_link [OF ok(3,2), of r] show ?thesis by simp
  next
    case (IString s)
    then show ?thesis using item depth by (auto simp: js_string_value)
  qed (use item assms(4,5) depth in
      \<open>auto simp: js_value.simps [of L depth] js_literal_def strip_prefix_append split: if_splits\<close>)
qed

lemma json_value_text:
  "json_item L depth v = Ok t \<Longrightarrow> json_fit L depth v \<Longrightarrow> value_ends r \<Longrightarrow> js_value L depth (t @ r) = Ok (v, r)"
proof (induction v arbitrary: depth t r)
  case (IList vs)
  have depth: "depth \<le> MAX_DEPTH" using IList.prems(2) by (rule json_fit_depth)
  obtain ts where ts: "list_all2 (\<lambda>v t. json_item L (Suc depth) v = Ok t) vs ts"
    "t = open_bracket # commas ts @ [close_bracket_mark]"
    using IList.prems(1) depth by (auto simp: json_item.simps [of L depth] res_simps res_map_Ok)
  have items: "list_all2 (\<lambda>v t. \<forall>r. value_ends r \<longrightarrow> js_value L (Suc depth) (t @ r) = Ok (v, r)) vs ts"
    using ts(1) by (rule list.rel_mono_strong) (use IList.IH IList.prems(2) in \<open>auto simp: json_fit_IList\<close>)
  show ?case
  proof (cases vs)
    case Nil
    with ts depth show ?thesis by (simp add: js_value_list js_list_def js_expect_def js_next_def)
  next
    case (Cons v vs')
    then obtain t' ts' where t': "ts = t' # ts'" "t' \<noteq> []" "hd t' \<noteq> close_bracket_mark"
      using ts(1) json_start by (fastforce simp: list_all2_Cons1)
    then have "\<not> starts_with_char close_bracket_mark (commas ts @ close_bracket_mark # r)"
      by (cases t'; cases ts'; simp)
    moreover have "length vs \<le> Suc (length (commas ts @ close_bracket_mark # r))"
      using commas_length [of ts] list_all2_lengthD [OF ts(1)] by simp
    ultimately show ?thesis using js_items_text [OF items] Cons ts depth
      by (simp add: js_value_list js_list_def js_expect_def js_next_def del: js_items.simps)
  qed
next
  case (IMap m)
  have depth: "depth \<le> MAX_DEPTH" using IMap.prems(2) by (rule json_fit_depth)
  obtain ts where ts: "list_all2 (\<lambda>e t. \<exists>t'. json_item L (Suc depth) (snd e) = Ok t' \<and> t = json_string (fst e) @ colon_mark # t') m ts"
    "t = open_brace # commas ts @ [close_brace]" and slash: "bt_get m (lit ''/'') = None"
    using IMap.prems(1) depth by (auto simp: json_item.simps [of L depth] res_simps res_map_Ok split: if_splits)
  have entries: "list_all2 (entry_text (js_value L (Suc depth))) m ts"
    using ts(1)
  proof (rule list.rel_mono_strong)
    fix e u
    assume e: "e \<in> set m" and "\<exists>t'. json_item L (Suc depth) (snd e) = Ok t' \<and> u = json_string (fst e) @ colon_mark # t'"
    then obtain t' where t': "json_item L (Suc depth) (snd e) = Ok t'" "u = json_string (fst e) @ colon_mark # t'" by blast
    have "snd e \<in> Basic_BNFs.snds e" by (simp add: snds.simps)
    moreover have "json_fit L (Suc depth) (snd e)" using IMap.prems(2) e by (simp add: json_fit_IMap)
    ultimately show "entry_text (js_value L (Suc depth)) e u"
      using IMap.IH [OF e _ t'(1)] t'(2) by (auto simp: entry_text_def)
  qed
  have wf: "bt_wf m" using IMap.prems(2) by (simp add: json_fit_IMap)
  show ?case
  proof (cases "m = []")
    case True
    with ts depth show ?thesis by (simp add: js_value_map js_map_def js_expect_def js_next_def)
  next
    case False
    with js_map_text [OF entries False wf, of L r] ts depth slash show ?thesis
      by (simp add: js_value_map reserved_none)
  qed
qed (auto intro!: json_leaf_text)

lemma json_decode_encode: "json_decode L raw = Ok v \<Longrightarrow> \<exists>s. json_encode L v = Ok s \<and> utf8 s = raw"
  by (auto simp: json_decode_def res_simps split: if_splits)

lemma json_decode_of_encode:
  assumes "json_encode L v = Ok s" "json_fit L 0 v"
  shows "json_decode L (utf8 s) = Ok v"
proof -
  have "js_value L 0 (s @ []) = Ok (v, [])"
    using assms by (intro json_value_text) (auto simp: json_encode_def value_ends_def)
  with assms(1) show ?thesis by (simp add: json_decode_def)
qed

interpretation dag_json: round_trip_codec "\<lambda>v. map_option utf8 (res_ok (json_encode L v))"
  "\<lambda>raw. res_ok (json_decode L raw)" "json_fit L 0" for L
  by unfold_locales (use json_decode_encode json_decode_of_encode in fastforce)+



section \<open>The nesting limit\<close>

text \<open>A value inside \<open>n\<close> lists of one element.\<close>

fun nested :: "nat \<Rightarrow> 'c ipld \<Rightarrow> 'c ipld" where
  "nested 0 v = v"
| "nested (Suc n) v = IList [nested n v]"

lemma json_item_nested:
  "json_item L (d + n) v = Ok t \<Longrightarrow> d + n \<le> MAX_DEPTH \<Longrightarrow>
    json_item L d (nested n v) = Ok (replicate n open_bracket @ t @ replicate n close_bracket_mark)"
proof (induction n arbitrary: d)
  case (Suc n)
  then have "json_item L (Suc d) (nested n v) = Ok (replicate n open_bracket @ t @ replicate n close_bracket_mark)"
    by simp
  with Suc.prems(2) show ?case
    by (simp add: json_item.simps [of L d] replicate_append_same [symmetric])
qed simp

lemma js_value_nested:
  "js_value L (d + n) (t @ r) = Err e \<Longrightarrow> d + n \<le> MAX_DEPTH \<Longrightarrow> t \<noteq> [] \<Longrightarrow> hd t \<noteq> close_bracket_mark \<Longrightarrow>
    js_value L d (replicate n open_bracket @ t @ r) = Err e"
proof (induction n arbitrary: d)
  case (Suc n)
  have "\<not> starts_with_char close_bracket_mark (replicate n open_bracket @ t @ r)"
    using Suc.prems(3,4) by (cases n; cases t) auto
  with Suc show ?case by (simp add: js_value_list js_list_def js_expect_def js_next_def)
qed simp

lemma json_bytes_not_read:
  "\<exists>s. json_encode L (nested 128 (IBytes b)) = Ok s \<and> json_decode L (utf8 s) = Err NestingTooDeep"
proof -
  let ?t = "[open_brace] @ json_string (lit ''/'') @ [colon_mark, open_brace] @ json_string (lit ''bytes'')
            @ [colon_mark, quote_mark] @ base64_encode b @ [quote_mark, close_brace, close_brace]"
  let ?s = "replicate 128 open_bracket @ ?t @ replicate 128 close_bracket_mark"
  have "json_item L 128 (IBytes b) = Ok ?t" by (simp add: json_item.simps MAX_DEPTH_def)
  then have enc: "json_encode L (nested 128 (IBytes b)) = Ok ?s"
    unfolding json_encode_def by (intro json_item_nested) (simp_all add: MAX_DEPTH_def)
  have "js_value L 129 r = Err NestingTooDeep" for r by (simp add: js_value.simps MAX_DEPTH_def)
  moreover have "js_string (json_string (lit ''/'') @ r) = Ok (lit ''/'', r)" for r by (rule js_string_text)
  moreover have "\<not> starts_with_char close_brace (json_string t @ r)" for t r by (simp add: json_string_def)
  ultimately have "js_value L 128 (?t @ r) = Err NestingTooDeep" for r
    by (simp add: js_value_map MAX_DEPTH_def js_map_def js_expect_def js_next_def del: lit_Cons)
  then have "js_value L 0 ?s = Err NestingTooDeep"
    by (intro js_value_nested) (simp_all add: MAX_DEPTH_def)
  with enc show ?thesis by (auto simp: json_decode_def)
qed

text \<open>
  C20. The encoder writes byte strings nested up to the limit, but the decoder counts the two maps
  of their wire form as nesting and refuses them there: at depth 128 the encoder's own output does
  not decode.
\<close>

theorem json_bytes_at_the_limit:
  "\<exists>s. json_encode L (nested 128 (IBytes b)) = Ok s \<and> json_decode L (utf8 s) = Err NestingTooDeep"
  by (rule json_bytes_not_read)

end
