(* ===== verification/Token_Error.thy ===== *)
theory Token_Error
  imports Codec_Error Command Crypto Did Varsig Policy Time
begin

text \<open>
  \<open>error.rs\<close>: anything that stops a token from being built, decoded or verified; and the
  validity window of \<open>time.rs\<close>, whose errors are of this type.
\<close>

datatype token_kind = Delegation | Invocation

datatype envelope_error =
    Shape
  | UnknownTag str
  | PayloadNotMap
  | WrongKind token_kind token_kind

text \<open>A payload field problem, named by field.\<close>

datatype payload_error =
    MissingField str
  | UnknownField str
  | TypeField str
  | RangeField str
  | ForbiddenField str

datatype error =
    ECodec codec_error
  | EEnvelope envelope_error
  | EVarsig varsig_error
  | EPayload payload_error
  | EDid did_error
  | ECommand command_error
  | EPolicy policy_error
  | ECrypto crypto_error
  | EResolve resolve_error
  | NotYetValid timestamp
  | Expired timestamp

section \<open>The validity window\<close>

definition check_window :: "timestamp option \<Rightarrow> expiry \<Rightarrow> timestamp \<Rightarrow> 32 word \<Rightarrow> error + unit" where
  "check_window not_before expiry now skew =
     res_bind (case not_before of
        Some nbf \<Rightarrow> if now < minus_seconds nbf skew then Err (NotYetValid nbf) else Ok ()
      | None \<Rightarrow> Ok ())
     (\<lambda>_.
     case expiry of
        At at \<Rightarrow> if is_past expiry now skew then Err (Expired at) else Ok ()
      | Never \<Rightarrow> Ok ())"

text \<open>The window as the numbers say it, both ends inclusive and widened by the skew.\<close>

definition in_window :: "timestamp option \<Rightarrow> expiry \<Rightarrow> timestamp \<Rightarrow> 32 word \<Rightarrow> bool" where
  "in_window nbf e now skew \<longleftrightarrow>
     (case nbf of Some t \<Rightarrow> as_unix t - uint skew \<le> as_unix now | None \<Rightarrow> True)
     \<and> (case e of At t \<Rightarrow> as_unix now \<le> as_unix t + uint skew | Never \<Rightarrow> True)"

lemma check_window_Ok:
  "ts_wf now \<Longrightarrow> pred_option ts_wf nbf \<Longrightarrow> expiry_wf e \<Longrightarrow>
    check_window nbf e now skew = Ok u \<longleftrightarrow> in_window nbf e now skew"
  by (cases nbf; cases e)
    (auto simp: check_window_def in_window_def is_past_def expiry_wf_def before_minus_seconds after_plus_seconds)

text \<open>A larger skew only admits more.\<close>

lemma check_window_skew_mono:
  "ts_wf now \<Longrightarrow> pred_option ts_wf nbf \<Longrightarrow> expiry_wf e \<Longrightarrow> skew \<le> skew' \<Longrightarrow>
    check_window nbf e now skew = Ok () \<Longrightarrow> check_window nbf e now skew' = Ok ()"
  unfolding check_window_Ok in_window_def word_le_def by (auto split: option.splits expiry.splits)

text \<open>
  C18. A token is inside its validity window exactly when the current time lies in
  \<open>[not_before - skew, expiry + skew]\<close>, computed without overflow or clamping, and the error of a
  token outside it names the bound that was missed, the start of the window first.
\<close>

theorem check_window_exact:
  assumes "ts_wf now" "pred_option ts_wf nbf" "expiry_wf e"
  shows "check_window nbf e now skew =
    (if \<exists>t. nbf = Some t \<and> as_unix now < as_unix t - uint skew then Err (NotYetValid (the nbf))
     else case e of
       At t \<Rightarrow> if as_unix t + uint skew < as_unix now then Err (Expired t) else Ok ()
     | Never \<Rightarrow> Ok ())"
  using assms
  by (cases nbf; cases e)
    (auto simp: check_window_def is_past_def expiry_wf_def before_minus_seconds after_plus_seconds)

theorem check_window_exact_witness:
  "check_window (Some (Timestamp 100)) (At (Timestamp ts_max)) (Timestamp 39) 60 = Err (NotYetValid (Timestamp 100))
    \<and> check_window (Some (Timestamp 100)) (At (Timestamp ts_max)) (Timestamp ts_max) 60 = Ok ()"
  using check_window_exact [of "Timestamp 39" "Some (Timestamp 100)" "At (Timestamp ts_max)" 60]
    check_window_exact [of "Timestamp ts_max" "Some (Timestamp 100)" "At (Timestamp ts_max)" 60]
  by (simp add: ts_wf_def ts_bounds expiry_wf_def)

end
