(* ===== verification/Envelope.thy ===== *)
theory Envelope
  imports Token_Error Cbor Dag_Json_Laws
begin

text \<open>
  \<open>envelope.rs\<close>: the signed envelope \<open>[signature, {"h": varsig, tag: payload}]\<close> that every token
  type shares, and the typed reading of payload fields.
\<close>

section \<open>Tags and options\<close>

fun tag :: "token_kind \<Rightarrow> str" where
  "tag Delegation = lit ''ucan/dlg@1.0.0''"
| "tag Invocation = lit ''ucan/inv@1.0.0''"

record decode_options =
  release_candidate_tags :: bool

definition STRICT :: decode_options where
  "STRICT = \<lparr>release_candidate_tags = False\<rparr>"

definition with_release_candidate_tags :: "bool \<Rightarrow> decode_options \<Rightarrow> decode_options" where
  "with_release_candidate_tags accept options = options\<lparr>release_candidate_tags := accept\<rparr>"

definition from_tag :: "str \<Rightarrow> decode_options \<Rightarrow> envelope_error + token_kind" where
  "from_tag t options =
     (if t = lit ''ucan/dlg@1.0.0'' then Ok Delegation
      else if t = lit ''ucan/inv@1.0.0'' then Ok Invocation
      else if t = lit ''ucan/dlg@1.0.0-rc.1'' \<and> release_candidate_tags options then Ok Delegation
      else if t = lit ''ucan/inv@1.0.0-rc.1'' \<and> release_candidate_tags options then Ok Invocation
      else Err (UnknownTag t))"

section \<open>Envelopes\<close>

datatype signed =
    SignedCbor nat nat
  | SignedJson "byte list"

record 'c envelope =
  env_bytes :: "byte list"
  env_cid :: 'c
  env_header :: header
  env_signature :: signature
  env_signed :: signed
  env_kind :: token_kind

record unsigned =
  us_signing :: "byte list"
  us_sig_payload :: "byte list"

text \<open>\<open>{"h": header, tag: payload}\<close>, the second element of the envelope.\<close>

definition sig_payload :: "byte list \<Rightarrow> str \<Rightarrow> 'c ipld \<Rightarrow> 'c ipld" where
  "sig_payload header_bytes t payload =
     IMap (bt_insert t payload (bt_insert (lit ''h'') (IBytes header_bytes) []))"

definition is_map :: "'c ipld \<Rightarrow> bool" where
  "is_map v \<longleftrightarrow> (case v of IMap _ \<Rightarrow> True | _ \<Rightarrow> False)"

definition open_envelope :: "'c cid_lib \<Rightarrow> byte list \<Rightarrow> decode_options \<Rightarrow> error + ('c envelope \<times> 'c ipld)" where
  "open_envelope L bs options =
     res_bind (map_err ECodec (array_len (reader_new bs))) (\<lambda>(n, rd).
     if n \<noteq> 2 then Err (EEnvelope Shape) else
     res_bind (map_err ECodec (rd_bytes rd)) (\<lambda>(signature_bytes, rd).
     let signed_start = r_pos rd in
     res_bind (map_err ECodec (map_len rd)) (\<lambda>(n, rd).
     if n \<noteq> 2 then Err (EEnvelope Shape) else
     res_bind (map_err ECodec (rd_text rd)) (\<lambda>(h, rd).
     if h \<noteq> lit ''h'' then Err (EEnvelope Shape) else
     res_bind (map_err ECodec (rd_bytes rd)) (\<lambda>(header_bytes, rd).
     res_bind (map_err EVarsig (header_decode header_bytes)) (\<lambda>header.
     res_bind (map_err ECodec (rd_text rd)) (\<lambda>(t, rd).
     res_bind (map_err EEnvelope (from_tag t options)) (\<lambda>kind.
     res_bind (map_err ECodec (rd_value L rd)) (\<lambda>(payload, rd).
     if \<not> is_map payload then Err (EEnvelope PayloadNotMap) else
     let signed_end = r_pos rd in
     res_bind (map_err ECodec (reader_finish rd)) (\<lambda>_.
     res_bind (map_err ECrypto (signature_new (h_algorithm header) signature_bytes)) (\<lambda>signature.
     res_bind (case h_encoding header of
         DagCbor \<Rightarrow> Ok (SignedCbor signed_start signed_end)
       | DagJson \<Rightarrow> map_ok (\<lambda>s. SignedJson (utf8 s))
           (map_err ECodec (json_encode L (sig_payload header_bytes t payload)))) (\<lambda>signed.
     Ok (\<lparr>env_bytes = bs, env_cid = of_dag_cbor L bs, env_header = header, env_signature = signature,
          env_signed = signed, env_kind = kind\<rparr>, payload)))))))))))))"

definition prepare_envelope :: "'c cid_lib \<Rightarrow> header \<Rightarrow> token_kind \<Rightarrow> 'c ipld \<Rightarrow> error + unsigned" where
  "prepare_envelope L header kind payload =
     (let v = sig_payload (header_encode header) (tag kind) payload in
      res_bind (map_err ECodec (encode L v)) (\<lambda>element.
      res_bind (case h_encoding header of
          DagCbor \<Rightarrow> Ok element
        | DagJson \<Rightarrow> map_ok utf8 (map_err ECodec (json_encode L v))) (\<lambda>signing.
      Ok \<lparr>us_signing = signing, us_sig_payload = element\<rparr>)))"

definition assemble_envelope ::
  "'c cid_lib \<Rightarrow> byte list \<Rightarrow> byte list \<Rightarrow> error + ('c envelope \<times> 'c ipld)" where
  "assemble_envelope L signed_raw signature =
     res_bind (case signed_raw of
         b # _ \<Rightarrow>
           if b = 0x7B
           then map_err ECodec (res_bind (json_decode L signed_raw) (encode L))
           else Ok signed_raw
       | [] \<Rightarrow> Ok signed_raw) (\<lambda>element.
     open_envelope L (head 4 2 @ bytes_item signature @ element) STRICT)"

definition seal :: "'c cid_lib \<Rightarrow> signer \<Rightarrow> token_kind \<Rightarrow> 'c ipld \<Rightarrow> error + 'c envelope" where
  "seal L signer kind payload =
     res_bind (prepare_envelope L (header_new (pk_algorithm (sg_public_key signer))) kind payload) (\<lambda>unsigned.
     res_bind (map_err ECrypto (sg_sign signer (us_signing unsigned))) (\<lambda>signature.
     map_ok fst (assemble_envelope L (us_sig_payload unsigned) (sig_bytes signature))))"

definition signed_bytes :: "'c envelope \<Rightarrow> byte list option" where
  "signed_bytes env =
     (case env_signed env of
        SignedCbor s e \<Rightarrow> slice_get s e (env_bytes env)
      | SignedJson t \<Rightarrow> Some t)"

definition verify_envelope :: "'s crypto_lib \<Rightarrow> 'c envelope \<Rightarrow> public_key \<Rightarrow> error + unit" where
  "verify_envelope K env key =
     (if pk_algorithm key \<noteq> h_algorithm (env_header env)
      then Err (ECrypto (AlgorithmMismatch (pk_algorithm key) (h_algorithm (env_header env))))
      else
        res_bind (ok_or (EEnvelope Shape) (signed_bytes env)) (\<lambda>signed.
        map_err ECrypto (key_verify K key signed (env_signature env))))"

definition envelope_to_dag_json :: "'c cid_lib \<Rightarrow> 'c envelope \<Rightarrow> error + str" where
  "envelope_to_dag_json L env = map_err ECodec (res_bind (decode L (env_bytes env)) (json_encode L))"

section \<open>Payload fields\<close>

text \<open>\<open>Fields\<close>: the map, consumed one field at a time.\<close>

type_synonym 'c fields = "(str \<times> 'c ipld) list"

definition fields_new :: "'c ipld \<Rightarrow> error + 'c fields" where
  "fields_new payload = (case payload of IMap m \<Rightarrow> Ok m | _ \<Rightarrow> Err (EEnvelope PayloadNotMap))"

definition take_field :: "string \<Rightarrow> 'c fields \<Rightarrow> 'c ipld option \<times> 'c fields" where
  "take_field key f = (bt_get f (lit key), bt_remove (lit key) f)"

definition require :: "string \<Rightarrow> 'c fields \<Rightarrow> error + ('c ipld \<times> 'c fields)" where
  "require key f =
     (case take_field key f of
        (Some v, f) \<Rightarrow> Ok (v, f)
      | (None, _) \<Rightarrow> Err (EPayload (MissingField (lit key))))"

definition fields_finish :: "'c fields \<Rightarrow> error + unit" where
  "fields_finish f = (case f of (key, _) # _ \<Rightarrow> Err (EPayload (UnknownField key)) | [] \<Rightarrow> Ok ())"

definition text_field :: "string \<Rightarrow> 'c ipld \<Rightarrow> error + str" where
  "text_field field v = (case v of IString s \<Rightarrow> Ok s | _ \<Rightarrow> Err (EPayload (TypeField (lit field))))"

definition did_field :: "string \<Rightarrow> 'c ipld \<Rightarrow> error + did" where
  "did_field field v = res_bind (text_field field v) (\<lambda>s. map_err EDid (did_parse s))"

definition bytes_field :: "string \<Rightarrow> 'c ipld \<Rightarrow> error + byte list" where
  "bytes_field field v = (case v of IBytes b \<Rightarrow> Ok b | _ \<Rightarrow> Err (EPayload (TypeField (lit field))))"

definition map_field :: "string \<Rightarrow> 'c ipld \<Rightarrow> error + (str \<times> 'c ipld) list" where
  "map_field field v = (case v of IMap m \<Rightarrow> Ok m | _ \<Rightarrow> Err (EPayload (TypeField (lit field))))"

definition list_field :: "string \<Rightarrow> 'c ipld \<Rightarrow> error + 'c ipld list" where
  "list_field field v = (case v of IList l \<Rightarrow> Ok l | _ \<Rightarrow> Err (EPayload (TypeField (lit field))))"

definition i64_try_from :: "int \<Rightarrow> int option" where
  "i64_try_from i = (if i64_min \<le> i \<and> i \<le> i64_max then Some i else None)"

definition timestamp_field :: "string \<Rightarrow> 'c ipld \<Rightarrow> error + timestamp" where
  "timestamp_field field v =
     (case v of
        IInteger i \<Rightarrow> ok_or (EPayload (RangeField (lit field)))
          (Option.bind (i64_try_from i) (\<lambda>s. res_ok (from_unix s)))
      | _ \<Rightarrow> Err (EPayload (TypeField (lit field))))"

definition link_field :: "string \<Rightarrow> 'c ipld \<Rightarrow> error + 'c" where
  "link_field field v = (case v of ILink cid \<Rightarrow> Ok cid | _ \<Rightarrow> Err (EPayload (TypeField (lit field))))"

end
