(* ===== verification/Payload_Fields.thy ===== *)
theory Payload_Fields
  imports Envelope
begin

text \<open>
  Reading a payload map field by field, shared by delegations and invocations: what the typed
  readers of \<open>envelope.rs\<close> accept, and that a payload whose fields have all been taken is
  determined by them.
\<close>

text \<open>\<open>fields.take(key).map(f).transpose()\<close>.\<close>

definition optional :: "('v \<Rightarrow> 'e + 'a) \<Rightarrow> 'v option \<Rightarrow> 'e + 'a option" where
  "optional f m = (case m of None \<Rightarrow> Ok None | Some v \<Rightarrow> map_ok Some (f v))"

text \<open>\<open>exp\<close>: \<open>null\<close> or a timestamp, and back.\<close>

definition expiry_field :: "'c ipld \<Rightarrow> error + expiry" where
  "expiry_field v = (case v of INull \<Rightarrow> Ok Never | v \<Rightarrow> map_ok At (timestamp_field ''exp'' v))"

definition expiry_to_ipld :: "expiry \<Rightarrow> 'c ipld" where
  "expiry_to_ipld e = (case e of At at \<Rightarrow> IInteger (as_unix at) | Never \<Rightarrow> INull)"

definition did_to_ipld :: "did \<Rightarrow> 'c ipld" where
  "did_to_ipld d = IString (did_str d)"

section \<open>Lemmas\<close>

text \<open>A DID that came out of the parser.\<close>

definition did_parsed :: "did \<Rightarrow> bool" where
  "did_parsed d \<longleftrightarrow> did_parse (did_str d) = Ok d"

lemma did_parse_Ok: "did_parse s = Ok d \<longleftrightarrow> s = did_str d \<and> did_parsed d"
  using did_wf_parse [of s d] by (auto simp: did_parsed_def)

lemma command_parse_Ok: "command_parse upper s = Ok c \<longleftrightarrow> s = cmd_str c \<and> command_wf upper c"
  using command_parse_str [of upper s c] by (auto simp: command_wf_def)

lemma optional_Ok [res_simps]:
  "optional f m = Ok r \<longleftrightarrow> (case m of None \<Rightarrow> r = None | Some v \<Rightarrow> \<exists>x. f v = Ok x \<and> r = Some x)"
  by (auto simp: optional_def map_ok_Ok split: option.split)

lemma take_field_eq: "take_field k f = (bt_get f (lit k), bt_remove (lit k) f)"
  by (simp add: take_field_def)

lemma require_Ok [res_simps]:
  "require k f = Ok r \<longleftrightarrow> (\<exists>v. bt_get f (lit k) = Some v \<and> r = (v, bt_remove (lit k) f))"
  by (auto simp: require_def take_field_def split: option.splits)

lemma fields_new_Ok [res_simps]: "fields_new w = Ok f \<longleftrightarrow> w = IMap f"
  by (cases w) (auto simp: fields_new_def)

lemma fields_finish_Ok [res_simps]: "fields_finish f = Ok u \<longleftrightarrow> f = []"
  by (auto simp: fields_finish_def split: list.splits)

lemma text_field_Ok: "text_field k w = Ok s \<longleftrightarrow> w = IString s"
  by (cases w) (auto simp: text_field_def)

lemma bytes_field_Ok: "bytes_field k w = Ok s \<longleftrightarrow> w = IBytes s"
  by (cases w) (auto simp: bytes_field_def)

lemma map_field_Ok: "map_field k w = Ok s \<longleftrightarrow> w = IMap s"
  by (cases w) (auto simp: map_field_def)

lemma list_field_Ok: "list_field k w = Ok s \<longleftrightarrow> w = IList s"
  by (cases w) (auto simp: list_field_def)

lemma link_field_Ok: "link_field k w = Ok c \<longleftrightarrow> w = ILink c"
  by (cases w) (auto simp: link_field_def)

lemma did_field_Ok: "did_field k w = Ok d \<longleftrightarrow> w = did_to_ipld d \<and> did_parsed d"
  by (auto simp: did_field_def res_simps text_field_Ok did_parse_Ok did_to_ipld_def)

lemma timestamp_field_Ok: "timestamp_field k w = Ok t \<longleftrightarrow> w = IInteger (as_unix t) \<and> ts_wf t"
proof (cases w)
  case (IInteger i)
  have "ts_wf t \<Longrightarrow> i64_min \<le> as_unix t \<and> as_unix t \<le> i64_max"
    unfolding ts_wf_def ts_bounds by simp
  then show ?thesis unfolding IInteger
    by (cases t) (auto simp: timestamp_field_def i64_try_from_def from_unix_Ok bind_eq_Some_conv)
qed (auto simp: timestamp_field_def)

lemma expiry_field_Ok: "expiry_field w = Ok e \<longleftrightarrow> w = expiry_to_ipld e \<and> expiry_wf e"
  by (cases w; cases e)
    (auto simp: expiry_field_def expiry_to_ipld_def expiry_wf_def res_simps timestamp_field_Ok)

lemmas field_Ok = text_field_Ok bytes_field_Ok map_field_Ok list_field_Ok link_field_Ok did_field_Ok
  timestamp_field_Ok expiry_field_Ok command_parse_Ok

lemma res_map_links: "res_map (link_field k) ws = Ok cs \<longleftrightarrow> ws = map ILink cs"
proof -
  have "list_all2 (\<lambda>w c. w = ILink c) ws cs \<longleftrightarrow> ws = map ILink cs"
    by (auto simp: list_all2_conv_all_nth list_eq_iff_nth_eq)
  then show ?thesis by (simp add: res_map_Ok link_field_Ok)
qed

text \<open>A map all of whose keys have been removed is empty, and only then.\<close>

lemma bt_empty_iff: "bt_wf m \<Longrightarrow> m = [] \<longleftrightarrow> (\<forall>k. bt_get m k = None)"
  by (cases m) (auto simp: bt_get_Cons split: if_splits)

end
