(* ===== verification/Delegation.thy ===== *)
theory Delegation
  imports Payload_Fields Nonce
begin

text \<open>
  \<open>delegation.rs\<close>: signed, attenuable grants of authority. \<open>upper\<close> is the table of uppercase
  characters that parsing a command consults.
\<close>

datatype subject = SubjectDid did | Powerline

fun subject_did :: "subject \<Rightarrow> did option" where
  "subject_did (SubjectDid d) = Some d"
| "subject_did Powerline = None"

record 'c delegation_payload =
  dp_issuer :: did
  dp_audience :: did
  dp_subject :: subject
  dp_command :: command
  dp_policy :: "'c policy"
  dp_nonce :: nonce
  dp_meta :: "(str \<times> 'c ipld) list"
  dp_not_before :: "timestamp option"
  dp_expiration :: expiry

section \<open>Wire form\<close>

definition subject_to_ipld :: "subject \<Rightarrow> 'c ipld" where
  "subject_to_ipld s = (case s of SubjectDid d \<Rightarrow> did_to_ipld d | Powerline \<Rightarrow> INull)"

definition delegation_payload_to_ipld :: "'c delegation_payload \<Rightarrow> 'c ipld" where
  "delegation_payload_to_ipld p =
     (let m = bt_insert (lit ''iss'') (did_to_ipld (dp_issuer p)) [];
          m = bt_insert (lit ''aud'') (did_to_ipld (dp_audience p)) m;
          m = bt_insert (lit ''sub'') (subject_to_ipld (dp_subject p)) m;
          m = bt_insert (lit ''cmd'') (IString (cmd_str (dp_command p))) m;
          m = bt_insert (lit ''pol'') (policy_to_ipld (dp_policy p)) m;
          m = bt_insert (lit ''nonce'') (IBytes (nonce_bytes (dp_nonce p))) m;
          m = bt_insert (lit ''exp'') (expiry_to_ipld (dp_expiration p)) m;
          m = (case dp_not_before p of Some nbf \<Rightarrow> bt_insert (lit ''nbf'') (IInteger (as_unix nbf)) m | None \<Rightarrow> m);
          m = (if dp_meta p \<noteq> [] then bt_insert (lit ''meta'') (IMap (dp_meta p)) m else m)
      in IMap m)"

definition subject_field :: "'c ipld \<Rightarrow> error + subject" where
  "subject_field v = (case v of INull \<Rightarrow> Ok Powerline | v \<Rightarrow> map_ok SubjectDid (did_field ''sub'' v))"

definition delegation_payload_from_ipld :: "(uchar \<Rightarrow> bool) \<Rightarrow> 'c ipld \<Rightarrow> error + 'c delegation_payload" where
  "delegation_payload_from_ipld upper payload =
     res_bind (fields_new payload) (\<lambda>f.
     res_bind (require ''iss'' f) (\<lambda>(v, f).
     res_bind (did_field ''iss'' v) (\<lambda>issuer.
     res_bind (require ''aud'' f) (\<lambda>(v, f).
     res_bind (did_field ''aud'' v) (\<lambda>audience.
     res_bind (require ''sub'' f) (\<lambda>(v, f).
     res_bind (subject_field v) (\<lambda>subject.
     res_bind (require ''cmd'' f) (\<lambda>(v, f).
     res_bind (text_field ''cmd'' v) (\<lambda>t.
     res_bind (map_err ECommand (command_parse upper t)) (\<lambda>command.
     res_bind (require ''pol'' f) (\<lambda>(v, f).
     res_bind (map_err EPolicy (policy_from_ipld v)) (\<lambda>policy.
     res_bind (require ''nonce'' f) (\<lambda>(v, f).
     res_bind (map_ok nonce_from_bytes (bytes_field ''nonce'' v)) (\<lambda>nonce.
     res_bind (require ''exp'' f) (\<lambda>(v, f).
     res_bind (expiry_field v) (\<lambda>expiration.
     let (v, f) = take_field ''nbf'' f in
     res_bind (optional (timestamp_field ''nbf'') v) (\<lambda>not_before.
     let (v, f) = take_field ''meta'' f in
     res_bind (optional (map_field ''meta'') v) (\<lambda>meta.
     res_bind (fields_finish f) (\<lambda>_.
     Ok \<lparr>dp_issuer = issuer, dp_audience = audience, dp_subject = subject, dp_command = command,
         dp_policy = policy, dp_nonce = nonce, dp_meta = (case meta of Some m \<Rightarrow> m | None \<Rightarrow> []),
         dp_not_before = not_before, dp_expiration = expiration\<rparr>)))))))))))))))))))"

section \<open>Tokens\<close>

record 'c delegation =
  d_envelope :: "'c envelope"
  d_payload :: "'c delegation_payload"

definition delegation_from_parts ::
  "(uchar \<Rightarrow> bool) \<Rightarrow> 'c envelope \<times> 'c ipld \<Rightarrow> error + 'c delegation" where
  "delegation_from_parts upper parts =
     (case parts of (envelope, payload) \<Rightarrow>
      if env_kind envelope \<noteq> Delegation
      then Err (EEnvelope (WrongKind Delegation (env_kind envelope)))
      else map_ok (\<lambda>payload. \<lparr>d_envelope = envelope, d_payload = payload\<rparr>)
             (delegation_payload_from_ipld upper payload))"

definition delegation_decode_with ::
  "'c cid_lib \<Rightarrow> (uchar \<Rightarrow> bool) \<Rightarrow> byte list \<Rightarrow> decode_options \<Rightarrow> error + 'c delegation" where
  "delegation_decode_with L upper bs options =
     res_bind (open_envelope L bs options) (delegation_from_parts upper)"

definition delegation_decode :: "'c cid_lib \<Rightarrow> (uchar \<Rightarrow> bool) \<Rightarrow> byte list \<Rightarrow> error + 'c delegation" where
  "delegation_decode L upper bs = delegation_decode_with L upper bs STRICT"

definition delegation_assemble ::
  "'c cid_lib \<Rightarrow> (uchar \<Rightarrow> bool) \<Rightarrow> byte list \<Rightarrow> byte list \<Rightarrow> error + 'c delegation" where
  "delegation_assemble L upper signing_bytes signature =
     res_bind (assemble_envelope L signing_bytes signature) (delegation_from_parts upper)"

abbreviation d_issuer :: "'c delegation \<Rightarrow> did" where "d_issuer d \<equiv> dp_issuer (d_payload d)"
abbreviation d_audience :: "'c delegation \<Rightarrow> did" where "d_audience d \<equiv> dp_audience (d_payload d)"
abbreviation d_subject :: "'c delegation \<Rightarrow> subject" where "d_subject d \<equiv> dp_subject (d_payload d)"
abbreviation d_command :: "'c delegation \<Rightarrow> command" where "d_command d \<equiv> dp_command (d_payload d)"
abbreviation d_policy :: "'c delegation \<Rightarrow> 'c policy" where "d_policy d \<equiv> dp_policy (d_payload d)"
abbreviation d_cid :: "'c delegation \<Rightarrow> 'c" where "d_cid d \<equiv> env_cid (d_envelope d)"
abbreviation d_expiration :: "'c delegation \<Rightarrow> expiry" where "d_expiration d \<equiv> dp_expiration (d_payload d)"
abbreviation d_nonce :: "'c delegation \<Rightarrow> nonce" where "d_nonce d \<equiv> dp_nonce (d_payload d)"
abbreviation d_meta :: "'c delegation \<Rightarrow> (str \<times> 'c ipld) list" where "d_meta d \<equiv> dp_meta (d_payload d)"
abbreviation d_not_before :: "'c delegation \<Rightarrow> timestamp option" where "d_not_before d \<equiv> dp_not_before (d_payload d)"
abbreviation d_bytes :: "'c delegation \<Rightarrow> byte list" where "d_bytes d \<equiv> env_bytes (d_envelope d)"
abbreviation d_algorithm :: "'c delegation \<Rightarrow> algorithm" where "d_algorithm d \<equiv> h_algorithm (env_header (d_envelope d))"
abbreviation d_signature :: "'c delegation \<Rightarrow> signature" where "d_signature d \<equiv> env_signature (d_envelope d)"

definition d_to_dag_json :: "'c cid_lib \<Rightarrow> 'c delegation \<Rightarrow> error + str" where
  "d_to_dag_json L d = envelope_to_dag_json L (d_envelope d)"

definition delegation_verify :: "'s crypto_lib \<Rightarrow> resolver \<Rightarrow> 'c delegation \<Rightarrow> error + unit" where
  "delegation_verify K resolver_of d =
     res_bind (map_err EResolve (resolver_of (d_issuer d))) (\<lambda>key. verify_envelope K (d_envelope d) key)"

definition delegation_check_time :: "'c delegation \<Rightarrow> timestamp \<Rightarrow> 32 word \<Rightarrow> error + unit" where
  "delegation_check_time d now skew = check_window (dp_not_before (d_payload d)) (d_expiration d) now skew"

section \<open>Building\<close>

text \<open>
  The builder. Its two type parameters, which allow \<open>sign\<close> only once an expiry and a nonce have
  been chosen, are the two options here: \<open>ready\<close> says that both are set.
\<close>

record 'c delegation_builder =
  db_audience :: did
  db_subject :: subject
  db_command :: command
  db_policy :: "'c policy"
  db_meta :: "(str \<times> 'c ipld) list"
  db_not_before :: "timestamp option"
  db_expiry :: "expiry option"
  db_nonce :: "nonce option"

definition delegation_start :: "did \<Rightarrow> subject \<Rightarrow> command \<Rightarrow> 'c delegation_builder" where
  "delegation_start audience subject command =
     \<lparr>db_audience = audience, db_subject = subject, db_command = command, db_policy = Policy [],
      db_meta = [], db_not_before = None, db_expiry = None, db_nonce = None\<rparr>"

definition db_with_policy :: "'c policy \<Rightarrow> 'c delegation_builder \<Rightarrow> 'c delegation_builder" where
  "db_with_policy policy b = b\<lparr>db_policy := policy\<rparr>"

definition db_valid_from :: "timestamp \<Rightarrow> 'c delegation_builder \<Rightarrow> 'c delegation_builder" where
  "db_valid_from at b = b\<lparr>db_not_before := Some at\<rparr>"

definition db_with_meta :: "(str \<times> 'c ipld) list \<Rightarrow> 'c delegation_builder \<Rightarrow> 'c delegation_builder" where
  "db_with_meta meta b = b\<lparr>db_meta := meta\<rparr>"

definition db_meta_entry :: "str \<Rightarrow> 'c ipld \<Rightarrow> 'c delegation_builder \<Rightarrow> 'c delegation_builder" where
  "db_meta_entry key v b = b\<lparr>db_meta := bt_insert key v (db_meta b)\<rparr>"

definition db_expires_at :: "timestamp \<Rightarrow> 'c delegation_builder \<Rightarrow> 'c delegation_builder" where
  "db_expires_at at b = b\<lparr>db_expiry := Some (At at)\<rparr>"

definition db_never_expires :: "'c delegation_builder \<Rightarrow> 'c delegation_builder" where
  "db_never_expires b = b\<lparr>db_expiry := Some Never\<rparr>"

definition db_with_nonce :: "nonce \<Rightarrow> 'c delegation_builder \<Rightarrow> 'c delegation_builder" where
  "db_with_nonce n b = b\<lparr>db_nonce := Some n\<rparr>"

definition db_ready :: "'c delegation_builder \<Rightarrow> bool" where
  "db_ready b \<longleftrightarrow> db_expiry b \<noteq> None \<and> db_nonce b \<noteq> None"

definition db_payload :: "'c delegation_builder \<Rightarrow> did \<Rightarrow> 'c delegation_payload" where
  "db_payload b issuer =
     \<lparr>dp_issuer = issuer, dp_audience = db_audience b, dp_subject = db_subject b,
      dp_command = db_command b, dp_policy = db_policy b,
      dp_nonce = (case db_nonce b of Some n \<Rightarrow> n | None \<Rightarrow> nonce_empty), dp_meta = db_meta b,
      dp_not_before = db_not_before b,
      dp_expiration = (case db_expiry b of Some e \<Rightarrow> e | None \<Rightarrow> Never)\<rparr>"

definition delegation_sign :: "'c cid_lib \<Rightarrow> signer \<Rightarrow> 'c delegation_builder \<Rightarrow> error + 'c delegation" where
  "delegation_sign L signer b =
     (let payload = db_payload b (sg_did signer) in
      map_ok (\<lambda>envelope. \<lparr>d_envelope = envelope, d_payload = payload\<rparr>)
        (seal L signer Delegation (delegation_payload_to_ipld payload)))"

definition delegation_prepare_with ::
  "'c cid_lib \<Rightarrow> did \<Rightarrow> header \<Rightarrow> 'c delegation_builder \<Rightarrow> error + unsigned" where
  "delegation_prepare_with L issuer header b =
     prepare_envelope L header Delegation (delegation_payload_to_ipld (db_payload b issuer))"

definition delegation_prepare ::
  "'c cid_lib \<Rightarrow> did \<Rightarrow> algorithm \<Rightarrow> 'c delegation_builder \<Rightarrow> error + unsigned" where
  "delegation_prepare L issuer a b = delegation_prepare_with L issuer (header_new a) b"

end
