(* ===== verification/Invocation.thy ===== *)
theory Invocation
  imports Payload_Fields Nonce
begin

text \<open>
  \<open>invocation.rs\<close>: signed requests to exercise delegated authority.
\<close>

record 'c invocation_payload =
  ip_issuer :: did
  ip_subject :: did
  ip_audience :: "did option"
  ip_command :: command
  ip_args :: "(str \<times> 'c ipld) list"
  ip_proofs :: "'c list"
  ip_meta :: "(str \<times> 'c ipld) list"
  ip_nonce :: nonce
  ip_expiration :: expiry
  ip_issued_at :: "timestamp option"
  ip_cause :: "'c option"

text \<open>Who should execute: the audience if given, else the subject.\<close>

definition executor :: "'c invocation_payload \<Rightarrow> did" where
  "executor p = (case ip_audience p of Some aud \<Rightarrow> aud | None \<Rightarrow> ip_subject p)"

section \<open>Wire form\<close>

definition invocation_payload_to_ipld :: "'c invocation_payload \<Rightarrow> 'c ipld" where
  "invocation_payload_to_ipld p =
     (let m = bt_insert (lit ''iss'') (did_to_ipld (ip_issuer p)) [];
          m = bt_insert (lit ''sub'') (did_to_ipld (ip_subject p)) m;
          m = (case ip_audience p of Some aud \<Rightarrow> bt_insert (lit ''aud'') (did_to_ipld aud) m | None \<Rightarrow> m);
          m = bt_insert (lit ''cmd'') (IString (cmd_str (ip_command p))) m;
          m = bt_insert (lit ''args'') (IMap (ip_args p)) m;
          m = bt_insert (lit ''prf'') (IList (map ILink (ip_proofs p))) m;
          m = (if ip_meta p \<noteq> [] then bt_insert (lit ''meta'') (IMap (ip_meta p)) m else m);
          m = bt_insert (lit ''nonce'') (IBytes (nonce_bytes (ip_nonce p))) m;
          m = bt_insert (lit ''exp'') (expiry_to_ipld (ip_expiration p)) m;
          m = (case ip_issued_at p of Some iat \<Rightarrow> bt_insert (lit ''iat'') (IInteger (as_unix iat)) m | None \<Rightarrow> m);
          m = (case ip_cause p of Some cause \<Rightarrow> bt_insert (lit ''cause'') (ILink cause) m | None \<Rightarrow> m)
      in IMap m)"

definition invocation_payload_from_ipld :: "(uchar \<Rightarrow> bool) \<Rightarrow> 'c ipld \<Rightarrow> error + 'c invocation_payload" where
  "invocation_payload_from_ipld upper payload =
     res_bind (fields_new payload) (\<lambda>f.
     res_bind (require ''iss'' f) (\<lambda>(v, f).
     res_bind (did_field ''iss'' v) (\<lambda>issuer.
     res_bind (require ''sub'' f) (\<lambda>(v, f).
     res_bind (did_field ''sub'' v) (\<lambda>subject.
     let (v, f) = take_field ''aud'' f in
     res_bind (optional (did_field ''aud'') v) (\<lambda>audience.
     if \<exists>aud. audience = Some aud \<and> same_principal aud subject
     then Err (EPayload (ForbiddenField (lit ''aud''))) else
     res_bind (require ''cmd'' f) (\<lambda>(v, f).
     res_bind (text_field ''cmd'' v) (\<lambda>t.
     res_bind (map_err ECommand (command_parse upper t)) (\<lambda>command.
     res_bind (require ''args'' f) (\<lambda>(v, f).
     res_bind (map_field ''args'' v) (\<lambda>args.
     res_bind (require ''prf'' f) (\<lambda>(v, f).
     res_bind (list_field ''prf'' v) (\<lambda>links.
     res_bind (res_map (link_field ''prf'') links) (\<lambda>proofs.
     let (v, f) = take_field ''meta'' f in
     res_bind (optional (map_field ''meta'') v) (\<lambda>meta.
     if meta = Some [] then Err (EPayload (ForbiddenField (lit ''meta''))) else
     res_bind (require ''nonce'' f) (\<lambda>(v, f).
     res_bind (map_ok nonce_from_bytes (bytes_field ''nonce'' v)) (\<lambda>nonce.
     res_bind (require ''exp'' f) (\<lambda>(v, f).
     res_bind (expiry_field v) (\<lambda>expiration.
     let (v, f) = take_field ''iat'' f in
     res_bind (optional (timestamp_field ''iat'') v) (\<lambda>issued_at.
     let (v, f) = take_field ''cause'' f in
     res_bind (optional (link_field ''cause'') v) (\<lambda>cause.
     res_bind (fields_finish f) (\<lambda>_.
     Ok \<lparr>ip_issuer = issuer, ip_subject = subject, ip_audience = audience, ip_command = command,
         ip_args = args, ip_proofs = proofs, ip_meta = (case meta of Some m \<Rightarrow> m | None \<Rightarrow> []),
         ip_nonce = nonce, ip_expiration = expiration, ip_issued_at = issued_at,
         ip_cause = cause\<rparr>))))))))))))))))))))))"

section \<open>Tokens\<close>

record 'c invocation =
  i_envelope :: "'c envelope"
  i_payload :: "'c invocation_payload"

definition invocation_from_parts ::
  "(uchar \<Rightarrow> bool) \<Rightarrow> 'c envelope \<times> 'c ipld \<Rightarrow> error + 'c invocation" where
  "invocation_from_parts upper parts =
     (case parts of (envelope, payload) \<Rightarrow>
      if env_kind envelope \<noteq> Invocation
      then Err (EEnvelope (WrongKind Invocation (env_kind envelope)))
      else map_ok (\<lambda>payload. \<lparr>i_envelope = envelope, i_payload = payload\<rparr>)
             (invocation_payload_from_ipld upper payload))"

definition invocation_decode_with ::
  "'c cid_lib \<Rightarrow> (uchar \<Rightarrow> bool) \<Rightarrow> byte list \<Rightarrow> decode_options \<Rightarrow> error + 'c invocation" where
  "invocation_decode_with L upper bs options =
     res_bind (open_envelope L bs options) (invocation_from_parts upper)"

definition invocation_decode :: "'c cid_lib \<Rightarrow> (uchar \<Rightarrow> bool) \<Rightarrow> byte list \<Rightarrow> error + 'c invocation" where
  "invocation_decode L upper bs = invocation_decode_with L upper bs STRICT"

definition invocation_assemble ::
  "'c cid_lib \<Rightarrow> (uchar \<Rightarrow> bool) \<Rightarrow> byte list \<Rightarrow> byte list \<Rightarrow> error + 'c invocation" where
  "invocation_assemble L upper signing_bytes signature =
     res_bind (assemble_envelope L signing_bytes signature) (invocation_from_parts upper)"

abbreviation i_issuer :: "'c invocation \<Rightarrow> did" where "i_issuer i \<equiv> ip_issuer (i_payload i)"
abbreviation i_subject :: "'c invocation \<Rightarrow> did" where "i_subject i \<equiv> ip_subject (i_payload i)"
abbreviation i_command :: "'c invocation \<Rightarrow> command" where "i_command i \<equiv> ip_command (i_payload i)"
abbreviation i_args :: "'c invocation \<Rightarrow> (str \<times> 'c ipld) list" where "i_args i \<equiv> ip_args (i_payload i)"
abbreviation i_proofs :: "'c invocation \<Rightarrow> 'c list" where "i_proofs i \<equiv> ip_proofs (i_payload i)"
abbreviation i_cid :: "'c invocation \<Rightarrow> 'c" where "i_cid i \<equiv> env_cid (i_envelope i)"
abbreviation i_expiration :: "'c invocation \<Rightarrow> expiry" where "i_expiration i \<equiv> ip_expiration (i_payload i)"
abbreviation i_audience :: "'c invocation \<Rightarrow> did option" where "i_audience i \<equiv> ip_audience (i_payload i)"
abbreviation i_executor :: "'c invocation \<Rightarrow> did" where "i_executor i \<equiv> executor (i_payload i)"
abbreviation i_meta :: "'c invocation \<Rightarrow> (str \<times> 'c ipld) list" where "i_meta i \<equiv> ip_meta (i_payload i)"
abbreviation i_nonce :: "'c invocation \<Rightarrow> nonce" where "i_nonce i \<equiv> ip_nonce (i_payload i)"
abbreviation i_issued_at :: "'c invocation \<Rightarrow> timestamp option" where "i_issued_at i \<equiv> ip_issued_at (i_payload i)"
abbreviation i_cause :: "'c invocation \<Rightarrow> 'c option" where "i_cause i \<equiv> ip_cause (i_payload i)"
abbreviation i_bytes :: "'c invocation \<Rightarrow> byte list" where "i_bytes i \<equiv> env_bytes (i_envelope i)"
abbreviation i_algorithm :: "'c invocation \<Rightarrow> algorithm" where "i_algorithm i \<equiv> h_algorithm (env_header (i_envelope i))"
abbreviation i_signature :: "'c invocation \<Rightarrow> signature" where "i_signature i \<equiv> env_signature (i_envelope i)"

definition i_to_dag_json :: "'c cid_lib \<Rightarrow> 'c invocation \<Rightarrow> error + str" where
  "i_to_dag_json L i = envelope_to_dag_json L (i_envelope i)"

text \<open>The task that an invocation requests, and its identifier.\<close>

definition task :: "'c invocation \<Rightarrow> 'c ipld" where
  "task i =
     (let m = bt_insert (lit ''sub'') (did_to_ipld (i_subject i)) [];
          m = bt_insert (lit ''cmd'') (IString (cmd_str (i_command i))) m;
          m = bt_insert (lit ''args'') (IMap (i_args i)) m;
          m = bt_insert (lit ''nonce'') (IBytes (nonce_bytes (ip_nonce (i_payload i)))) m
      in IMap m)"

definition task_id :: "'c cid_lib \<Rightarrow> 'c invocation \<Rightarrow> error + 'c" where
  "task_id L i = map_ok (of_dag_cbor L) (map_err ECodec (encode L (task i)))"

definition invocation_verify :: "'s crypto_lib \<Rightarrow> resolver \<Rightarrow> 'c invocation \<Rightarrow> error + unit" where
  "invocation_verify K resolver_of i =
     res_bind (map_err EResolve (resolver_of (i_issuer i))) (\<lambda>key. verify_envelope K (i_envelope i) key)"

definition invocation_check_time :: "'c invocation \<Rightarrow> timestamp \<Rightarrow> 32 word \<Rightarrow> error + unit" where
  "invocation_check_time i now skew = check_window None (i_expiration i) now skew"

section \<open>Building\<close>

record 'c invocation_builder =
  ib_subject :: did
  ib_command :: command
  ib_audience :: "did option"
  ib_args :: "(str \<times> 'c ipld) list"
  ib_proofs :: "'c list"
  ib_meta :: "(str \<times> 'c ipld) list"
  ib_issued_at :: "timestamp option"
  ib_cause :: "'c option"
  ib_expiry :: "expiry option"
  ib_nonce :: "nonce option"

definition invocation_start :: "did \<Rightarrow> command \<Rightarrow> 'c invocation_builder" where
  "invocation_start subject command =
     \<lparr>ib_subject = subject, ib_command = command, ib_audience = None, ib_args = [], ib_proofs = [],
      ib_meta = [], ib_issued_at = None, ib_cause = None, ib_expiry = None, ib_nonce = None\<rparr>"

definition ib_for_audience :: "did \<Rightarrow> 'c invocation_builder \<Rightarrow> 'c invocation_builder" where
  "ib_for_audience audience b = b\<lparr>ib_audience := Some audience\<rparr>"

definition ib_with_args :: "(str \<times> 'c ipld) list \<Rightarrow> 'c invocation_builder \<Rightarrow> 'c invocation_builder" where
  "ib_with_args args b = b\<lparr>ib_args := args\<rparr>"

definition ib_arg :: "str \<Rightarrow> 'c ipld \<Rightarrow> 'c invocation_builder \<Rightarrow> 'c invocation_builder" where
  "ib_arg key v b = b\<lparr>ib_args := bt_insert key v (ib_args b)\<rparr>"

definition ib_with_proofs :: "'c list \<Rightarrow> 'c invocation_builder \<Rightarrow> 'c invocation_builder" where
  "ib_with_proofs proofs b = b\<lparr>ib_proofs := proofs\<rparr>"

definition ib_proof :: "'c \<Rightarrow> 'c invocation_builder \<Rightarrow> 'c invocation_builder" where
  "ib_proof proof' b = b\<lparr>ib_proofs := ib_proofs b @ [proof']\<rparr>"

definition ib_with_meta :: "(str \<times> 'c ipld) list \<Rightarrow> 'c invocation_builder \<Rightarrow> 'c invocation_builder" where
  "ib_with_meta meta b = b\<lparr>ib_meta := meta\<rparr>"

definition ib_meta_entry :: "str \<Rightarrow> 'c ipld \<Rightarrow> 'c invocation_builder \<Rightarrow> 'c invocation_builder" where
  "ib_meta_entry key v b = b\<lparr>ib_meta := bt_insert key v (ib_meta b)\<rparr>"

definition ib_claim_issued_at :: "timestamp \<Rightarrow> 'c invocation_builder \<Rightarrow> 'c invocation_builder" where
  "ib_claim_issued_at at b = b\<lparr>ib_issued_at := Some at\<rparr>"

definition ib_with_cause :: "'c \<Rightarrow> 'c invocation_builder \<Rightarrow> 'c invocation_builder" where
  "ib_with_cause receipt b = b\<lparr>ib_cause := Some receipt\<rparr>"

definition ib_expires_at :: "timestamp \<Rightarrow> 'c invocation_builder \<Rightarrow> 'c invocation_builder" where
  "ib_expires_at at b = b\<lparr>ib_expiry := Some (At at)\<rparr>"

definition ib_never_expires :: "'c invocation_builder \<Rightarrow> 'c invocation_builder" where
  "ib_never_expires b = b\<lparr>ib_expiry := Some Never\<rparr>"

definition ib_with_nonce :: "nonce \<Rightarrow> 'c invocation_builder \<Rightarrow> 'c invocation_builder" where
  "ib_with_nonce n b = b\<lparr>ib_nonce := Some n\<rparr>"

definition ib_ready :: "'c invocation_builder \<Rightarrow> bool" where
  "ib_ready b \<longleftrightarrow> ib_expiry b \<noteq> None \<and> ib_nonce b \<noteq> None"

text \<open>An audience that is the subject is dropped, as the wire format requires.\<close>

definition ib_payload :: "'c invocation_builder \<Rightarrow> did \<Rightarrow> 'c invocation_payload" where
  "ib_payload b issuer =
     \<lparr>ip_issuer = issuer, ip_subject = ib_subject b,
      ip_audience = (case ib_audience b of
          Some aud \<Rightarrow> if \<not> same_principal aud (ib_subject b) then Some aud else None | None \<Rightarrow> None),
      ip_command = ib_command b, ip_args = ib_args b, ip_proofs = ib_proofs b, ip_meta = ib_meta b,
      ip_nonce = (case ib_nonce b of Some n \<Rightarrow> n | None \<Rightarrow> nonce_empty),
      ip_expiration = (case ib_expiry b of Some e \<Rightarrow> e | None \<Rightarrow> Never),
      ip_issued_at = ib_issued_at b, ip_cause = ib_cause b\<rparr>"

definition invocation_sign :: "'c cid_lib \<Rightarrow> signer \<Rightarrow> 'c invocation_builder \<Rightarrow> error + 'c invocation" where
  "invocation_sign L signer b =
     (let payload = ib_payload b (sg_did signer) in
      map_ok (\<lambda>envelope. \<lparr>i_envelope = envelope, i_payload = payload\<rparr>)
        (seal L signer Invocation (invocation_payload_to_ipld payload)))"

definition invocation_prepare_with ::
  "'c cid_lib \<Rightarrow> did \<Rightarrow> header \<Rightarrow> 'c invocation_builder \<Rightarrow> error + unsigned" where
  "invocation_prepare_with L issuer header b =
     prepare_envelope L header Invocation (invocation_payload_to_ipld (ib_payload b issuer))"

definition invocation_prepare ::
  "'c cid_lib \<Rightarrow> did \<Rightarrow> algorithm \<Rightarrow> 'c invocation_builder \<Rightarrow> error + unsigned" where
  "invocation_prepare L issuer a b = invocation_prepare_with L issuer (header_new a) b"

end
