(* ===== verification/Stores.thy ===== *)
theory Stores
  imports Delegation Invocation
begin

text \<open>
  The stores of \<open>validate.rs\<close>: where a validator finds delegations, remembers invocations and
  looks up revocations. The traits \<open>ProofStore\<close>, \<open>ReplayGuard\<close> and \<open>RevocationStore\<close> are the
  locales; the in-memory implementations, ordered maps keyed by CID, interpret them.
\<close>

section \<open>\<open>MemoryStore\<close>\<close>

type_synonym 'c memory_store = "('c \<times> 'c delegation) list"

definition store_insert :: "'c::linorder delegation \<Rightarrow> 'c memory_store \<Rightarrow> 'c \<times> 'c memory_store" where
  "store_insert d s = (d_cid d, bt_insert (d_cid d) d s)"

definition store_remove :: "'c \<Rightarrow> 'c memory_store \<Rightarrow> 'c delegation option \<times> 'c memory_store" where
  "store_remove cid s = (bt_get s cid, bt_remove cid s)"

definition store_get :: "'c memory_store \<Rightarrow> 'c \<Rightarrow> 'c delegation option" where
  "store_get s cid = bt_get s cid"

definition store_len :: "'c memory_store \<Rightarrow> nat" where
  "store_len s = length s"

definition store_is_empty :: "'c memory_store \<Rightarrow> bool" where
  "store_is_empty s \<longleftrightarrow> s = []"

definition store_prune_expired :: "timestamp \<Rightarrow> 32 word \<Rightarrow> 'c memory_store \<Rightarrow> 'c memory_store" where
  "store_prune_expired now skew s = bt_retain (\<lambda>_ d. \<not> is_past (d_expiration d) now skew) s"

section \<open>\<open>MemoryReplayGuard\<close>\<close>

type_synonym 'c replay_guard = "('c \<times> expiry) list"

text \<open>\<open>true\<close> when the CID had not been recorded before.\<close>

definition guard_record :: "'c::linorder \<Rightarrow> expiry \<Rightarrow> 'c replay_guard \<Rightarrow> bool \<times> 'c replay_guard" where
  "guard_record cid expiry g = (bt_get g cid = None, bt_insert cid expiry g)"

definition guard_prune_expired :: "timestamp \<Rightarrow> 32 word \<Rightarrow> 'c replay_guard \<Rightarrow> 'c replay_guard" where
  "guard_prune_expired now skew g = bt_retain (\<lambda>_ exp. \<not> is_past exp now skew) g"

section \<open>\<open>MemoryRevocationStore\<close>\<close>

text \<open>A revocation that passed \<open>check_revocation\<close> (\<open>validate/revocation.rs\<close>).\<close>

record 'c accepted_revocation =
  ar_target :: 'c
  ar_revoker :: did
  ar_authority :: did
  ar_target_expiry :: expiry
  ar_delegated :: bool

record recorded =
  rec_everywhere :: bool
  rec_by :: "did list"
  rec_target_expiry :: "expiry option"

definition recorded_default :: recorded where
  "recorded_default = \<lparr>rec_everywhere = False, rec_by = [], rec_target_expiry = None\<rparr>"

type_synonym 'c revocation_store = "('c \<times> recorded) list"

text \<open>\<open>self.revoked.entry(cid).or_default()\<close>.\<close>

definition entry_or_default :: "'c \<Rightarrow> 'c revocation_store \<Rightarrow> recorded" where
  "entry_or_default cid s = (case bt_get s cid of Some r \<Rightarrow> r | None \<Rightarrow> recorded_default)"

definition revocation_record ::
  "'c::linorder accepted_revocation \<Rightarrow> 'c revocation_store \<Rightarrow> 'c revocation_store" where
  "revocation_record accepted s =
     (let entry = entry_or_default (ar_target accepted) s;
          entry = entry\<lparr>rec_target_expiry := Some (ar_target_expiry accepted)\<rparr>;
          entry = (if \<not> list_ex (\<lambda>d. same_principal d (ar_authority accepted)) (rec_by entry)
                   then entry\<lparr>rec_by := rec_by entry @ [ar_authority accepted]\<rparr> else entry)
      in bt_insert (ar_target accepted) entry s)"

definition revoke :: "'c::linorder \<Rightarrow> 'c revocation_store \<Rightarrow> 'c revocation_store" where
  "revoke cid s = bt_insert cid ((entry_or_default cid s)\<lparr>rec_everywhere := True\<rparr>) s"

definition revocation_prune_expired ::
  "timestamp \<Rightarrow> 32 word \<Rightarrow> 'c revocation_store \<Rightarrow> 'c revocation_store" where
  "revocation_prune_expired now skew s =
     bt_retain (\<lambda>_ r. rec_everywhere r
       \<or> \<not> (case rec_target_expiry r of Some e \<Rightarrow> is_past e now skew | None \<Rightarrow> False)) s"

definition is_revoked :: "'c revocation_store \<Rightarrow> 'c \<Rightarrow> did list \<Rightarrow> bool" where
  "is_revoked s cid issuers =
     (case bt_get s cid of
        Some r \<Rightarrow> rec_everywhere r
          \<or> list_ex (\<lambda>d. list_ex (\<lambda>issuer. same_principal issuer d) issuers) (rec_by r)
      | None \<Rightarrow> False)"

section \<open>The interfaces\<close>

text \<open>
  \<open>ProofStore\<close>, over a state that delegations are put into: what is held is found under its own
  CID, and nothing else is.
\<close>

locale proof_store =
  fixes get :: "'m \<Rightarrow> 'c \<Rightarrow> 'd option"
    and put :: "'d \<Rightarrow> 'm \<Rightarrow> 'm"
    and cid :: "'d \<Rightarrow> 'c"
    and ok :: "'m \<Rightarrow> bool"
  assumes get_cid: "ok m \<Longrightarrow> get m c = Some d \<Longrightarrow> cid d = c"
    and get_put: "ok m \<Longrightarrow> get (put d m) c = (if c = cid d then Some d else get m c)"
    and ok_put: "ok m \<Longrightarrow> ok (put d m)"
begin

text \<open>The proofs of an invocation, all found, are the chain whose CIDs it names.\<close>

lemma lookups_cids: "ok m \<Longrightarrow> list_all2 (\<lambda>c d. get m c = Some d) cs ds \<Longrightarrow> map cid ds = cs"
  by (auto simp: list_all2_conv_all_nth list_eq_iff_nth_eq get_cid)

end

text \<open>
  \<open>ReplayGuard\<close>: \<open>seen\<close> is what the guard remembers. A CID is fresh exactly when it is not among
  them, and recording adds it and forgets nothing.
\<close>

locale replay_guard =
  fixes rec :: "'c \<Rightarrow> expiry \<Rightarrow> 'g \<Rightarrow> bool \<times> 'g"
    and seen :: "'g \<Rightarrow> 'c set"
  assumes rec_fresh: "fst (rec c e g) \<longleftrightarrow> c \<notin> seen g"
    and rec_seen: "seen (snd (rec c e g)) = insert c (seen g)"
begin

text \<open>Recording a whole list, and which of its CIDs were let through.\<close>

fun rec_all :: "('c \<times> expiry) list \<Rightarrow> 'g \<Rightarrow> 'c list \<times> 'g" where
  "rec_all [] g = ([], g)"
| "rec_all ((c, e) # ces) g =
     (let (fresh, g) = rec c e g; (admitted, g) = rec_all ces g
      in (if fresh then c # admitted else admitted, g))"

lemma rec_all_admitted: "distinct (fst (rec_all ces g)) \<and> set (fst (rec_all ces g)) = fst ` set ces - seen g"
proof (induction ces g rule: rec_all.induct)
  case (2 c e ces g)
  obtain fresh g1 where r: "rec c e g = (fresh, g1)" by (cases "rec c e g")
  with rec_fresh [of c e g] rec_seen [of c e g]
  have f: "fresh \<longleftrightarrow> c \<notin> seen g" "seen g1 = insert c (seen g)" by simp_all
  obtain adm g2 where a: "rec_all ces g1 = (adm, g2)" by (cases "rec_all ces g1")
  from "2.IH" [OF refl, of fresh g1] r a have "distinct adm" "set adm = fst ` set ces - seen g1" by simp_all
  with f r a show ?case by (auto simp: Let_def)
qed simp

end

text \<open>
  \<open>RevocationStore\<close>: a question about a CID and the issuers of a chain, over a state that
  revocations are recorded in and never taken out of.
\<close>

locale revocation_store =
  fixes revoked :: "'r \<Rightarrow> 'c \<Rightarrow> did list \<Rightarrow> bool"
    and add :: "'c accepted_revocation \<Rightarrow> 'r \<Rightarrow> 'r"
    and add_everywhere :: "'c \<Rightarrow> 'r \<Rightarrow> 'r"
  assumes revoked_add: "revoked (add a r) c is \<longleftrightarrow>
      revoked r c is \<or> c = ar_target a \<and> (\<exists>i \<in> set is. same_principal i (ar_authority a))"
    and revoked_everywhere: "revoked (add_everywhere c' r) c is \<longleftrightarrow> revoked r c is \<or> c = c'"
begin

lemma revoked_mono: "revoked r c is \<Longrightarrow> revoked (add a r) c is"
  by (simp add: revoked_add)

lemma add_commute: "revoked (add a (add b r)) c is \<longleftrightarrow> revoked (add b (add a r)) c is"
  by (auto simp: revoked_add)

lemma revoked_add_all:
  "revoked (fold add as r) c is \<longleftrightarrow>
    revoked r c is \<or> (\<exists>a \<in> set as. c = ar_target a \<and> (\<exists>i \<in> set is. same_principal i (ar_authority a)))"
  by (induction as arbitrary: r) (auto simp: revoked_add)

end

section \<open>The in-memory stores provide them\<close>

text \<open>A \<open>MemoryStore\<close> holds each delegation under its own CID.\<close>

definition store_ok :: "'c::linorder memory_store \<Rightarrow> bool" where
  "store_ok s \<longleftrightarrow> bt_wf s \<and> (\<forall>c d. bt_get s c = Some d \<longrightarrow> d_cid d = c)"

interpretation memory_store: proof_store store_get "\<lambda>d s. snd (store_insert d s)" d_cid store_ok
  by unfold_locales (auto simp: store_get_def store_insert_def store_ok_def split: if_splits)

definition guard_seen :: "'c replay_guard \<Rightarrow> 'c set" where
  "guard_seen g = {c. bt_get g c \<noteq> None}"

interpretation memory_guard: replay_guard guard_record guard_seen
  by unfold_locales (auto simp: guard_record_def guard_seen_def)

lemma is_revoked_iff:
  "is_revoked s c is \<longleftrightarrow> (let r = entry_or_default c s in
     rec_everywhere r \<or> (\<exists>i \<in> set is. \<exists>d \<in> set (rec_by r). same_principal i d))"
  by (auto simp: is_revoked_def entry_or_default_def recorded_default_def list_ex_iff Let_def split: option.split)

lemma entry_record:
  "entry_or_default c (revocation_record a s) =
     (if c = ar_target a then
        (let entry = (entry_or_default c s)\<lparr>rec_target_expiry := Some (ar_target_expiry a)\<rparr>
         in if \<not> list_ex (\<lambda>d. same_principal d (ar_authority a)) (rec_by entry)
            then entry\<lparr>rec_by := rec_by entry @ [ar_authority a]\<rparr> else entry)
      else entry_or_default c s)"
  by (simp add: revocation_record_def entry_or_default_def Let_def)

lemma entry_revoke:
  "entry_or_default c (revoke c' s) =
     (if c = c' then (entry_or_default c s)\<lparr>rec_everywhere := True\<rparr> else entry_or_default c s)"
  by (simp add: revoke_def entry_or_default_def)

interpretation memory_revocations: revocation_store is_revoked revocation_record revoke
proof
  fix a :: "'c::linorder accepted_revocation" and r c "is"
  show "is_revoked (revocation_record a r) c is \<longleftrightarrow>
      is_revoked r c is \<or> c = ar_target a \<and> (\<exists>i \<in> set is. same_principal i (ar_authority a))"
    by (auto simp: is_revoked_iff entry_record Let_def list_ex_iff same_principal_def) metis+
qed (auto simp: is_revoked_iff entry_revoke Let_def)

end
