(* ===== verification/Validate.thy ===== *)
theory Validate
  imports Stores
begin

text \<open>
  \<open>validate.rs\<close>: execution time validation of an invocation against its proof chain.
\<close>

datatype hop = HopProof nat | HopInvocation

datatype 'c validation_error =
    EmptyChain
  | MissingProof 'c
  | TooManyProofs nat nat
  | RootNotSubject did did
  | PowerlineAtRoot
  | SubjectMismatch hop
  | PrincipalMismatch hop did did
  | CommandNotCovered hop command command
  | HopNotYetValid hop timestamp
  | HopExpired hop timestamp
  | Unresolvable hop resolve_error
  | BadSignature hop
  | Revoked hop 'c
  | PolicyRejected hop nat
  | WrongExecutor did did
  | Replay 'c
  | Token hop error

text \<open>\<open>Proof\<close>: the outcome of a successful validation.\<close>

record 'c validated =
  v_chain :: "'c delegation list"
  v_subject :: did
  v_invocation :: 'c

text \<open>
  The validator. The trait objects it borrows are functions: the store and the revocation store
  answer questions, the replay guard is a state with its \<open>record\<close> operation.
\<close>

record ('c, 'g) validator =
  vd_store :: "'c \<Rightarrow> 'c delegation option"
  vd_resolver :: resolver
  vd_now :: timestamp
  vd_skew :: "32 word"
  vd_executor :: "did option"
  vd_replay :: "(('c \<Rightarrow> expiry \<Rightarrow> 'g \<Rightarrow> bool \<times> 'g) \<times> 'g) option"
  vd_max_proofs :: "nat option"
  vd_revocations :: "('c \<Rightarrow> did list \<Rightarrow> bool) option"

definition DEFAULT_SKEW :: "32 word" where "DEFAULT_SKEW = 60"

definition validator_new ::
  "'c cid_lib \<Rightarrow> 's crypto_lib \<Rightarrow> ('c \<Rightarrow> 'c delegation option) \<Rightarrow> timestamp \<Rightarrow> ('c, 'g) validator" where
  "validator_new L K store now =
     \<lparr>vd_store = store, vd_resolver = key_resolver L K, vd_now = now, vd_skew = DEFAULT_SKEW,
      vd_executor = None, vd_replay = None, vd_max_proofs = None, vd_revocations = None\<rparr>"

definition with_resolver :: "resolver \<Rightarrow> ('c, 'g) validator \<Rightarrow> ('c, 'g) validator" where
  "with_resolver r v = v\<lparr>vd_resolver := r\<rparr>"

definition with_skew :: "32 word \<Rightarrow> ('c, 'g) validator \<Rightarrow> ('c, 'g) validator" where
  "with_skew seconds v = v\<lparr>vd_skew := seconds\<rparr>"

definition with_executor :: "did \<Rightarrow> ('c, 'g) validator \<Rightarrow> ('c, 'g) validator" where
  "with_executor d v = v\<lparr>vd_executor := Some d\<rparr>"

definition with_replay_guard ::
  "('c \<Rightarrow> expiry \<Rightarrow> 'g \<Rightarrow> bool \<times> 'g) \<Rightarrow> 'g \<Rightarrow> ('c, 'g) validator \<Rightarrow> ('c, 'g) validator" where
  "with_replay_guard record' g v = v\<lparr>vd_replay := Some (record', g)\<rparr>"

definition with_max_proofs :: "nat \<Rightarrow> ('c, 'g) validator \<Rightarrow> ('c, 'g) validator" where
  "with_max_proofs n v = v\<lparr>vd_max_proofs := Some n\<rparr>"

definition with_revocations :: "('c \<Rightarrow> did list \<Rightarrow> bool) \<Rightarrow> ('c, 'g) validator \<Rightarrow> ('c, 'g) validator" where
  "with_revocations r v = v\<lparr>vd_revocations := Some r\<rparr>"

section \<open>The checks\<close>

definition time_error :: "hop \<Rightarrow> error \<Rightarrow> 'c validation_error" where
  "time_error hop e =
     (case e of
        NotYetValid not_before \<Rightarrow> HopNotYetValid hop not_before
      | Expired at \<Rightarrow> HopExpired hop at
      | source \<Rightarrow> Token hop source)"

definition signature_error :: "hop \<Rightarrow> error \<Rightarrow> 'c validation_error" where
  "signature_error hop e =
     (case e of
        EResolve source \<Rightarrow> Unresolvable hop source
      | ECrypto _ \<Rightarrow> BadSignature hop
      | source \<Rightarrow> Token hop source)"

definition check_subject :: "did \<Rightarrow> nat \<Rightarrow> 'c delegation \<Rightarrow> 'c validation_error + unit" where
  "check_subject subject i d =
     (case d_subject d of
        SubjectDid x \<Rightarrow> if \<not> same_principal x subject then Err (SubjectMismatch (HopProof i)) else Ok ()
      | Powerline \<Rightarrow> Ok ())"

text \<open>The issuer and command of the token after the \<open>i\<close>-th.\<close>

definition next_token :: "'c delegation list \<Rightarrow> (did \<times> command) option \<Rightarrow> nat \<Rightarrow> (did \<times> command) option" where
  "next_token chain final i =
     (case nth_opt chain (i + 1) of Some d \<Rightarrow> Some (d_issuer d, d_command d) | None \<Rightarrow> final)"

definition check_link ::
  "'c delegation list \<Rightarrow> (did \<times> command) option \<Rightarrow> nat \<Rightarrow> 'c delegation \<Rightarrow> 'c validation_error + unit" where
  "check_link chain final i d =
     (case next_token chain final i of
        None \<Rightarrow> Ok ()
      | Some (next_issuer, next_command) \<Rightarrow>
          if \<not> same_principal (d_audience d) next_issuer
          then Err (PrincipalMismatch (HopProof i) (d_audience d) next_issuer)
          else if \<not> covers (d_command d) next_command
          then Err (CommandNotCovered (HopProof i) (d_command d) next_command)
          else Ok ())"

definition check_structure ::
  "'c delegation list \<Rightarrow> did \<Rightarrow> (did \<times> command) option \<Rightarrow> 'c validation_error + unit" where
  "check_structure chain subject final =
     (case chain of
        [] \<Rightarrow> Err EmptyChain
      | first # _ \<Rightarrow>
          if \<not> same_principal (d_issuer first) subject
          then Err (RootNotSubject (d_issuer first) subject)
          else if d_subject first = Powerline then Err PowerlineAtRoot
          else
            res_bind (check_all (check_subject subject) chain) (\<lambda>_.
            check_all (check_link chain final) chain))"

definition verify_chain ::
  "'s crypto_lib \<Rightarrow> ('c, 'g) validator \<Rightarrow> 'c delegation list \<Rightarrow> 'c validation_error + unit" where
  "verify_chain K v chain =
     check_all (\<lambda>i d. map_err (signature_error (HopProof i)) (delegation_verify K (vd_resolver v) d)) chain"

definition check_revocations ::
  "('c, 'g) validator \<Rightarrow> 'c delegation list \<Rightarrow> 'c delegation list \<Rightarrow> 'c validation_error + unit" where
  "check_revocations v hops chain =
     (case vd_revocations v of
        None \<Rightarrow> Ok ()
      | Some revocations \<Rightarrow>
          let issuers = map (\<lambda>d. d_issuer d) chain in
          check_all (\<lambda>i d. if revocations (d_cid d) issuers then Err (Revoked (HopProof i) (d_cid d)) else Ok ()) hops)"

definition check_times :: "('c, 'g) validator \<Rightarrow> 'c delegation list \<Rightarrow> 'c validation_error + unit" where
  "check_times v chain =
     check_all (\<lambda>i d. map_err (time_error (HopProof i)) (delegation_check_time d (vd_now v) (vd_skew v))) chain"

definition check_policies :: "(str \<times> 'c ipld) list \<Rightarrow> 'c delegation list \<Rightarrow> 'c validation_error + unit" where
  "check_policies args chain =
     check_all (\<lambda>i d. map_err (PolicyRejected (HopProof i)) (policy_check (d_policy d) (IMap args))) chain"

definition check_limit :: "('c, 'g) validator \<Rightarrow> nat \<Rightarrow> 'c validation_error + unit" where
  "check_limit v n =
     (case vd_max_proofs v of
        Some max' \<Rightarrow> if max' < n then Err (TooManyProofs n max') else Ok ()
      | None \<Rightarrow> Ok ())"

definition check_executor :: "('c, 'g) validator \<Rightarrow> 'c invocation \<Rightarrow> 'c validation_error + unit" where
  "check_executor v tok =
     (case vd_executor v of
        Some me \<Rightarrow>
          let target = executor (i_payload tok) in
          if \<not> same_principal target me then Err (WrongExecutor me target) else Ok ()
      | None \<Rightarrow> Ok ())"

section \<open>The pipeline\<close>

text \<open>Checks 0 to 11, which look at the validator but do not change it.\<close>

definition validate_checks ::
  "'s crypto_lib \<Rightarrow> ('c, 'g) validator \<Rightarrow> 'c invocation \<Rightarrow> 'c validation_error + 'c delegation list" where
  "validate_checks K v tok =
     res_bind (check_limit v (length (i_proofs tok))) (\<lambda>_.
     res_bind (res_map (\<lambda>cid. ok_or (MissingProof cid) (vd_store v cid)) (i_proofs tok)) (\<lambda>chain.
     res_bind (check_structure chain (i_subject tok) (Some (i_issuer tok, i_command tok))) (\<lambda>_.
     res_bind (check_times v chain) (\<lambda>_.
     res_bind (map_err (time_error HopInvocation) (invocation_check_time tok (vd_now v) (vd_skew v))) (\<lambda>_.
     res_bind (verify_chain K v chain) (\<lambda>_.
     res_bind (map_err (signature_error HopInvocation) (invocation_verify K (vd_resolver v) tok)) (\<lambda>_.
     res_bind (check_revocations v chain chain) (\<lambda>_.
     res_bind (check_policies (i_args tok) chain) (\<lambda>_.
     res_bind (check_executor v tok) (\<lambda>_.
     Ok chain))))))))))"

text \<open>\<open>validate\<close>: check 12 runs last, so that a rejected invocation is never recorded.\<close>

definition validate ::
  "'s crypto_lib \<Rightarrow> ('c, 'g) validator \<Rightarrow> 'c invocation
    \<Rightarrow> ('c validation_error + 'c validated) \<times> ('c, 'g) validator" where
  "validate K v tok =
     (case validate_checks K v tok of
        Inl e \<Rightarrow> (Err e, v)
      | Inr chain \<Rightarrow>
          let passed = \<lparr>v_chain = chain, v_subject = i_subject tok, v_invocation = i_cid tok\<rparr> in
          (case vd_replay v of
             None \<Rightarrow> (Ok passed, v)
           | Some (record', g) \<Rightarrow>
               let (fresh, g') = record' (i_cid tok) (i_expiration tok) g;
                   v' = v\<lparr>vd_replay := Some (record', g')\<rparr>
               in if \<not> fresh then (Err (Replay (i_cid tok)), v') else (Ok passed, v')))"

end
