(* ===== verification/Validate_Laws.thy ===== *)
theory Validate_Laws
  imports Validate Policy_Laws
begin

text \<open>
  What validation promises: the structural checks are exactly the inductive notion of delegated
  authority, an invocation passes exactly when the documented rules hold of it, errors point at the
  first offending hop, and the replay guard is touched last.
\<close>

section \<open>Delegated authority\<close>

text \<open>
  The reference definition: authority over \<open>subject\<close> starts with a delegation that the subject
  issued about itself, and is handed on by whoever holds it, narrowing the command; a powerline hands
  on whatever subject it is used for.
\<close>

definition aligned :: "did \<Rightarrow> 'c delegation \<Rightarrow> bool" where
  "aligned subject d \<longleftrightarrow> (case d_subject d of SubjectDid x \<Rightarrow> same_principal x subject | Powerline \<Rightarrow> True)"

definition grants :: "'c delegation \<Rightarrow> did \<Rightarrow> command \<Rightarrow> bool" where
  "grants d p c \<longleftrightarrow> same_principal (d_audience d) p \<and> covers (d_command d) c"

inductive authority :: "did \<Rightarrow> 'c delegation list \<Rightarrow> did \<Rightarrow> command \<Rightarrow> bool" for subject where
  Root: "same_principal (d_issuer d) subject \<Longrightarrow> d_subject d \<noteq> Powerline \<Longrightarrow> aligned subject d \<Longrightarrow>
    grants d p c \<Longrightarrow> authority subject [d] p c"
| Hop: "authority subject ds (d_issuer d) (d_command d) \<Longrightarrow> aligned subject d \<Longrightarrow> grants d p c \<Longrightarrow>
    authority subject (ds @ [d]) p c"

inductive_cases authority_cases: "authority subject ds p c"

section \<open>The structural checks\<close>

lemma check_subject_Ok [simp]: "check_subject subject i d = Ok u \<longleftrightarrow> aligned subject d"
  by (auto simp: check_subject_def aligned_def split: subject.split)

definition link_ok :: "'c delegation \<Rightarrow> (did \<times> command) option \<Rightarrow> bool" where
  "link_ok d next \<longleftrightarrow> (case next of None \<Rightarrow> True | Some (p, c) \<Rightarrow> grants d p c)"

lemma check_link_Ok [simp]: "check_link chain final i d = Ok u \<longleftrightarrow> link_ok d (next_token chain final i)"
  by (auto simp: check_link_def link_ok_def grants_def split: option.split)

definition root_ok :: "did \<Rightarrow> 'c delegation \<Rightarrow> bool" where
  "root_ok subject d \<longleftrightarrow> same_principal (d_issuer d) subject \<and> d_subject d \<noteq> Powerline"

lemma check_structure_Ok:
  "check_structure chain subject final = Ok u \<longleftrightarrow>
    chain \<noteq> [] \<and> root_ok subject (hd chain) \<and> (\<forall>d \<in> set chain. aligned subject d)
      \<and> (\<forall>i < length chain. link_ok (chain ! i) (next_token chain final i))"
proof (cases "chain = []")
  case False
  then have "check_structure chain subject final =
      (if \<not> same_principal (d_issuer (hd chain)) subject then Err (RootNotSubject (d_issuer (hd chain)) subject)
       else if d_subject (hd chain) = Powerline then Err PowerlineAtRoot
       else res_bind (check_all (check_subject subject) chain) (\<lambda>_. check_all (check_link chain final) chain))"
    by (cases chain) (simp_all add: check_structure_def)
  with False show ?thesis
    by (simp add: root_ok_def res_simps check_from_Ok all_set_conv_all_nth conj_assoc)
qed (simp add: check_structure_def)

lemma next_token_snoc:
  "i < length ds \<Longrightarrow> next_token (ds @ [d]) final i = next_token ds (Some (d_issuer d, d_command d)) i"
  "next_token (ds @ [d]) final (length ds) = final"
  by (auto simp: next_token_def nth_opt_def nth_append)

lemma check_structure_snoc:
  "check_structure (ds @ [d]) subject final = Ok u \<longleftrightarrow>
    aligned subject d \<and> link_ok d final \<and>
    (if ds = [] then root_ok subject d
     else check_structure ds subject (Some (d_issuer d, d_command d)) = Ok ())"
  by (auto simp: check_structure_Ok All_less_Suc nth_append next_token_snoc)

lemma check_structure_authority:
  "check_structure chain subject (Some (p, c)) = Ok u \<longleftrightarrow> authority subject chain p c"
proof (induction chain arbitrary: p c u rule: rev_induct)
  case Nil
  then show ?case by (auto simp: check_structure_def elim: authority_cases)
next
  case (snoc d ds)
  have "authority subject (ds @ [d]) p c \<longleftrightarrow> aligned subject d \<and> grants d p c \<and>
      (if ds = [] then root_ok subject d else authority subject ds (d_issuer d) (d_command d))"
    (is "?l \<longleftrightarrow> ?r")
  proof
    show "?l \<Longrightarrow> ?r"
      by (erule authority_cases) (auto simp: root_ok_def elim: authority_cases)
    show "?r \<Longrightarrow> ?l"
      using Root [of d subject p c] Hop [of subject ds d p c] by (cases "ds = []") (auto simp: root_ok_def)
  qed
  then show ?case by (simp add: check_structure_snoc snoc.IH link_ok_def)
qed

section \<open>Attenuation\<close>

lemma authority_nonempty: "authority subject ds p c \<Longrightarrow> ds \<noteq> []"
  by (auto elim: authority_cases)

lemma authority_root: "authority subject ds p c \<Longrightarrow> root_ok subject (hd ds)"
  by (induction rule: authority.induct) (auto simp: root_ok_def dest: authority_nonempty)

lemma authority_aligned: "authority subject ds p c \<Longrightarrow> d \<in> set ds \<Longrightarrow> aligned subject d"
  by (induction rule: authority.induct) auto

text \<open>Each delegation of a chain is at least as wide as what it is used for at the end.\<close>

lemma authority_covers:
  "authority subject ds p c \<Longrightarrow> command_wf upper c \<Longrightarrow> list_all (\<lambda>d. command_wf upper (d_command d)) ds \<Longrightarrow>
    d \<in> set ds \<Longrightarrow> covers (d_command d) c"
proof (induction rule: authority.induct)
  case (Root d p c)
  then show ?case by (simp add: grants_def)
next
  case (Hop ds d' p c)
  then have last: "covers (d_command d') c" by (simp add: grants_def)
  show ?case
  proof (cases "d = d'")
    case False
    with Hop have "covers (d_command d) (d_command d')" "command_wf upper (d_command d)" "command_wf upper (d_command d')"
      by (auto simp: list_all_iff)
    with last Hop.prems(1) show ?thesis by (auto intro: command_order.le_trans)
  qed (simp add: last)
qed

text \<open>A chain of authority, cut anywhere, is a chain of authority to whoever issued the next hop.\<close>

lemma authority_prefix:
  "authority subject (ds @ d # es) p c \<Longrightarrow> ds \<noteq> [] \<Longrightarrow> authority subject ds (d_issuer d) (d_command d)"
proof (induction es arbitrary: p c rule: rev_induct)
  case Nil
  from Nil.prems(1) show ?case
    by (rule authority_cases) (use Nil.prems(2) in auto)
next
  case (snoc e es)
  from snoc.prems(1) have "authority subject (ds @ d # es) (d_issuer e) (d_command e)"
    by (rule authority_cases) (auto simp: append_eq_append_conv2 append_eq_Cons_conv)
  then show ?case using snoc by blast
qed

section \<open>The pipeline\<close>

text \<open>The rules an invocation has to satisfy, with no order among them.\<close>

definition acceptable ::
  "'s crypto_lib \<Rightarrow> ('c, 'g) validator \<Rightarrow> 'c invocation \<Rightarrow> 'c delegation list \<Rightarrow> bool" where
  "acceptable K v tok chain \<longleftrightarrow>
     (\<forall>n. vd_max_proofs v = Some n \<longrightarrow> length (i_proofs tok) \<le> n) \<and>
     list_all2 (\<lambda>c d. vd_store v c = Some d) (i_proofs tok) chain \<and>
     authority (i_subject tok) chain (i_issuer tok) (i_command tok) \<and>
     (\<forall>d \<in> set chain. delegation_check_time d (vd_now v) (vd_skew v) = Ok ()) \<and>
     invocation_check_time tok (vd_now v) (vd_skew v) = Ok () \<and>
     (\<forall>d \<in> set chain. delegation_verify K (vd_resolver v) d = Ok ()) \<and>
     invocation_verify K (vd_resolver v) tok = Ok () \<and>
     (\<forall>r. vd_revocations v = Some r \<longrightarrow> (\<forall>d \<in> set chain. \<not> r (d_cid d) (map (\<lambda>d. d_issuer d) chain))) \<and>
     (\<forall>d \<in> set chain. \<forall>s \<in> set (statements (d_policy d)). holds s (IMap (i_args tok))) \<and>
     (\<forall>me. vd_executor v = Some me \<longrightarrow> same_principal (executor (i_payload tok)) me)"

lemma check_times_Ok:
  "check_times v chain = Ok u \<longleftrightarrow> (\<forall>d \<in> set chain. delegation_check_time d (vd_now v) (vd_skew v) = Ok ())"
  by (simp add: check_times_def check_from_Ok all_set_conv_all_nth)

lemma verify_chain_Ok:
  "verify_chain K v chain = Ok u \<longleftrightarrow> (\<forall>d \<in> set chain. delegation_verify K (vd_resolver v) d = Ok ())"
  by (simp add: verify_chain_def check_from_Ok all_set_conv_all_nth)

lemma check_revocations_Ok:
  "check_revocations v hops chain = Ok u \<longleftrightarrow>
    (\<forall>r. vd_revocations v = Some r \<longrightarrow> (\<forall>d \<in> set hops. \<not> r (d_cid d) (map (\<lambda>d. d_issuer d) chain)))"
  by (auto simp: check_revocations_def check_from_Ok all_set_conv_all_nth split: option.split)

lemma check_policies_Ok:
  "check_policies args chain = Ok u \<longleftrightarrow>
    (\<forall>d \<in> set chain. \<forall>s \<in> set (statements (d_policy d)). holds s (IMap args))"
  by (simp add: check_policies_def check_from_Ok all_set_conv_all_nth [of chain] policy_check_Ok list_all_iff)

lemma check_limit_Ok: "check_limit v n = Ok u \<longleftrightarrow> (\<forall>k. vd_max_proofs v = Some k \<longrightarrow> n \<le> k)"
  by (auto simp: check_limit_def split: option.split)

lemma check_executor_Ok:
  "check_executor v tok = Ok u \<longleftrightarrow>
    (\<forall>me. vd_executor v = Some me \<longrightarrow> same_principal (executor (i_payload tok)) me)"
  by (auto simp: check_executor_def Let_def split: option.split)

lemmas stage_Ok = check_times_Ok verify_chain_Ok check_revocations_Ok check_policies_Ok
  check_structure_authority res_map_Ok check_limit_Ok check_executor_Ok

lemma validate_checks_Ok: "validate_checks K v tok = Ok chain \<longleftrightarrow> acceptable K v tok chain"
  unfolding validate_checks_def acceptable_def res_bind_Ok stage_Ok map_err_Ok ok_or_Ok by auto

text \<open>What the guard says about the invocation, and the validator after recording it.\<close>

definition fresh_for :: "('c, 'g) validator \<Rightarrow> 'c invocation \<Rightarrow> bool" where
  "fresh_for v tok \<longleftrightarrow> (case vd_replay v of None \<Rightarrow> True | Some (rec, g) \<Rightarrow> fst (rec (i_cid tok) (i_expiration tok) g))"

definition recorded_in :: "('c, 'g) validator \<Rightarrow> 'c invocation \<Rightarrow> ('c, 'g) validator" where
  "recorded_in v tok =
     (case vd_replay v of None \<Rightarrow> v
      | Some (rec, g) \<Rightarrow> v\<lparr>vd_replay := Some (rec, snd (rec (i_cid tok) (i_expiration tok) g))\<rparr>)"

lemma validate_eq:
  "validate K v tok =
     (case validate_checks K v tok of
        Inl e \<Rightarrow> (Err e, v)
      | Inr chain \<Rightarrow>
          (if fresh_for v tok then Ok \<lparr>v_chain = chain, v_subject = i_subject tok, v_invocation = i_cid tok\<rparr>
           else Err (Replay (i_cid tok)), recorded_in v tok))"
  by (auto simp: validate_def fresh_for_def recorded_in_def Let_def split: sum.split option.split prod.split)

section \<open>Errors\<close>

text \<open>What a policy rejection says, and what had passed before it.\<close>

lemma check_policies_Err:
  "check_policies args chain = Err e \<longleftrightarrow>
    (\<exists>i n. e = PolicyRejected (HopProof i) n \<and> i < length chain \<and>
      policy_check (d_policy (chain ! i)) (IMap args) = Err n \<and>
      (\<forall>j < i. policy_check (d_policy (chain ! j)) (IMap args) = Ok ()))"
  by (auto simp: check_policies_def check_from_Err map_err_Err)

text \<open>The errors of every other stage are of another kind.\<close>

lemma check_from_no_Err:
  "check_from k f xs = Err e \<Longrightarrow> (\<And>i x. f i x = Err e \<Longrightarrow> False) \<Longrightarrow> False"
  by (auto simp: check_from_Err)

definition is_policy_error :: "'c validation_error \<Rightarrow> bool" where
  "is_policy_error e \<longleftrightarrow> (\<exists>hop n. e = PolicyRejected hop n)"

lemma not_policy_error:
  "check_structure chain s final = Err e \<Longrightarrow> \<not> is_policy_error e"
  "check_times v chain = Err e \<Longrightarrow> \<not> is_policy_error e"
  "verify_chain K v chain = Err e \<Longrightarrow> \<not> is_policy_error e"
  "check_revocations v hops chain = Err e \<Longrightarrow> \<not> is_policy_error e"
  "res_map (\<lambda>cid. ok_or (MissingProof cid) (store cid)) cs = Err e \<Longrightarrow> \<not> is_policy_error e"
  "\<not> is_policy_error (time_error hop err)" "\<not> is_policy_error (signature_error hop err)"
proof -
  show "\<not> is_policy_error (time_error hop err)" "\<not> is_policy_error (signature_error hop err)" for hop err
    by (auto simp: is_policy_error_def time_error_def signature_error_def split: error.splits)
  note this [simp]
  show "check_times v chain = Err e \<Longrightarrow> \<not> is_policy_error e"
    "verify_chain K v chain = Err e \<Longrightarrow> \<not> is_policy_error e"
    by (auto simp: check_times_def verify_chain_def check_from_Err map_err_Err)
  show "check_revocations v hops chain = Err e \<Longrightarrow> \<not> is_policy_error e"
    by (auto simp: check_revocations_def is_policy_error_def Let_def check_from_Err split: option.splits if_splits)
  show "check_structure chain s final = Err e \<Longrightarrow> \<not> is_policy_error e"
    by (auto simp: check_structure_def check_subject_def check_link_def is_policy_error_def res_simps
        check_from_Err split: list.splits if_splits option.splits subject.splits)
  show "res_map (\<lambda>cid. ok_or (MissingProof cid) (store cid)) cs = Err e \<Longrightarrow> \<not> is_policy_error e"
    by (induction cs) (auto simp: is_policy_error_def res_simps)
qed

section \<open>The order of the rules\<close>

text \<open>The documented rules, in the documented order, of the proofs that the store holds.\<close>

definition rules :: "'s crypto_lib \<Rightarrow> ('c, 'g) validator \<Rightarrow> 'c invocation \<Rightarrow> bool list" where
  "rules K v tok =
     (let chain = List.map_filter (vd_store v) (i_proofs tok);
          final = Some (i_issuer tok, i_command tok) in
      [\<forall>n. vd_max_proofs v = Some n \<longrightarrow> length (i_proofs tok) \<le> n,
       \<forall>c \<in> set (i_proofs tok). vd_store v c \<noteq> None,
       chain \<noteq> [],
       same_principal (d_issuer (hd chain)) (i_subject tok),
       d_subject (hd chain) \<noteq> Powerline,
       \<forall>d \<in> set chain. aligned (i_subject tok) d,
       \<forall>i < length chain. link_ok (chain ! i) (next_token chain final i),
       (\<forall>d \<in> set chain. delegation_check_time d (vd_now v) (vd_skew v) = Ok ())
         \<and> invocation_check_time tok (vd_now v) (vd_skew v) = Ok (),
       (\<forall>d \<in> set chain. delegation_verify K (vd_resolver v) d = Ok ())
         \<and> invocation_verify K (vd_resolver v) tok = Ok (),
       \<forall>r. vd_revocations v = Some r \<longrightarrow> (\<forall>d \<in> set chain. \<not> r (d_cid d) (map (\<lambda>d. d_issuer d) chain)),
       \<forall>d \<in> set chain. \<forall>s \<in> set (statements (d_policy d)). holds s (IMap (i_args tok)),
       \<forall>me. vd_executor v = Some me \<longrightarrow> same_principal (executor (i_payload tok)) me,
       fresh_for v tok])"

text \<open>Which rule an error is about.\<close>

fun rule_of :: "'c validation_error \<Rightarrow> nat" where
  "rule_of (TooManyProofs _ _) = 0"
| "rule_of (MissingProof _) = 1"
| "rule_of EmptyChain = 2"
| "rule_of (RootNotSubject _ _) = 3"
| "rule_of PowerlineAtRoot = 4"
| "rule_of (SubjectMismatch _) = 5"
| "rule_of (PrincipalMismatch _ _ _) = 6"
| "rule_of (CommandNotCovered _ _ _) = 6"
| "rule_of (HopNotYetValid _ _) = 7"
| "rule_of (HopExpired _ _) = 7"
| "rule_of (Unresolvable _ _) = 8"
| "rule_of (BadSignature _) = 8"
| "rule_of (Token _ _) = 8"
| "rule_of (Revoked _ _) = 9"
| "rule_of (PolicyRejected _ _) = 10"
| "rule_of (WrongExecutor _ _) = 11"
| "rule_of (Replay _) = 12"

lemma found_all: "list_all2 (\<lambda>c d. store c = Some d) cs ds \<Longrightarrow>
    List.map_filter store cs = ds \<and> (\<forall>c \<in> set cs. store c \<noteq> None)"
  by (induction rule: list_all2_induct) (auto simp: map_filter_simps)

lemma missing_Err:
  "res_map (\<lambda>cid. ok_or (MissingProof cid) (store cid)) cs = Err e \<Longrightarrow>
    rule_of e = 1 \<and> \<not> (\<forall>c \<in> set cs. store c \<noteq> None)"
  by (induction cs) (auto simp: res_simps)

lemma check_subject_Err: "check_subject s i d = Err e \<Longrightarrow> rule_of e = 5"
  by (auto simp: check_subject_def split: subject.splits if_splits)

lemma check_link_Err: "check_link chain final i d = Err e \<Longrightarrow> rule_of e = 6"
  by (auto simp: check_link_def split: option.splits if_splits)

lemma Err_not_Ok: "m = Inl e \<Longrightarrow> m \<noteq> Inr u"
  by simp

lemma structure_Err:
  assumes "check_structure chain s final = Err e"
  shows "position (\<lambda>b. \<not> b) [chain \<noteq> [], same_principal (d_issuer (hd chain)) s, d_subject (hd chain) \<noteq> Powerline,
      \<forall>d \<in> set chain. aligned s d, \<forall>i < length chain. link_ok (chain ! i) (next_token chain final i)]
    = Some (rule_of e - 2) \<and> 2 \<le> rule_of e"
proof (cases chain)
  case Nil
  with assms show ?thesis by (auto simp: check_structure_def)
next
  case (Cons d ds)
  let ?subjects = "check_all (check_subject s) chain" and ?links = "check_all (check_link chain final) chain"
  have no: "\<not> (\<forall>i < length chain. link_ok (chain ! i) (next_token chain final i))" "rule_of e = 6"
    if "?links = Err e"
    using that Err_not_Ok [OF that] check_link_Err by (auto simp: check_from_Ok check_from_Err)
  have al: "\<not> (\<forall>d \<in> set chain. aligned s d)" "rule_of e = 5" if "?subjects = Err e"
    using that Err_not_Ok [OF that] check_subject_Err
    by (auto simp: check_from_Ok check_from_Err all_set_conv_all_nth)
  have ok: "\<forall>d \<in> set chain. aligned s d" if "?subjects = Ok u" for u
    using that by (simp add: check_from_Ok all_set_conv_all_nth)
  consider "\<not> same_principal (d_issuer d) s" "rule_of e = 3"
    | "same_principal (d_issuer d) s" "d_subject d = Powerline" "rule_of e = 4"
    | "same_principal (d_issuer d) s" "d_subject d \<noteq> Powerline" "?subjects = Err e"
    | "same_principal (d_issuer d) s" "d_subject d \<noteq> Powerline" "?subjects = Ok ()" "?links = Err e"
    using assms by (auto simp: Cons check_structure_def res_simps split: if_splits)
  then show ?thesis
  proof cases
    case 3
    then show ?thesis using al by (simp add: Cons)
  next
    case 4
    then show ?thesis using no ok by (simp add: Cons)
  qed (simp_all add: Cons)
qed

lemma time_error_rule: "check_window nbf x now skew = Err err \<Longrightarrow> rule_of (time_error hop err :: 'c validation_error) = 7"
  by (auto simp: check_window_def time_error_def split: option.splits expiry.splits if_splits)

lemma signature_error_rule [simp]: "rule_of (signature_error hop err) = 8"
  by (cases err) (simp_all add: signature_error_def)

lemma stage_Err:
  "check_times v chain = Err e \<Longrightarrow> rule_of e = 7"
  "map_err (time_error hop) (invocation_check_time tok now skew) = Err e \<Longrightarrow> rule_of e = 7"
  "verify_chain K v chain = Err e \<Longrightarrow> rule_of e = 8"
  "map_err (signature_error hop) m = Err e \<Longrightarrow> rule_of e = 8"
  "check_revocations v hops chain = Err e \<Longrightarrow> rule_of e = 9"
  "check_policies args chain = Err e \<Longrightarrow> rule_of e = 10"
proof -
  show "check_times v chain = Err e \<Longrightarrow> rule_of e = 7"
    by (auto simp: check_times_def check_from_Err map_err_Err delegation_check_time_def time_error_rule)
  show "map_err (time_error hop) (invocation_check_time tok now skew) = Err e \<Longrightarrow> rule_of e = 7"
    by (auto simp: map_err_Err invocation_check_time_def time_error_rule)
  show "verify_chain K v chain = Err e \<Longrightarrow> rule_of e = 8" "map_err (signature_error hop) m = Err e \<Longrightarrow> rule_of e = 8"
    by (auto simp: verify_chain_def check_from_Err map_err_Err)
  show "check_revocations v hops chain = Err e \<Longrightarrow> rule_of e = 9"
    by (auto simp: check_revocations_def Let_def check_from_Err split: option.splits if_splits)
  show "check_policies args chain = Err e \<Longrightarrow> rule_of e = 10"
    by (auto simp: check_policies_Err)
qed

lemma position_append:
  "position p (xs @ ys) = (case position p xs of Some i \<Rightarrow> Some i | None \<Rightarrow> map_option ((+) (length xs)) (position p ys))"
  by (cases "position p ys"; induction xs) (auto split: option.split)

abbreviation first_broken :: "bool list \<Rightarrow> nat option" where
  "first_broken \<equiv> position (\<lambda>b. \<not> b)"

definition structure_rules :: "did \<Rightarrow> (did \<times> command) option \<Rightarrow> 'c delegation list \<Rightarrow> bool list" where
  "structure_rules s final chain =
     [chain \<noteq> [], same_principal (d_issuer (hd chain)) s, d_subject (hd chain) \<noteq> Powerline,
      \<forall>d \<in> set chain. aligned s d, \<forall>i < length chain. link_ok (chain ! i) (next_token chain final i)]"

definition token_rules :: "'s crypto_lib \<Rightarrow> ('c, 'g) validator \<Rightarrow> 'c invocation \<Rightarrow> 'c delegation list \<Rightarrow> bool list" where
  "token_rules K v tok chain =
     [(\<forall>d \<in> set chain. delegation_check_time d (vd_now v) (vd_skew v) = Ok ())
         \<and> invocation_check_time tok (vd_now v) (vd_skew v) = Ok (),
       (\<forall>d \<in> set chain. delegation_verify K (vd_resolver v) d = Ok ())
         \<and> invocation_verify K (vd_resolver v) tok = Ok (),
       \<forall>r. vd_revocations v = Some r \<longrightarrow> (\<forall>d \<in> set chain. \<not> r (d_cid d) (map (\<lambda>d. d_issuer d) chain)),
       \<forall>d \<in> set chain. \<forall>s \<in> set (statements (d_policy d)). holds s (IMap (i_args tok)),
       \<forall>me. vd_executor v = Some me \<longrightarrow> same_principal (executor (i_payload tok)) me,
       fresh_for v tok]"

lemma first_broken_rules:
  assumes "list_all2 (\<lambda>c d. vd_store v c = Some d) (i_proofs tok) chain"
    and "\<forall>n. vd_max_proofs v = Some n \<longrightarrow> length (i_proofs tok) \<le> n"
  shows "first_broken (rules K v tok) =
    (case first_broken (structure_rules (i_subject tok) (Some (i_issuer tok, i_command tok)) chain) of
       Some i \<Rightarrow> Some (i + 2)
     | None \<Rightarrow> map_option ((+) 7) (first_broken (token_rules K v tok chain)))"
proof -
  have "rules K v tok = [True, True] @ structure_rules (i_subject tok) (Some (i_issuer tok, i_command tok)) chain
      @ token_rules K v tok chain"
    using found_all [OF assms(1)] assms(2) by (simp add: rules_def Let_def structure_rules_def token_rules_def)
  moreover have "length (structure_rules s f c) = 5" for s f and c :: "'a delegation list"
    by (simp add: structure_rules_def)
  ultimately show ?thesis
    by (simp only: position_append)
      (simp split: option.split add: option.map_comp comp_def)
qed

lemma structure_rules_Ok:
  "check_structure chain s final = Ok u \<longleftrightarrow> first_broken (structure_rules s final chain) = None"
  by (auto simp: check_structure_Ok structure_rules_def root_ok_def)

lemma structure_rules_Err:
  "check_structure chain s final = Err e \<Longrightarrow>
    first_broken (structure_rules s final chain) = Some (rule_of e - 2) \<and> 2 \<le> rule_of e"
  unfolding structure_rules_def by (rule structure_Err)

text \<open>The checks after the structural ones, as one result.\<close>

lemma res_bind_unit_Err:
  assumes "res_bind m f = Err e"
  obtains "m = Err e" | "m = Ok ()" "f () = Err e"
  using assms by (cases m) auto

definition check_tokens ::
  "'s crypto_lib \<Rightarrow> ('c, 'g) validator \<Rightarrow> 'c invocation \<Rightarrow> 'c delegation list \<Rightarrow> 'c validation_error + unit" where
  "check_tokens K v tok chain =
     res_bind (check_times v chain) (\<lambda>_.
     res_bind (map_err (time_error HopInvocation) (invocation_check_time tok (vd_now v) (vd_skew v))) (\<lambda>_.
     res_bind (verify_chain K v chain) (\<lambda>_.
     res_bind (map_err (signature_error HopInvocation) (invocation_verify K (vd_resolver v) tok)) (\<lambda>_.
     res_bind (check_revocations v chain chain) (\<lambda>_.
     res_bind (check_policies (i_args tok) chain) (\<lambda>_.
     check_executor v tok))))))"

lemma res_bind_assoc: "res_bind (res_bind m f) g = res_bind m (\<lambda>x. res_bind (f x) g)"
  by (cases m) auto

lemma validate_checks_eq:
  "validate_checks K v tok =
     res_bind (check_limit v (length (i_proofs tok))) (\<lambda>_.
     res_bind (res_map (\<lambda>cid. ok_or (MissingProof cid) (vd_store v cid)) (i_proofs tok)) (\<lambda>chain.
     res_bind (check_structure chain (i_subject tok) (Some (i_issuer tok, i_command tok))) (\<lambda>_.
     res_bind (check_tokens K v tok chain) (\<lambda>_. Ok chain))))"
  by (simp add: validate_checks_def check_tokens_def res_bind_assoc)

lemma stage_Err':
  "check_executor v tok = Err e \<Longrightarrow> rule_of e = 11"
  "check_limit v n = Err e \<Longrightarrow> rule_of e = 0"
  by (auto simp: check_executor_def check_limit_def Let_def split: option.splits if_splits)

lemma token_rules_Err:
  fixes e :: "'c validation_error"
  assumes "check_tokens K v tok chain = Err e"
  shows "\<exists>i. first_broken (token_rules K v tok chain) = Some i \<and> rule_of e = i + 7"
proof -
  define time sig :: "'c validation_error + unit" where "time = map_err (time_error HopInvocation) (invocation_check_time tok (vd_now v) (vd_skew v))"
    and "sig = map_err (signature_error HopInvocation) (invocation_verify K (vd_resolver v) tok)"
  note step = assms [unfolded check_tokens_def, folded time_def sig_def]
  have rules: "token_rules K v tok chain =
     [check_times v chain = Ok () \<and> time = Ok (), verify_chain K v chain = Ok () \<and> sig = Ok (),
      check_revocations v chain chain = Ok (), check_policies (i_args tok) chain = Ok (),
      check_executor v tok = Ok (), fresh_for v tok]"
    unfolding token_rules_def time_def sig_def map_err_Ok stage_Ok by (rule refl)
  have "time = Err e \<Longrightarrow> rule_of e = 7" "sig = Err e \<Longrightarrow> rule_of e = 8"
    unfolding time_def sig_def by (rule stage_Err, assumption)+
  note err = this stage_Err(1,3,5,6) stage_Err'
  from step show ?thesis
    by (elim res_bind_unit_Err) (auto simp: rules dest: err)
qed

lemma token_rules_Ok:
  "check_tokens K v tok chain = Ok u \<Longrightarrow>
    first_broken (token_rules K v tok chain) = (if fresh_for v tok then None else Some 5)"
  by (auto simp: check_tokens_def res_bind_Ok stage_Ok token_rules_def)

text \<open>The first rule that is broken, and no rule at all, decide the outcome.\<close>

lemma validate_first_broken:
  "first_broken (rules K v tok) =
     (case fst (validate K v tok) of Inr _ \<Rightarrow> None | Inl e \<Rightarrow> Some (rule_of e))"
proof (cases "check_limit v (length (i_proofs tok))")
  case (Inl e)
  then have "rule_of e = 0" "\<not> (\<forall>n. vd_max_proofs v = Some n \<longrightarrow> length (i_proofs tok) \<le> n)"
    using stage_Err'(2) [OF Inl] check_limit_Ok [of v "length (i_proofs tok)" "()"] by simp_all
  then show ?thesis using Inl by (simp add: validate_eq validate_checks_eq rules_def Let_def)
next
  case limit: (Inr u)
  then have l: "\<forall>n. vd_max_proofs v = Some n \<longrightarrow> length (i_proofs tok) \<le> n"
    by (simp add: check_limit_Ok)
  show ?thesis
  proof (cases "res_map (\<lambda>cid. ok_or (MissingProof cid) (vd_store v cid)) (i_proofs tok)")
    case (Inl e)
    with missing_Err [OF Inl] limit l show ?thesis
      by (simp add: validate_eq validate_checks_eq rules_def Let_def)
  next
    case found: (Inr chain)
    then have "list_all2 (\<lambda>c d. vd_store v c = Some d) (i_proofs tok) chain" by (simp add: res_map_Ok)
    note first = first_broken_rules [where K = K, OF this l]
    let ?s = "check_structure chain (i_subject tok) (Some (i_issuer tok, i_command tok))"
    show ?thesis
    proof (cases ?s)
      case (Inl e)
      with structure_rules_Err [OF Inl] limit found show ?thesis
        by (auto simp add: validate_eq validate_checks_eq first)
    next
      case struct: (Inr u)
      then have none: "first_broken (structure_rules (i_subject tok) (Some (i_issuer tok, i_command tok)) chain) = None"
        by (simp add: structure_rules_Ok)
      show ?thesis
      proof (cases "check_tokens K v tok chain")
        case (Inl e)
        with token_rules_Err [OF Inl] limit found struct none show ?thesis
          by (auto simp: validate_eq validate_checks_eq first)
      next
        case (Inr u)
        with token_rules_Ok [OF Inr] limit found struct none show ?thesis
          by (simp add: validate_eq validate_checks_eq first)
      qed
    qed
  qed
qed

lemma validate_Ok_acceptable: "fst (validate K v tok) = Ok pr \<Longrightarrow> acceptable K v tok (v_chain pr)"
  by (cases "validate_checks K v tok") (auto simp: validate_eq validate_checks_Ok split: if_split_asm)

end
