(* ===== verification/Revocation.thy ===== *)
theory Revocation
  imports Validate
begin

text \<open>
  \<open>validate/revocation.rs\<close>: reading and judging \<open>/ucan/revoke\<close> invocations.
\<close>

definition REVOKE_COMMAND :: str where "REVOKE_COMMAND = lit ''/ucan/revoke''"

datatype 'c revocation_error =
    NotARevocation command
  | MissingTarget
  | MalformedArgument str
  | UnknownArgument str
  | WrongTarget 'c
  | PathMismatch
  | RepeatedIssuer hop did
  | SubjectNotInChain did
  | NotAuthorized did
  | Invalid "'c validation_error"
  | Grant "'c validation_error"

record 'c revocation =
  rv_target :: 'c
  rv_path :: "'c list option"

definition links_in :: "'c ipld list \<Rightarrow> 'c revocation_error + 'c list" where
  "links_in vs =
     res_map (\<lambda>v. case v of ILink cid \<Rightarrow> Ok cid | _ \<Rightarrow> Err (MalformedArgument (lit ''path''))) vs"

text \<open>The loop over the arguments, with the target and path found so far.\<close>

fun read_args ::
  "'c option \<Rightarrow> 'c list option \<Rightarrow> (str \<times> 'c ipld) list \<Rightarrow> 'c revocation_error + ('c option \<times> 'c list option)" where
  "read_args target path [] = Ok (target, path)"
| "read_args target path ((name, v) # args) =
     (if name = lit ''revoke'' then
        (case v of
           ILink cid \<Rightarrow> read_args (Some cid) path args
         | _ \<Rightarrow> Err (MalformedArgument (lit ''revoke'')))
      else if name = lit ''path'' then
        (case v of
           IList links \<Rightarrow> res_bind (links_in links) (\<lambda>cids. read_args target (Some cids) args)
         | _ \<Rightarrow> Err (MalformedArgument (lit ''path'')))
      else Err (UnknownArgument name))"

definition revocation_read :: "'c invocation \<Rightarrow> 'c revocation_error + 'c revocation" where
  "revocation_read tok =
     (if cmd_str (i_command tok) \<noteq> REVOKE_COMMAND then Err (NotARevocation (i_command tok))
      else
        res_bind (read_args None None (i_args tok)) (\<lambda>(target, path).
        res_bind (ok_or MissingTarget target) (\<lambda>target.
        Ok \<lparr>rv_target = target, rv_path = path\<rparr>)))"

section \<open>Judging\<close>

definition check_names_chain ::
  "'c revocation \<Rightarrow> 'c delegation list \<Rightarrow> 'c revocation_error + 'c" where
  "check_names_chain r chain =
     (if chain = [] then Err (Invalid EmptyChain)
      else let found = d_cid (last chain) in
        if rv_target r \<noteq> found then Err (WrongTarget (rv_target r))
        else case rv_path r of
          Some path \<Rightarrow> if path \<noteq> map (\<lambda>d. d_cid d) chain then Err PathMismatch else Ok found
        | None \<Rightarrow> Ok found)"

definition check_no_issuer_repeats :: "'c delegation list \<Rightarrow> 'c revocation_error + unit" where
  "check_no_issuer_repeats chain =
     check_all (\<lambda>i d.
       if list_ex (\<lambda>earlier. same_principal (d_issuer earlier) (d_issuer d)) (take i chain)
       then Err (RepeatedIssuer (HopProof i) (d_issuer d)) else Ok ()) chain"

text \<open>
  The inner validator of a delegated right: the same store, resolver, clock, limit and revocations,
  with neither executor nor replay guard.
\<close>

definition check_grant ::
  "'c cid_lib \<Rightarrow> 's crypto_lib \<Rightarrow> ('c, 'g) validator \<Rightarrow> 'c invocation \<Rightarrow> 'c revocation_error + unit" where
  "check_grant L K v tok =
     (let inner = with_skew (vd_skew v) (with_resolver (vd_resolver v)
            (validator_new L K (vd_store v) (vd_now v))) :: ('c, 'g) validator;
          inner = inner\<lparr>vd_max_proofs := vd_max_proofs v, vd_revocations := vd_revocations v\<rparr>
      in map_err Grant (map_ok (\<lambda>_. ()) (fst (validate K inner tok))))"

definition check_standing ::
  "('c, 'g) validator \<Rightarrow> 'c delegation list \<Rightarrow> nat \<Rightarrow> 'c revocation_error + unit" where
  "check_standing v chain hop =
     (let above = (if hop \<le> length chain then take hop chain else []) in
      map_err Invalid
        (res_bind (check_times v above) (\<lambda>_. check_revocations v above chain)))"

definition issued_at :: "'c delegation list \<Rightarrow> did \<Rightarrow> nat option" where
  "issued_at chain d = position (\<lambda>x. same_principal (d_issuer x) d) chain"

definition check_revocation ::
  "'c cid_lib \<Rightarrow> 's crypto_lib \<Rightarrow> ('c, 'g) validator \<Rightarrow> did \<Rightarrow> 'c invocation \<Rightarrow> 'c delegation list
    \<Rightarrow> 'c revocation_error + 'c accepted_revocation" where
  "check_revocation L K v subject tok chain =
     res_bind (revocation_read tok) (\<lambda>revocation.
     res_bind (map_err Invalid (check_limit v (length chain))) (\<lambda>_.
     res_bind (map_err Invalid (check_structure chain subject None)) (\<lambda>_.
     res_bind (check_names_chain revocation chain) (\<lambda>target.
     let target_expiry = (if chain = [] then Never else d_expiration (last chain)) in
     res_bind (check_no_issuer_repeats chain) (\<lambda>_.
     res_bind (map_err (\<lambda>e. Invalid (signature_error HopInvocation e))
         (invocation_verify K (vd_resolver v) tok)) (\<lambda>_.
     res_bind (map_err (\<lambda>e. Invalid (time_error HopInvocation e))
         (invocation_check_time tok (vd_now v) (vd_skew v))) (\<lambda>_.
     res_bind (map_err Invalid (verify_chain K v chain)) (\<lambda>_.
     res_bind (ok_or (SubjectNotInChain (i_subject tok)) (issued_at chain (i_subject tok))) (\<lambda>source.
     res_bind (case issued_at chain (i_issuer tok) of
         Some hop \<Rightarrow> Ok (hop, i_issuer tok, False)
       | None \<Rightarrow>
           if i_proofs tok = [] then Err (NotAuthorized (i_issuer tok))
           else res_bind (check_grant L K v tok) (\<lambda>_. Ok (source, i_subject tok, True)))
       (\<lambda>(hop, authority, delegated).
     res_bind (check_standing v chain hop) (\<lambda>_.
     Ok \<lparr>ar_target = target, ar_revoker = i_issuer tok, ar_authority = authority,
         ar_target_expiry = target_expiry, ar_delegated = delegated\<rparr>)))))))))))"

end
