(* ===== verification/Validate_Properties.thy ===== *)
theory Validate_Properties
  imports Validate_Laws Revocation
begin

text \<open>
  The properties of the validator, and a small set of tokens on which they are evaluated: Alice
  delegates \<open>/data\<close> to Bob, Bob hands it to Carol through a powerline, and Carol invokes
  \<open>/data/read\<close>.
\<close>

section \<open>Sample tokens\<close>

definition alice :: did where "alice = Did (lit ''did:x:alice'')"
definition bob :: did where "bob = Did (lit ''did:x:bob'')"
definition carol :: did where "carol = Did (lit ''did:x:carol'')"

lemmas sample_names = alice_def bob_def carol_def

definition sample_envelope :: "token_kind \<Rightarrow> byte \<Rightarrow> byte list envelope" where
  "sample_envelope k n =
     \<lparr>env_bytes = [], env_cid = [n], env_header = header_new Ed25519,
      env_signature = \<lparr>sig_algorithm = Ed25519, sig_bytes = sample_sign Ed25519 (replicate 32 1) [n]\<rparr>,
      env_signed = SignedJson [n], env_kind = k\<rparr>"

definition sample_resolver :: resolver where
  "sample_resolver d = Ok (sample_key 1)"

definition sample_delegation :: "byte \<Rightarrow> did \<Rightarrow> did \<Rightarrow> subject \<Rightarrow> byte list policy \<Rightarrow> byte list delegation" where
  "sample_delegation n iss aud sub pol =
     \<lparr>d_envelope = sample_envelope Delegation n,
      d_payload = \<lparr>dp_issuer = iss, dp_audience = aud, dp_subject = sub,
        dp_command = Command (lit ''/data''), dp_policy = pol, dp_nonce = nonce_empty, dp_meta = [],
        dp_not_before = None, dp_expiration = At (Timestamp 200)\<rparr>\<rparr>"

definition from_alice :: "byte list delegation" where
  "from_alice = sample_delegation 1 alice bob (SubjectDid alice) (Policy [And [], Or []])"

definition from_bob :: "byte list delegation" where
  "from_bob = sample_delegation 2 bob carol Powerline (Policy [])"

definition to_carol :: "byte list delegation" where
  "to_carol = sample_delegation 5 alice carol (SubjectDid alice) (Policy [])"

definition sample_invocation :: "byte list list \<Rightarrow> byte list invocation" where
  "sample_invocation proofs =
     \<lparr>i_envelope = sample_envelope Invocation 3,
      i_payload = \<lparr>ip_issuer = carol, ip_subject = alice, ip_audience = None,
        ip_command = Command (lit ''/data/read''), ip_args = [], ip_proofs = proofs, ip_meta = [],
        ip_nonce = nonce_empty, ip_expiration = At (Timestamp 150), ip_issued_at = None,
        ip_cause = None\<rparr>\<rparr>"

definition sample_store :: "byte list memory_store" where
  "sample_store = snd (store_insert to_carol (snd (store_insert from_bob (snd (store_insert from_alice [])))))"

definition sample_validator :: "byte list replay_guard \<Rightarrow> (byte list, byte list replay_guard) validator" where
  "sample_validator g =
     with_replay_guard guard_record g (with_resolver sample_resolver
       (validator_new sample_lib sample_crypto (store_get sample_store) (Timestamp 100)))"

lemmas sample_token_defs = from_alice_def from_bob_def to_carol_def sample_delegation_def sample_invocation_def sample_envelope_def

lemma sample_verifies: "verify_envelope sample_crypto (sample_envelope k n) (sample_key 1) = Ok ()"
  by (simp add: verify_envelope_def sample_envelope_def sample_key_def header_new_def signed_bytes_def
      key_verify_def backend_verify_def ed25519_verify_def sample_crypto_def)

lemma sample_token_verifies:
  "delegation_verify sample_crypto sample_resolver from_alice = Ok ()"
  "delegation_verify sample_crypto sample_resolver from_bob = Ok ()"
  "delegation_verify sample_crypto sample_resolver to_carol = Ok ()"
  "invocation_verify sample_crypto sample_resolver (sample_invocation proofs) = Ok ()"
  using sample_verifies
  by (simp_all add: delegation_verify_def invocation_verify_def sample_resolver_def from_alice_def
      from_bob_def to_carol_def sample_delegation_def sample_invocation_def)

lemma sample_principals:
  "same_principal alice alice" "same_principal bob bob" "same_principal carol carol"
  "\<not> same_principal alice bob" "\<not> same_principal bob alice" "\<not> same_principal carol alice"
  "\<not> same_principal carol bob" "\<not> same_principal alice carol" "\<not> same_principal bob carol"
  by (simp_all add: same_principal_def base_def before_url_parts_def url_delimiter_def sample_names)

lemma sample_cids: "d_cid from_alice = [1]" "d_cid from_bob = [2]" "d_cid to_carol = [5]" "i_cid (sample_invocation proofs) = [3]"
  by (simp_all add: sample_token_defs)

lemma sample_store_get:
  "store_get sample_store [1] = Some from_alice" "store_get sample_store [2] = Some from_bob"
  "store_get sample_store [5] = Some to_carol" "store_get sample_store [9] = None"
  by (simp_all add: sample_store_def store_get_def store_insert_def sample_cids bt_get_Cons)

lemma sample_time:
  "delegation_check_time from_alice (Timestamp 100) 60 = Ok ()"
  "delegation_check_time from_bob (Timestamp 100) 60 = Ok ()"
  "delegation_check_time to_carol (Timestamp 100) 60 = Ok ()"
  "invocation_check_time (sample_invocation proofs) (Timestamp 100) 60 = Ok ()"
  by (simp_all add: delegation_check_time_def invocation_check_time_def check_window_def is_past_def
      sample_token_defs plus_seconds_def i64_saturating_add_def less_timestamp_def ts_bounds)

lemma sample_covers: "covers (Command (lit ''/data'')) (Command (lit ''/data''))"
    "covers (Command (lit ''/data'')) (Command (lit ''/data/read''))"
  by (simp_all add: covers_def is_root_def)

lemma sample_authority: "authority alice [from_alice, from_bob] carol (Command (lit ''/data/read''))"
proof -
  have "authority alice [from_alice] (d_issuer from_bob) (d_command from_bob)"
    by (rule Root) (simp_all add: sample_token_defs sample_principals aligned_def grants_def sample_covers del: lit_Cons)
  then have "authority alice ([from_alice] @ [from_bob]) carol (Command (lit ''/data/read''))"
    by (rule Hop) (simp_all add: sample_token_defs sample_principals aligned_def grants_def sample_covers del: lit_Cons)
  then show ?thesis by simp
qed

lemma sample_fields:
  "i_proofs (sample_invocation proofs) = proofs" "i_issuer (sample_invocation proofs) = carol"
  "i_subject (sample_invocation proofs) = alice" "i_command (sample_invocation proofs) = Command (lit ''/data/read'')"
  "statements (d_policy from_alice) = [And [], Or []]" "statements (d_policy from_bob) = []"
  "statements (d_policy to_carol) = []" "d_issuer from_alice = alice" "d_issuer from_bob = bob" "d_issuer to_carol = alice"
  by (simp_all add: sample_token_defs)

lemma sample_acceptable:
  "acceptable sample_crypto (sample_validator g) (sample_invocation [[1], [2]]) [from_alice, from_bob]"
  using sample_authority
  by (simp add: acceptable_def sample_validator_def with_replay_guard_def with_resolver_def validator_new_def
      DEFAULT_SKEW_def sample_store_get sample_token_verifies sample_time sample_fields del: lit_Cons)

lemma sample_direct_acceptable:
  "acceptable sample_crypto ((sample_validator g)\<lparr>vd_revocations := Some r\<rparr>) (sample_invocation [[5]]) [to_carol]
    \<longleftrightarrow> \<not> r [5] [alice]"
proof -
  have "authority alice [to_carol] carol (Command (lit ''/data/read''))"
    by (rule Root) (simp_all add: sample_token_defs sample_principals aligned_def grants_def sample_covers del: lit_Cons)
  then show ?thesis
    by (simp add: acceptable_def sample_validator_def with_replay_guard_def with_resolver_def validator_new_def
        DEFAULT_SKEW_def sample_store_get sample_token_verifies sample_time sample_fields sample_cids del: lit_Cons)
qed

section \<open>Properties\<close>

text \<open>
  C21. The structural checks of a chain are exactly delegated authority: they pass for an invoker and
  a command when, and only when, the chain starts at the subject and every hop was issued by whoever
  the hop before it named, for the same subject and within the command it was given.
\<close>

theorem chain_is_authority:
  "check_structure chain subject (Some (p, c)) = Ok () \<longleftrightarrow> authority subject chain p c"
  by (rule check_structure_authority)

text \<open>
  C22. \<open>validate\<close> accepts an invocation exactly when the documented rules hold of it and of the
  delegations its proofs name, and the replay guard has not seen it; the proof it returns is that
  chain.
\<close>

theorem validate_accepts:
  "fst (validate K v tok) = Ok pr \<longleftrightarrow>
    acceptable K v tok (v_chain pr) \<and> fresh_for v tok \<and> v_subject pr = i_subject tok \<and> v_invocation pr = i_cid tok"
  by (cases "validate_checks K v tok")
    (auto simp: validate_eq validate_checks_Ok [symmetric])


text \<open>
  C24. Authority only narrows along an accepted chain: its root was issued by the subject, every
  delegation in it is about that subject, covers the invoked command, verifies under the key its
  issuer resolves to, and has a policy that the arguments satisfy.
\<close>

theorem validate_attenuates:
  assumes "fst (validate K v tok) = Ok pr" "d \<in> set (v_chain pr)"
    and "command_wf upper (i_command tok)" "list_all (\<lambda>d. command_wf upper (d_command d)) (v_chain pr)"
  shows "same_principal (d_issuer (hd (v_chain pr))) (i_subject tok)
    \<and> aligned (i_subject tok) d
    \<and> covers (d_command d) (i_command tok)
    \<and> (\<exists>key. vd_resolver v (d_issuer d) = Ok key \<and> verify_envelope K (d_envelope d) key = Ok ())
    \<and> policy_check (d_policy d) (IMap (i_args tok)) = Ok ()"
proof -
  from assms(1) have acc: "acceptable K v tok (v_chain pr)"
    by (rule validate_Ok_acceptable)
  then have auth: "authority (i_subject tok) (v_chain pr) (i_issuer tok) (i_command tok)"
    by (simp add: acceptable_def)
  have "delegation_verify K (vd_resolver v) d = Ok ()" using acc assms(2) by (simp add: acceptable_def)
  then have "\<exists>key. vd_resolver v (d_issuer d) = Ok key \<and> verify_envelope K (d_envelope d) key = Ok ()"
    by (auto simp: delegation_verify_def res_simps)
  moreover have "policy_check (d_policy d) (IMap (i_args tok)) = Ok ()"
    using acc assms(2) by (simp add: acceptable_def policy_check_Ok list_all_iff)
  ultimately show ?thesis
    using authority_root [OF auth] authority_aligned [OF auth assms(2)] authority_covers [OF auth assms(3,4,2)]
    by (simp add: root_ok_def)
qed

lemma sample_commands_wf:
  "command_wf ascii_upper (Command (lit ''/data''))" "command_wf ascii_upper (Command (lit ''/data/read''))"
  by (simp_all add: command_wf_def command_parse_def ends_with_char_def ascii_upper_def char_class_defs)

definition sample_proof :: "byte list validated" where
  "sample_proof = \<lparr>v_chain = [from_alice, from_bob], v_subject = alice, v_invocation = [3]\<rparr>"

lemma sample_fresh: "fresh_for (sample_validator []) (sample_invocation proofs)"
  by (simp add: fresh_for_def sample_validator_def with_replay_guard_def guard_record_def)

lemma sample_validates:
  "fst (validate sample_crypto (sample_validator []) (sample_invocation [[1], [2]])) = Ok sample_proof"
proof -
  have "validate_checks sample_crypto (sample_validator []) (sample_invocation [[1], [2]]) = Ok [from_alice, from_bob]"
    by (simp only: validate_checks_Ok sample_acceptable)
  then show ?thesis
    by (simp add: validate_eq sample_fresh sample_proof_def sample_cids sample_fields)
qed

theorem validate_attenuates_witness:
  "same_principal (d_issuer from_alice) alice \<and> covers (d_command from_bob) (Command (lit ''/data/read''))"
  using validate_attenuates [OF sample_validates, of from_bob ascii_upper] sample_commands_wf
  by (simp add: sample_proof_def sample_token_defs del: lit_Cons)

text \<open>
  C25. A rejected invocation is never recorded: unless the rejection is the replay guard's own, the
  validator, and with it the guard, is as before; an accepted invocation is recorded.
\<close>

theorem validate_records_last:
  "snd (validate K v tok) =
     (case fst (validate K v tok) of
        Inr _ \<Rightarrow> recorded_in v tok
      | Inl e \<Rightarrow> if e = Replay (i_cid tok) then recorded_in v tok else v)"
proof (cases "validate_checks K v tok")
  case (Inl e)
  let ?v = "v\<lparr>vd_replay := None\<rparr>"
  have "validate_checks K ?v tok = Err e" using Inl
    by (simp add: validate_checks_def check_limit_def check_times_def verify_chain_def
        check_revocations_def check_executor_def)
  then have "first_broken (rules K ?v tok) = Some (rule_of e)"
    using validate_first_broken [of K ?v tok] by (simp add: validate_eq)
  moreover have "rules K ?v tok ! 12" by (simp add: rules_def Let_def fresh_for_def)
  ultimately have "e \<noteq> Replay c" for c by (auto simp: position_Some)
  with Inl show ?thesis by (simp add: validate_eq)
qed (simp add: validate_eq)

end
