(* ===== verification/Revocation_Laws.thy ===== *)
theory Revocation_Laws
  imports Validate_Properties
begin

text \<open>
  What judging a revocation promises: an accepted revocation was made by someone whose right to make
  it is shown by the chain, or was handed that right, and recording it stops exactly the chains its
  authority issued in.
\<close>

section \<open>Reading\<close>

lemma case_link_Ok [res_simps]:
  "(case v of ILink c \<Rightarrow> Ok c | _ \<Rightarrow> Err e) = Inr y \<longleftrightarrow> v = ILink y"
  by (cases v) auto

lemma links_in_Ok: "links_in vs = Ok cs \<longleftrightarrow> vs = map ILink cs"
proof -
  have "list_all2 (\<lambda>v c. v = ILink c) vs cs \<longleftrightarrow> vs = map ILink cs"
    by (auto simp: list_all2_conv_all_nth list_eq_iff_nth_eq)
  then show ?thesis by (simp add: links_in_def res_map_Ok case_link_Ok)
qed

text \<open>The arguments that are understood: \<open>revoke\<close>, a link, and perhaps \<open>path\<close>, a list of links.\<close>

definition revoke_args :: "'c \<Rightarrow> 'c list option \<Rightarrow> (str \<times> 'c ipld) list" where
  "revoke_args target path =
     (case path of Some cs \<Rightarrow> [(lit ''path'', IList (map ILink cs))] | None \<Rightarrow> [])
       @ [(lit ''revoke'', ILink target)]"

lemma read_args_keys: "read_args t p args = Ok r \<Longrightarrow> fst ` set args \<subseteq> {lit ''revoke'', lit ''path''}"
  by (induction t p args rule: read_args.induct)
    (auto simp: res_simps split: if_splits ipld.splits)

lemma path_before_revoke: "lit ''path'' < lit ''revoke''" "\<not> lit ''revoke'' < lit ''path''"
  by (simp_all add: ascii_less_iff)

text \<open>A map with at most these keys, in order.\<close>

lemma two_keys:
  assumes "bt_wf args" "fst ` set args \<subseteq> {lit ''revoke'', lit ''path''}"
  shows "args = [] \<or> (\<exists>v. args = [(lit ''revoke'', v)]) \<or> (\<exists>v. args = [(lit ''path'', v)])
    \<or> (\<exists>v w. args = [(lit ''path'', v), (lit ''revoke'', w)])"
proof -
  have one: "m = []" if "bt_wf ((lit ''revoke'', v) # m)" "fst ` set m \<subseteq> {lit ''revoke'', lit ''path''}" for m and v :: 'b
    using that path_before_revoke by (cases m) (auto simp: bt_wf_Cons simp del: lit_Cons)
  have two: "m = [] \<or> (\<exists>w. m = [(lit ''revoke'', w)])"
    if "bt_wf ((lit ''path'', v) # m)" "fst ` set m \<subseteq> {lit ''revoke'', lit ''path''}" for m and v :: 'b
  proof (cases m)
    case (Cons e m')
    then have "fst e = lit ''revoke''" using that path_before_revoke by (auto simp: bt_wf_Cons simp del: lit_Cons)
    then show ?thesis using one [of "snd e" m'] that Cons by (cases e) (auto simp: bt_wf_Cons simp del: lit_Cons)
  qed simp
  show ?thesis
  proof (cases args)
    case (Cons e m)
    obtain k v where "e = (k, v)" by (cases e)
    with assms Cons have "k = lit ''revoke'' \<or> k = lit ''path''" "fst ` set m \<subseteq> {lit ''revoke'', lit ''path''}"
      by auto
    with one [of v m] two [of v m] assms(1) Cons \<open>e = (k, v)\<close> show ?thesis by (auto simp del: lit_Cons)
  qed simp
qed

lemma revocation_read_Ok:
  assumes "bt_wf (i_args tok)"
  shows "revocation_read tok = Ok r \<longleftrightarrow>
    cmd_str (i_command tok) = REVOKE_COMMAND \<and> i_args tok = revoke_args (rv_target r) (rv_path r)"
proof
  assume "revocation_read tok = Ok r"
  then obtain t where c: "cmd_str (i_command tok) = REVOKE_COMMAND"
    "read_args None None (i_args tok) = Ok (Some t, rv_path r)" "t = rv_target r"
    by (auto simp: revocation_read_def res_simps)
  with two_keys [OF assms read_args_keys [OF c(2)]]
  show "cmd_str (i_command tok) = REVOKE_COMMAND \<and> i_args tok = revoke_args (rv_target r) (rv_path r)"
    by (cases "rv_path r") (auto simp: revoke_args_def res_simps links_in_Ok simp del: lit_Cons split: ipld.splits)
next
  assume r: "cmd_str (i_command tok) = REVOKE_COMMAND \<and> i_args tok = revoke_args (rv_target r) (rv_path r)"
  have "links_in (map ILink cs) = Ok cs" for cs :: "'a list" by (simp add: links_in_Ok)
  with r show "revocation_read tok = Ok r"
    by (cases r; cases "rv_path r") (auto simp: revocation_read_def revoke_args_def simp del: lit_Cons)
qed

section \<open>The checks\<close>

lemma check_names_chain_Ok:
  "check_names_chain r chain = Ok t \<longleftrightarrow>
    chain \<noteq> [] \<and> t = d_cid (last chain) \<and> rv_target r = t \<and> (\<forall>p. rv_path r = Some p \<longrightarrow> p = map (\<lambda>d. d_cid d) chain)"
  by (cases "rv_path r") (auto simp: check_names_chain_def Let_def)

lemma list_ex_take: "i \<le> length xs \<Longrightarrow> list_ex P (take i xs) \<longleftrightarrow> (\<exists>j < i. P (xs ! j))"
  by (auto simp: list_ex_length)

lemma check_no_issuer_repeats_Ok:
  "check_no_issuer_repeats chain = Ok u \<longleftrightarrow>
    (\<forall>i < length chain. \<forall>j < i. \<not> same_principal (d_issuer (chain ! j)) (d_issuer (chain ! i)))"
  by (auto simp: check_no_issuer_repeats_def check_from_Ok list_ex_take)

text \<open>The validator that judges a handed-on right.\<close>

definition grant_validator :: "('c, 'g) validator \<Rightarrow> ('c, 'g) validator" where
  "grant_validator v = v\<lparr>vd_executor := None, vd_replay := None\<rparr>"

lemma check_grant_Ok: "check_grant L K v tok = Ok u \<longleftrightarrow> (\<exists>chain. acceptable K (grant_validator v) tok chain)"
proof -
  let ?w = "with_skew (vd_skew v) (with_resolver (vd_resolver v) (validator_new L K (vd_store v) (vd_now v)))
      \<lparr>vd_max_proofs := vd_max_proofs v, vd_revocations := vd_revocations v\<rparr>"
  have "?w = grant_validator v"
    by (simp add: grant_validator_def with_skew_def with_resolver_def validator_new_def)
  moreover have "fresh_for (grant_validator v) tok" by (simp add: grant_validator_def fresh_for_def)
  ultimately show ?thesis
    by (cases "validate_checks K (grant_validator v) tok")
      (auto simp: check_grant_def Let_def res_simps validate_eq simp flip: validate_checks_Ok)
qed

lemma check_standing_Ok:
  "hop \<le> length chain \<Longrightarrow> check_standing v chain hop = Ok u \<longleftrightarrow>
    (\<forall>d \<in> set (take hop chain). delegation_check_time d (vd_now v) (vd_skew v) = Ok ()) \<and>
    (\<forall>r. vd_revocations v = Some r \<longrightarrow> (\<forall>d \<in> set (take hop chain). \<not> r (d_cid d) (map (\<lambda>d. d_issuer d) chain)))"
  by (simp add: check_standing_def Let_def res_simps check_times_Ok check_revocations_Ok)

lemma issued_at_Some:
  "issued_at chain d = Some i \<longleftrightarrow> i < length chain \<and> same_principal (d_issuer (chain ! i)) d
    \<and> (\<forall>j < i. \<not> same_principal (d_issuer (chain ! j)) d)"
  by (simp add: issued_at_def position_Some)

lemma issued_at_None: "issued_at chain d = None \<longleftrightarrow> (\<forall>x \<in> set chain. \<not> same_principal (d_issuer x) d)"
  by (simp add: issued_at_def position_None)

text \<open>A chain with no next token: its last delegation was issued with authority.\<close>

definition issued_with_authority :: "did \<Rightarrow> 'c delegation list \<Rightarrow> bool" where
  "issued_with_authority subject chain \<longleftrightarrow>
     chain \<noteq> [] \<and> aligned subject (last chain) \<and>
     (if butlast chain = [] then root_ok subject (last chain)
      else authority subject (butlast chain) (d_issuer (last chain)) (d_command (last chain)))"

lemma check_structure_None:
  "check_structure chain subject None = Ok u \<longleftrightarrow> issued_with_authority subject chain"
proof (cases chain rule: rev_cases)
  case (snoc ds d)
  then show ?thesis
    by (simp add: check_structure_snoc issued_with_authority_def link_ok_def check_structure_authority)
qed (simp add: check_structure_def issued_with_authority_def)

section \<open>The rules\<close>

lemma same_principal_sym: "same_principal a b \<longleftrightarrow> same_principal b a"
  by (auto simp: same_principal_def)

lemma same_principal_trans: "same_principal a b \<Longrightarrow> same_principal b c \<Longrightarrow> same_principal a c"
  by (simp add: same_principal_def)

text \<open>With no principal issuing twice, the hop of a principal is the only one it issued.\<close>

definition no_repeats :: "'c delegation list \<Rightarrow> bool" where
  "no_repeats chain \<longleftrightarrow>
     (\<forall>i < length chain. \<forall>j < i. \<not> same_principal (d_issuer (chain ! j)) (d_issuer (chain ! i)))"

lemma issued_at_unique:
  "no_repeats chain \<Longrightarrow> issued_at chain p = Some i \<longleftrightarrow> i < length chain \<and> same_principal (d_issuer (chain ! i)) p"
  unfolding no_repeats_def issued_at_Some by (metis same_principal_sym same_principal_trans)

text \<open>The hops above the \<open>i\<close>-th still stand.\<close>

definition stands_above :: "('c, 'g) validator \<Rightarrow> 'c delegation list \<Rightarrow> nat \<Rightarrow> bool" where
  "stands_above v chain i \<longleftrightarrow>
    (\<forall>d \<in> set (take i chain). delegation_check_time d (vd_now v) (vd_skew v) = Ok ()) \<and>
    (\<forall>r. vd_revocations v = Some r \<longrightarrow> (\<forall>d \<in> set (take i chain). \<not> r (d_cid d) (map (\<lambda>d. d_issuer d) chain)))"

text \<open>Whose right to revoke it is.\<close>

definition rightful :: "'s crypto_lib \<Rightarrow> ('c, 'g) validator \<Rightarrow> 'c invocation \<Rightarrow> 'c delegation list \<Rightarrow> did \<Rightarrow> bool \<Rightarrow> bool" where
  "rightful K v tok chain p delegated \<longleftrightarrow>
     (\<exists>d \<in> set chain. same_principal (d_issuer d) (i_subject tok)) \<and>
     (if \<exists>d \<in> set chain. same_principal (d_issuer d) (i_issuer tok)
      then p = i_issuer tok \<and> \<not> delegated
      else p = i_subject tok \<and> delegated \<and> i_proofs tok \<noteq> []
        \<and> (\<exists>proofs. acceptable K (grant_validator v) tok proofs))"

text \<open>What the documentation asks of a revocation, with no order among the rules.\<close>

definition revocation_acceptable ::
  "'s crypto_lib \<Rightarrow> ('c, 'g) validator \<Rightarrow> did \<Rightarrow> 'c invocation \<Rightarrow> 'c delegation list \<Rightarrow> 'c accepted_revocation \<Rightarrow> bool"
where
  "revocation_acceptable K v subject tok chain a \<longleftrightarrow>
     cmd_str (i_command tok) = REVOKE_COMMAND \<and>
     (\<exists>path. i_args tok = revoke_args (ar_target a) path \<and> (path = None \<or> path = Some (map (\<lambda>d. d_cid d) chain))) \<and>
     (\<forall>n. vd_max_proofs v = Some n \<longrightarrow> length chain \<le> n) \<and>
     issued_with_authority subject chain \<and>
     no_repeats chain \<and>
     invocation_verify K (vd_resolver v) tok = Ok () \<and>
     invocation_check_time tok (vd_now v) (vd_skew v) = Ok () \<and>
     (\<forall>d \<in> set chain. delegation_verify K (vd_resolver v) d = Ok ()) \<and>
     rightful K v tok chain (ar_authority a) (ar_delegated a) \<and>
     (\<exists>i < length chain. same_principal (d_issuer (chain ! i)) (ar_authority a) \<and> stands_above v chain i) \<and>
     ar_target a = d_cid (last chain) \<and> ar_target_expiry a = d_expiration (last chain) \<and>
     ar_revoker a = i_issuer tok"

text \<open>The part of the judgement that says whose right is used.\<close>

definition right_used ::
  "'c cid_lib \<Rightarrow> 's crypto_lib \<Rightarrow> ('c, 'g) validator \<Rightarrow> 'c invocation \<Rightarrow> 'c delegation list
    \<Rightarrow> 'c revocation_error + (nat \<times> did \<times> bool)" where
  "right_used L K v tok chain =
     res_bind (ok_or (SubjectNotInChain (i_subject tok)) (issued_at chain (i_subject tok))) (\<lambda>source.
     case issued_at chain (i_issuer tok) of
         Some hop \<Rightarrow> Ok (hop, i_issuer tok, False)
       | None \<Rightarrow>
           if i_proofs tok = [] then Err (NotAuthorized (i_issuer tok))
           else res_bind (check_grant L K v tok) (\<lambda>_. Ok (source, i_subject tok, True)))"

lemma right_used_Ok:
  "right_used L K v tok chain = Ok (hop, p, delegated) \<longleftrightarrow>
     rightful K v tok chain p delegated \<and> issued_at chain p = Some hop"
  using issued_at_None [of chain "i_subject tok"] issued_at_None [of chain "i_issuer tok"]
  by (cases "issued_at chain (i_subject tok)"; cases "issued_at chain (i_issuer tok)")
    (auto simp: right_used_def res_simps check_grant_Ok rightful_def)

lemma check_revocation_eq:
  "check_revocation L K v subject tok chain =
     res_bind (revocation_read tok) (\<lambda>revocation.
     res_bind (map_err Invalid (check_limit v (length chain))) (\<lambda>_.
     res_bind (map_err Invalid (check_structure chain subject None)) (\<lambda>_.
     res_bind (check_names_chain revocation chain) (\<lambda>target.
     res_bind (check_no_issuer_repeats chain) (\<lambda>_.
     res_bind (map_err (\<lambda>e. Invalid (signature_error HopInvocation e))
         (invocation_verify K (vd_resolver v) tok)) (\<lambda>_.
     res_bind (map_err (\<lambda>e. Invalid (time_error HopInvocation e))
         (invocation_check_time tok (vd_now v) (vd_skew v))) (\<lambda>_.
     res_bind (map_err Invalid (verify_chain K v chain)) (\<lambda>_.
     res_bind (right_used L K v tok chain) (\<lambda>(hop, p, delegated).
     res_bind (check_standing v chain hop) (\<lambda>_.
     Ok \<lparr>ar_target = target, ar_revoker = i_issuer tok, ar_authority = p,
         ar_target_expiry = (if chain = [] then Never else d_expiration (last chain)),
         ar_delegated = delegated\<rparr>))))))))))"
  by (simp add: check_revocation_def right_used_def res_bind_assoc Let_def)

lemma check_revocation_Ok:
  "check_revocation L K v subject tok chain = Ok a \<longleftrightarrow>
    (\<exists>r. revocation_read tok = Ok r \<and> check_names_chain r chain = Ok (ar_target a)) \<and>
    (\<forall>n. vd_max_proofs v = Some n \<longrightarrow> length chain \<le> n) \<and>
    issued_with_authority subject chain \<and>
    check_no_issuer_repeats chain = Ok () \<and>
    invocation_verify K (vd_resolver v) tok = Ok () \<and>
    invocation_check_time tok (vd_now v) (vd_skew v) = Ok () \<and>
    (\<forall>d \<in> set chain. delegation_verify K (vd_resolver v) d = Ok ()) \<and>
    (\<exists>hop. right_used L K v tok chain = Ok (hop, ar_authority a, ar_delegated a)
      \<and> check_standing v chain hop = Ok ()) \<and>
    ar_revoker a = i_issuer tok \<and> ar_target_expiry a = (if chain = [] then Never else d_expiration (last chain))"
  by (cases a) (auto simp: check_revocation_eq res_bind_Ok check_limit_Ok check_structure_None verify_chain_Ok)

lemma read_and_named:
  "bt_wf (i_args tok) \<Longrightarrow> chain \<noteq> [] \<Longrightarrow>
    (\<exists>r. revocation_read tok = Ok r \<and> check_names_chain r chain = Ok t) \<longleftrightarrow>
    cmd_str (i_command tok) = REVOKE_COMMAND \<and>
    (\<exists>path. i_args tok = revoke_args t path \<and> (path = None \<or> path = Some (map (\<lambda>d. d_cid d) chain))) \<and>
    t = d_cid (last chain)" (is "?wf \<Longrightarrow> ?ne \<Longrightarrow> ?l \<longleftrightarrow> ?r")
proof
  assume wf: "?wf" and ne: "?ne"
  show "?r" if l: "?l"
  proof -
    from l wf obtain r where r: "cmd_str (i_command tok) = REVOKE_COMMAND"
      "i_args tok = revoke_args (rv_target r) (rv_path r)" "check_names_chain r chain = Ok t"
      by (auto simp: revocation_read_Ok)
    then show "?r" unfolding check_names_chain_Ok
      by (intro conjI exI [of _ "rv_path r"]) (cases "rv_path r"; auto)+
  qed
  assume r: "?r"
  then obtain path where p: "i_args tok = revoke_args t path" "path = None \<or> path = Some (map (\<lambda>d. d_cid d) chain)"
    by blast
  then show "?l" using wf ne r
    by (intro exI [of _ "\<lparr>rv_target = t, rv_path = path\<rparr>"]) (auto simp: revocation_read_Ok check_names_chain_Ok)
qed

lemma revocation_judged:
  assumes "bt_wf (i_args tok)"
  shows "check_revocation L K v subject tok chain = Ok a \<longleftrightarrow> revocation_acceptable K v subject tok chain a"
proof (cases "issued_with_authority subject chain \<and> no_repeats chain")
  case True
  then have ne: "chain \<noteq> []" by (simp add: issued_with_authority_def)
  have "(\<exists>hop. right_used L K v tok chain = Ok (hop, ar_authority a, ar_delegated a)
      \<and> check_standing v chain hop = Ok ()) \<longleftrightarrow> rightful K v tok chain (ar_authority a) (ar_delegated a) \<and>
     (\<exists>i < length chain. same_principal (d_issuer (chain ! i)) (ar_authority a) \<and> stands_above v chain i)"
    using True by (auto simp: right_used_Ok issued_at_unique check_standing_Ok stands_above_def)
  moreover have "check_no_issuer_repeats chain = Ok ()"
    using True by (simp add: check_no_issuer_repeats_Ok no_repeats_def)
  ultimately show ?thesis
    using True ne by (simp add: check_revocation_Ok revocation_acceptable_def read_and_named [OF assms ne]) blast
next
  case False
  then show ?thesis
    by (auto simp: check_revocation_Ok revocation_acceptable_def check_no_issuer_repeats_Ok no_repeats_def)
qed

section \<open>Properties\<close>

text \<open>
  C26. \<open>check_revocation\<close> accepts exactly the revocations that follow the documented rules: a
  \<open>/ucan/revoke\<close> invocation that names the chain it comes with, signed and in time, over a chain that
  was issued with authority and in which no principal issues twice, made by the right of a principal
  who issued in it and whose own authority still stands. Nobody else's right is ever recorded.
\<close>

theorem revocation_accepts:
  assumes "bt_wf (i_args tok)"
  shows "check_revocation L K v subject tok chain = Ok a \<longleftrightarrow> revocation_acceptable K v subject tok chain a"
  by (rule revocation_judged [OF assms])

text \<open>Alice revokes what she gave Bob.\<close>

definition sample_revocation :: "byte list invocation" where
  "sample_revocation =
     \<lparr>i_envelope = sample_envelope Invocation 4,
      i_payload = \<lparr>ip_issuer = alice, ip_subject = alice, ip_audience = None,
        ip_command = Command REVOKE_COMMAND, ip_args = [(lit ''revoke'', ILink [1])], ip_proofs = [], ip_meta = [],
        ip_nonce = nonce_empty, ip_expiration = Never, ip_issued_at = None, ip_cause = None\<rparr>\<rparr>"

definition sample_accepted :: "byte list accepted_revocation" where
  "sample_accepted = \<lparr>ar_target = [1], ar_revoker = alice, ar_authority = alice,
     ar_target_expiry = At (Timestamp 200), ar_delegated = False\<rparr>"

lemma sample_revocation_fields:
  "i_issuer sample_revocation = alice" "i_subject sample_revocation = alice"
  "i_args sample_revocation = revoke_args [1] None" "cmd_str (i_command sample_revocation) = REVOKE_COMMAND"
  "i_expiration sample_revocation = Never" "d_issuer from_alice = alice" "d_expiration from_alice = At (Timestamp 200)"
  "aligned alice from_alice" "root_ok alice from_alice"
  by (simp_all add: sample_revocation_def revoke_args_def from_alice_def sample_delegation_def aligned_def
      root_ok_def sample_principals)

lemma sample_revocation_verifies: "invocation_verify sample_crypto sample_resolver sample_revocation = Ok ()"
  using sample_verifies by (simp add: invocation_verify_def sample_resolver_def sample_revocation_def)

lemma sample_revocation_acceptable:
  assumes "\<And>r c is. R = Some r \<Longrightarrow> \<not> r c is"
  shows "revocation_acceptable sample_crypto ((sample_validator [])\<lparr>vd_revocations := R\<rparr>) alice sample_revocation
    [from_alice] sample_accepted"
proof -
  have "\<exists>path. revoke_args [1] None = revoke_args [1] path \<and> (path = None \<or> path = Some cs)"
    for cs :: "byte list list" by (rule exI [of _ None]) simp
  then show ?thesis
    using assms by (simp add: revocation_acceptable_def sample_revocation_fields sample_accepted_def issued_with_authority_def
        no_repeats_def stands_above_def rightful_def sample_principals sample_cids sample_validator_def
        with_replay_guard_def with_resolver_def validator_new_def sample_revocation_verifies
        sample_token_verifies invocation_check_time_def check_window_def)
qed

lemma sample_unrevoked: "(sample_validator [])\<lparr>vd_revocations := None\<rparr> = sample_validator []"
  by (simp add: sample_validator_def with_replay_guard_def with_resolver_def validator_new_def)

lemma sample_judged_with:
  "(\<And>r c is. R = Some r \<Longrightarrow> \<not> r c is) \<Longrightarrow>
    check_revocation sample_lib sample_crypto ((sample_validator [])\<lparr>vd_revocations := R\<rparr>) alice sample_revocation
      [from_alice] = Ok sample_accepted"
  by (subst revocation_judged)
    (simp add: sample_revocation_fields revoke_args_def bt_wf_def, rule sample_revocation_acceptable)

lemma sample_judged:
  "check_revocation sample_lib sample_crypto (sample_validator []) alice sample_revocation [from_alice] = Ok sample_accepted"
  using sample_judged_with [of None] by (simp add: sample_unrevoked)

theorem revocation_accepts_witness:
  "check_revocation sample_lib sample_crypto (sample_validator []) alice sample_revocation [from_alice] = Ok sample_accepted"
proof -
  have "bt_wf (i_args sample_revocation)" by (simp add: sample_revocation_fields revoke_args_def bt_wf_def)
  from revocation_accepts [OF this, of sample_lib sample_crypto "sample_validator []" alice "[from_alice]" sample_accepted]
    sample_revocation_acceptable [of None] show ?thesis by (simp add: sample_unrevoked)
qed

text \<open>
  C27. A revocation that was accepted and recorded stops the chain it was judged by: no validator that
  consults the store lets through an invocation whose proofs begin with that chain.
\<close>

theorem revoked_chain_refused:
  assumes "check_revocation L K v subject tok chain = Ok a"
    and "vd_revocations w = Some (is_revoked (fold revocation_record later (revocation_record a s)))"
    and "fst (validate K w use) = Ok pr"
  shows "take (length chain) (v_chain pr) \<noteq> chain"
proof
  assume pre: "take (length chain) (v_chain pr) = chain"
  from assms(1) obtain hop where a: "chain \<noteq> []" "ar_target a = d_cid (last chain)"
    "issued_at chain (ar_authority a) = Some hop"
    by (auto simp: check_revocation_Ok right_used_Ok check_names_chain_Ok)
  then have "\<exists>d \<in> set chain. same_principal (d_issuer d) (ar_authority a)" by (auto simp: issued_at_Some)
  moreover have sub: "set chain \<subseteq> set (v_chain pr)" using pre by (metis set_take_subset)
  ultimately have "is_revoked (fold revocation_record later (revocation_record a s)) (d_cid (last chain))
      (map (\<lambda>d. d_issuer d) (v_chain pr))"
    using a(2) by (auto simp: memory_revocations.revoked_add_all memory_revocations.revoked_add)
  moreover have "last chain \<in> set (v_chain pr)" using a(1) sub by auto
  moreover have "acceptable K w use (v_chain pr)"
    using assms(3) by (rule validate_Ok_acceptable)
  ultimately show False using assms(2) by (auto simp: acceptable_def)
qed

theorem revoked_chain_refused_witness:
  "take 1 [to_carol] \<noteq> [from_alice]"
proof -
  let ?w = "(sample_validator [])\<lparr>vd_revocations := Some (is_revoked (fold revocation_record [] (revocation_record sample_accepted [])))\<rparr>"
  let ?pr = "\<lparr>v_chain = [to_carol], v_subject = alice, v_invocation = [3]\<rparr>"
  have "\<not> is_revoked (revocation_record sample_accepted []) [5] [alice]"
    by (simp add: memory_revocations.revoked_add sample_accepted_def) (simp add: is_revoked_def)
  then have "validate_checks sample_crypto ?w (sample_invocation [[5]]) = Ok [to_carol]"
    by (simp add: validate_checks_Ok sample_direct_acceptable)
  moreover have "fresh_for ?w (sample_invocation [[5]])"
    using sample_fresh by (simp add: fresh_for_def)
  ultimately have "fst (validate sample_crypto ?w (sample_invocation [[5]])) = Ok ?pr"
    by (simp add: validate_eq sample_cids sample_fields)
  from revoked_chain_refused [where later = "[]" and s = "[]", OF sample_judged _ this] show ?thesis by simp
qed

end
