(* ===== verification/Executor.thy ===== *)
theory Executor
  imports Revocation_Laws
begin

text \<open>
  An executor over time: the in-memory stores of \<open>validate.rs\<close> and the operations of the crate on
  them, in any order. The crate leaves the loop to its user; the steps here are the calls its
  documentation prescribes (validate before executing, prune by expiry with the validator's skew,
  record only what \<open>check_revocation\<close> accepted), with time that does not go back.
\<close>

section \<open>States and steps\<close>

record 'c executor_state =
  ex_now :: timestamp
  ex_store :: "'c memory_store"
  ex_guard :: "'c replay_guard"
  ex_revocations :: "'c revocation_store"
  ex_executed :: "'c invocation list"

text \<open>What stays fixed: the libraries, the resolver, the skew, who the executor is, the limit.\<close>

record ('c, 's) executor_config =
  cf_cids :: "'c cid_lib"
  cf_crypto :: "'s crypto_lib"
  cf_resolver :: resolver
  cf_skew :: "32 word"
  cf_self :: "did option"
  cf_limit :: "nat option"

definition validator_at ::
  "('c::linorder, 's) executor_config \<Rightarrow> 'c executor_state \<Rightarrow> ('c, 'c replay_guard) validator" where
  "validator_at cf s =
     \<lparr>vd_store = store_get (ex_store s), vd_resolver = cf_resolver cf, vd_now = ex_now s,
      vd_skew = cf_skew cf, vd_executor = cf_self cf, vd_replay = Some (guard_record, ex_guard s),
      vd_max_proofs = cf_limit cf, vd_revocations = Some (is_revoked (ex_revocations s))\<rparr>"

definition guard_after :: "('c, 'c replay_guard) validator \<Rightarrow> 'c replay_guard \<Rightarrow> 'c replay_guard" where
  "guard_after v g = (case vd_replay v of Some (_, g') \<Rightarrow> g' | None \<Rightarrow> g)"

datatype 'c event =
    Tick timestamp
  | Hold "'c delegation"
  | Discard 'c
  | Prune
  | Judge did "'c invocation" "'c delegation list" "'c accepted_revocation"
  | Revoke 'c
  | Execute "'c invocation" "'c validated"
  | Refuse "'c invocation" "'c validation_error"

inductive ex_step ::
  "('c::linorder, 's) executor_config \<Rightarrow> 'c executor_state \<Rightarrow> 'c event \<Rightarrow> 'c executor_state \<Rightarrow> bool"
  for cf where
  Tick: "ex_now s \<le> t \<Longrightarrow> ts_wf t \<Longrightarrow> ex_step cf s (Tick t) (s\<lparr>ex_now := t\<rparr>)"
| Hold: "ex_step cf s (Hold d) (s\<lparr>ex_store := snd (store_insert d (ex_store s))\<rparr>)"
| Discard: "ex_step cf s (Discard c) (s\<lparr>ex_store := snd (store_remove c (ex_store s))\<rparr>)"
| Prune: "ex_step cf s Prune
    (s\<lparr>ex_store := store_prune_expired (ex_now s) (cf_skew cf) (ex_store s),
       ex_guard := guard_prune_expired (ex_now s) (cf_skew cf) (ex_guard s),
       ex_revocations := revocation_prune_expired (ex_now s) (cf_skew cf) (ex_revocations s)\<rparr>)"
| Judge: "check_revocation (cf_cids cf) (cf_crypto cf) (validator_at cf s) subject tok chain = Ok a \<Longrightarrow>
    ex_step cf s (Judge subject tok chain a) (s\<lparr>ex_revocations := revocation_record a (ex_revocations s)\<rparr>)"
| Revoke: "ex_step cf s (Revoke c) (s\<lparr>ex_revocations := revoke c (ex_revocations s)\<rparr>)"
| Execute: "validate (cf_crypto cf) (validator_at cf s) tok = (Ok pr, v) \<Longrightarrow>
    ex_step cf s (Execute tok pr)
      (s\<lparr>ex_guard := guard_after v (ex_guard s), ex_executed := ex_executed s @ [tok]\<rparr>)"
| Refuse: "validate (cf_crypto cf) (validator_at cf s) tok = (Err e, v) \<Longrightarrow>
    ex_step cf s (Refuse tok e) (s\<lparr>ex_guard := guard_after v (ex_guard s)\<rparr>)"

inductive_cases ex_step_cases: "ex_step cf s e s'"
inductive_simps ex_step_Execute: "ex_step cf s (Execute tok pr) s'"
inductive_simps ex_step_Judge: "ex_step cf s (Judge subject tok chain a) s'"

text \<open>Runs, with the events that happened on the way.\<close>

inductive ex_run ::
  "('c::linorder, 's) executor_config \<Rightarrow> 'c executor_state \<Rightarrow> 'c event list \<Rightarrow> 'c executor_state \<Rightarrow> bool"
  for cf where
  Done: "ex_run cf s [] s"
| Step: "ex_run cf s es s' \<Longrightarrow> ex_step cf s' e s'' \<Longrightarrow> ex_run cf s (es @ [e]) s''"

inductive_cases ex_run_Nil: "ex_run cf s [] s'"
inductive_cases ex_run_snoc: "ex_run cf s (es @ [e]) s'"

definition start :: "timestamp \<Rightarrow> 'c executor_state" where
  "start now = \<lparr>ex_now = now, ex_store = [], ex_guard = [], ex_revocations = [], ex_executed = []\<rparr>"

text \<open>
  Tokens with the same CID expire at the same time, since a CID is a hash of the signed bytes: \<open>E\<close>
  says when. This is what the events of a run have to agree with.
\<close>

fun agrees :: "('c \<Rightarrow> expiry) \<Rightarrow> 'c event \<Rightarrow> bool" where
  "agrees E (Hold d) \<longleftrightarrow> d_expiration d = E (d_cid d)"
| "agrees E (Judge _ _ chain _) \<longleftrightarrow> (\<forall>d \<in> set chain. d_expiration d = E (d_cid d))"
| "agrees E (Execute tok _) \<longleftrightarrow> i_expiration tok = E (i_cid tok)"
| "agrees E (Refuse tok _) \<longleftrightarrow> i_expiration tok = E (i_cid tok)"
| "agrees E _ \<longleftrightarrow> True"

section \<open>The invariant\<close>

definition lapsed :: "('c, 's) executor_config \<Rightarrow> 'c executor_state \<Rightarrow> expiry \<Rightarrow> bool" where
  "lapsed cf s e \<longleftrightarrow> is_past e (ex_now s) (cf_skew cf)"

text \<open>The guard remembers every executed invocation until it has expired.\<close>

definition guard_inv :: "('c \<Rightarrow> expiry) \<Rightarrow> ('c::linorder, 's) executor_config \<Rightarrow> 'c executor_state \<Rightarrow> bool" where
  "guard_inv E cf s \<longleftrightarrow>
     bt_wf (ex_guard s) \<and>
     (\<forall>c e. bt_get (ex_guard s) c = Some e \<longrightarrow> e = E c) \<and>
     (\<forall>tok \<in> set (ex_executed s). bt_get (ex_guard s) (i_cid tok) \<noteq> None \<or> lapsed cf s (E (i_cid tok))) \<and>
     distinct (map (\<lambda>tok. i_cid tok) (ex_executed s))"

text \<open>Every delegation held expires when its CID says, and so does what is recorded of it.\<close>

definition store_inv :: "('c \<Rightarrow> expiry) \<Rightarrow> 'c::linorder executor_state \<Rightarrow> bool" where
  "store_inv E s \<longleftrightarrow>
     bt_wf (ex_store s) \<and> bt_wf (ex_revocations s) \<and>
     (\<forall>c d. bt_get (ex_store s) c = Some d \<longrightarrow> d_cid d = c \<and> d_expiration d = E c) \<and>
     (\<forall>c r e. bt_get (ex_revocations s) c = Some r \<longrightarrow> rec_target_expiry r = Some e \<longrightarrow> e = E c)"

text \<open>A recorded revocation stands until its target has expired.\<close>

definition revocation_stands ::
  "('c \<Rightarrow> expiry) \<Rightarrow> ('c::linorder, 's) executor_config \<Rightarrow> 'c accepted_revocation \<Rightarrow> 'c executor_state \<Rightarrow> bool" where
  "revocation_stands E cf a s \<longleftrightarrow>
     lapsed cf s (E (ar_target a)) \<or>
     (\<forall>is. (\<exists>i \<in> set is. same_principal i (ar_authority a)) \<longrightarrow> is_revoked (ex_revocations s) (ar_target a) is)"

lemma lapsed_later: "lapsed cf s e \<Longrightarrow> ex_now s \<le> t \<Longrightarrow> lapsed cf (s\<lparr>ex_now := t\<rparr>) e"
  by (auto simp: lapsed_def intro: is_past_mono)

lemma lapsed_cong: "ex_now s' = ex_now s \<Longrightarrow> lapsed cf s' e \<longleftrightarrow> lapsed cf s e"
  by (simp add: lapsed_def)

lemma in_time: "check_window nbf e now skew = Ok () \<Longrightarrow> \<not> is_past e now skew"
  by (cases e) (auto simp: check_window_def is_past_def split: if_split_asm option.split_asm)

text \<open>The validator of a state, and the guard it leaves behind.\<close>

lemma guard_after_validate:
  assumes "validate K (validator_at cf s) tok = (r, v)"
  shows "guard_after v (ex_guard s) = bt_insert (i_cid tok) (i_expiration tok) (ex_guard s)
    \<or> guard_after v (ex_guard s) = ex_guard s"
proof -
  have v: "v = snd (validate K (validator_at cf s) tok)" using assms by simp
  show ?thesis
    by (cases "validate_checks K (validator_at cf s) tok")
      (simp_all add: v validate_eq recorded_in_def guard_after_def validator_at_def guard_record_def)
qed

lemma guard_after_Ok:
  assumes "validate K (validator_at cf s) tok = (Ok pr, v)"
  shows "guard_after v (ex_guard s) = bt_insert (i_cid tok) (i_expiration tok) (ex_guard s)"
    and "bt_get (ex_guard s) (i_cid tok) = None"
    and "acceptable K (validator_at cf s) tok (v_chain pr)"
    and "\<not> lapsed cf s (i_expiration tok)"
proof -
  have v: "v = snd (validate K (validator_at cf s) tok)" and o: "fst (validate K (validator_at cf s) tok) = Ok pr"
    using assms by simp_all
  show acc: "acceptable K (validator_at cf s) tok (v_chain pr)" using o by (rule validate_Ok_acceptable)
  have "fresh_for (validator_at cf s) tok"
    using o by (cases "validate_checks K (validator_at cf s) tok") (auto simp: validate_eq split: if_split_asm)
  then show "bt_get (ex_guard s) (i_cid tok) = None"
    by (simp add: fresh_for_def validator_at_def guard_record_def)
  show "guard_after v (ex_guard s) = bt_insert (i_cid tok) (i_expiration tok) (ex_guard s)"
    using o by (cases "validate_checks K (validator_at cf s) tok")
      (auto simp: v validate_eq recorded_in_def guard_after_def validator_at_def guard_record_def)
  from acc show "\<not> lapsed cf s (i_expiration tok)"
    by (auto simp: acceptable_def invocation_check_time_def lapsed_def validator_at_def dest: in_time)
qed

lemma guard_inv_step:
  assumes "ex_step cf s e s'" "agrees E e" "guard_inv E cf s"
  shows "guard_inv E cf s'"
  using assms(1)
proof (cases rule: ex_step.cases)
  case (Tick t)
  with assms(3) show ?thesis by (auto simp: guard_inv_def intro: lapsed_later)
next
  case Prune
  with assms(3) show ?thesis
    by (auto simp: guard_inv_def guard_prune_expired_def bt_get_retain lapsed_def split: option.splits)
next
  case (Execute tok pr v)
  note after = guard_after_Ok [OF Execute(3)]
  have E: "i_expiration tok = E (i_cid tok)" using assms(2) Execute by simp
  have "i_cid tok \<notin> (\<lambda>tok. i_cid tok) ` set (ex_executed s)"
    using assms(3) after(2,4) E by (auto simp: guard_inv_def)
  with assms(3) Execute after(1) E show ?thesis by (auto simp: guard_inv_def lapsed_def)
next
  case (Refuse tok e' v)
  have E: "i_expiration tok = E (i_cid tok)" using assms(2) Refuse by simp
  from guard_after_validate [OF Refuse(3)] show ?thesis
    using assms(3) Refuse E by (auto simp: guard_inv_def lapsed_def split: if_split_asm)
qed (use assms(3) in \<open>simp_all add: guard_inv_def lapsed_def\<close>)

lemma store_inv_step:
  assumes "ex_step cf s e s'" "agrees E e" "store_inv E s"
  shows "store_inv E s'"
  using assms(1)
proof (cases rule: ex_step.cases)
  case (Hold d)
  with assms show ?thesis by (auto simp: store_inv_def store_insert_def split: if_split_asm)
next
  case (Discard c)
  with assms(3) show ?thesis by (auto simp: store_inv_def store_remove_def split: if_split_asm)
next
  case Prune
  with assms(3) show ?thesis
    by (auto simp: store_inv_def store_prune_expired_def revocation_prune_expired_def bt_get_retain
        split: option.splits if_split_asm)
next
  case (Judge subject tok chain a)
  then have "ar_target_expiry a = E (ar_target a)"
    using assms(2) by (auto simp: check_revocation_Ok check_names_chain_Ok split: if_split_asm)
  with Judge assms(3) show ?thesis
    by (auto simp: store_inv_def revocation_record_def Let_def split: if_split_asm)
next
  case (Revoke c)
  with assms(3) show ?thesis
    by (auto simp: store_inv_def revoke_def entry_or_default_def recorded_default_def split: if_split_asm option.split_asm)
qed (use assms(3) in \<open>simp_all add: store_inv_def\<close>)

lemma stands_step:
  assumes "ex_step cf s e s'" "store_inv E s" "revocation_stands E cf a s"
  shows "revocation_stands E cf a s'"
  using assms(1)
proof (cases rule: ex_step.cases)
  case (Tick t)
  with assms(3) show ?thesis by (auto simp: revocation_stands_def intro: lapsed_later)
next
  case Prune
  show ?thesis
  proof (cases "lapsed cf s (E (ar_target a))")
    case False
    then have "is_revoked (ex_revocations s') (ar_target a) is \<longleftrightarrow> is_revoked (ex_revocations s) (ar_target a) is" for "is"
      using Prune assms(2)
      by (auto simp: is_revoked_def store_inv_def lapsed_def revocation_prune_expired_def bt_get_retain
          split: option.splits if_split_asm)
    with assms(3) False Prune show ?thesis by (simp add: revocation_stands_def lapsed_def)
  qed (use Prune in \<open>simp add: revocation_stands_def lapsed_def\<close>)
qed (use assms(3) in \<open>auto simp: revocation_stands_def lapsed_def memory_revocations.revoked_add
      memory_revocations.revoked_everywhere\<close>)

section \<open>Runs\<close>

lemma guard_inv_run:
  "ex_run cf s es s' \<Longrightarrow> list_all (agrees E) es \<Longrightarrow> guard_inv E cf s \<Longrightarrow> guard_inv E cf s'"
  by (induction rule: ex_run.induct) (auto intro: guard_inv_step)

lemma store_inv_run: "ex_run cf s es s' \<Longrightarrow> list_all (agrees E) es \<Longrightarrow> store_inv E s \<Longrightarrow> store_inv E s'"
  by (induction rule: ex_run.induct) (auto intro: store_inv_step)

lemma stands_run:
  "ex_run cf s es s' \<Longrightarrow> list_all (agrees E) es \<Longrightarrow> store_inv E s \<Longrightarrow> revocation_stands E cf a s \<Longrightarrow>
    revocation_stands E cf a s'"
  by (induction rule: ex_run.induct) (auto intro: stands_step store_inv_run)

lemma start_inv: "guard_inv E cf (start now)" "store_inv E (start now)"
  by (simp_all add: guard_inv_def store_inv_def start_def)

lemma ex_run_snoc_iff: "ex_run cf s (es @ [e]) s'' \<longleftrightarrow> (\<exists>s'. ex_run cf s es s' \<and> ex_step cf s' e s'')"
  by (auto intro: Step elim: ex_run_snoc)

lemma ex_run_append: "ex_run cf s (es @ es') s'' \<longleftrightarrow> (\<exists>s'. ex_run cf s es s' \<and> ex_run cf s' es' s'')"
proof (induction es' arbitrary: s'' rule: rev_induct)
  case Nil
  show ?case by (auto intro: Done elim: ex_run_Nil)
next
  case (snoc e es')
  then show ?case unfolding append_assoc [symmetric] ex_run_snoc_iff by blast
qed

lemma ex_run_single: "ex_run cf s [e] s' \<longleftrightarrow> ex_step cf s e s'"
  using ex_run_snoc_iff [of cf s "[]" e s'] by (auto intro: Done elim: ex_run_Nil)

lemma judged_stands:
  assumes "ex_step cf s (Judge subject tok chain a) s'"
  shows "revocation_stands E cf a s'"
  using assms by (auto simp: ex_step_Judge revocation_stands_def memory_revocations.revoked_add)

lemma standing_blocks:
  assumes "ex_step cf s (Execute tok pr) s'" "store_inv E s" "revocation_stands E cf a s"
    and "d \<in> set (v_chain pr)" "d_cid d = ar_target a" "d' \<in> set (v_chain pr)" "same_principal (d_issuer d') (ar_authority a)"
  shows False
proof -
  from assms(1) have acc: "acceptable (cf_crypto cf) (validator_at cf s) tok (v_chain pr)"
    by (auto simp: ex_step_Execute dest: guard_after_Ok(3))
  then obtain c where "store_get (ex_store s) c = Some d"
    using assms(4) by (auto simp: acceptable_def validator_at_def list_all2_conv_all_nth in_set_conv_nth)
  then have "d_expiration d = E (ar_target a)"
    using assms(2,5) by (auto simp: store_inv_def store_get_def)
  moreover have "delegation_check_time d (ex_now s) (cf_skew cf) = Ok ()"
    using acc assms(4) by (simp add: acceptable_def validator_at_def)
  ultimately have "\<not> lapsed cf s (E (ar_target a))"
    by (auto simp: lapsed_def delegation_check_time_def dest: in_time)
  moreover have "\<exists>i \<in> set (map (\<lambda>d. d_issuer d) (v_chain pr)). same_principal i (ar_authority a)"
    using assms(6,7) by auto
  ultimately have "is_revoked (ex_revocations s) (d_cid d) (map (\<lambda>d. d_issuer d) (v_chain pr))"
    using assms(3) unfolding revocation_stands_def assms(5) by blast
  with acc assms(4) show False by (simp add: acceptable_def validator_at_def)
qed

section \<open>Properties\<close>

text \<open>
  C28. Replay protection over any run: however insertions, removals, pruning, revocations, refusals and
  the passing of time are interleaved, no invocation is executed twice. Pruning the guard by expiry
  loses nothing, because what it forgets is refused for being expired.
\<close>

theorem executed_once:
  assumes "ex_run cf (start now) es s" "list_all (agrees E) es"
  shows "distinct (map (\<lambda>tok. i_cid tok) (ex_executed s))"
  using guard_inv_run [OF assms start_inv(1)] by (simp add: guard_inv_def)

text \<open>A run of the sample tokens: they are held, Alice revokes what she gave Bob, Carol invokes.\<close>

definition sample_config :: "(byte list, byte list) executor_config" where
  "sample_config = \<lparr>cf_cids = sample_lib, cf_crypto = sample_crypto, cf_resolver = sample_resolver,
     cf_skew = DEFAULT_SKEW, cf_self = None, cf_limit = None\<rparr>"

definition sample_expiry :: "byte list \<Rightarrow> expiry" where
  "sample_expiry c = (if c = [3] then At (Timestamp 150) else At (Timestamp 200))"

definition sample_state :: "byte list executor_state" where
  "sample_state = (start (Timestamp 100))\<lparr>ex_store := sample_store\<rparr>"

definition direct_proof :: "byte list validated" where
  "direct_proof = \<lparr>v_chain = [to_carol], v_subject = alice, v_invocation = [3]\<rparr>"

definition sample_holds :: "byte list event list" where
  "sample_holds = [Hold from_alice, Hold from_bob, Hold to_carol]"

lemma sample_holds_run: "ex_run sample_config (start (Timestamp 100)) sample_holds sample_state"
proof -
  let ?ins = "\<lambda>d s. s\<lparr>ex_store := snd (store_insert d (ex_store s))\<rparr>"
  let ?s0 = "start (Timestamp 100) :: byte list executor_state"
  have "ex_run sample_config ?s0 ((([] @ [Hold from_alice]) @ [Hold from_bob]) @ [Hold to_carol])
      (?ins to_carol (?ins from_bob (?ins from_alice ?s0)))"
    by (rule Step [OF Step [OF Step [OF Done Hold] Hold] Hold])
  then show ?thesis by (simp add: sample_holds_def sample_state_def sample_store_def start_def)
qed

text \<open>In these states the validator is the sample validator, with a revocation store.\<close>

lemma sample_validator_at:
  "ex_store s = sample_store \<Longrightarrow> ex_now s = Timestamp 100 \<Longrightarrow>
    validator_at sample_config s =
      (sample_validator (ex_guard s))\<lparr>vd_revocations := Some (is_revoked (ex_revocations s))\<rparr>"
  by (simp add: validator_at_def sample_config_def sample_validator_def with_replay_guard_def with_resolver_def
      validator_new_def)

lemma sample_execute:
  assumes "ex_store s = sample_store" "ex_now s = Timestamp 100" "ex_guard s = []"
    and "\<not> is_revoked (ex_revocations s) [5] [alice]"
  shows "\<exists>s'. ex_step sample_config s (Execute (sample_invocation [[5]]) direct_proof) s'
    \<and> ex_executed s' = ex_executed s @ [sample_invocation [[5]]]"
proof -
  let ?v = "validator_at sample_config s" and ?tok = "sample_invocation [[5]]"
  have K: "cf_crypto sample_config = sample_crypto" by (simp add: sample_config_def)
  have "validate_checks sample_crypto ?v ?tok = Ok [to_carol]"
    using assms by (simp add: validate_checks_Ok sample_validator_at sample_direct_acceptable)
  moreover have "fresh_for ?v ?tok"
    using assms sample_fresh [of "[[5]]"] by (simp add: sample_validator_at fresh_for_def)
  ultimately have "fst (validate sample_crypto ?v ?tok) = Ok direct_proof"
    by (simp add: validate_eq sample_cids sample_fields direct_proof_def)
  then obtain v where "validate sample_crypto ?v ?tok = (Ok direct_proof, v)" by (metis prod.collapse)
  then show ?thesis using Execute [of sample_config s ?tok direct_proof v] K by fastforce
qed

lemma sample_agrees [simp]:
  "d_expiration from_alice = sample_expiry (d_cid from_alice)" "d_expiration from_bob = sample_expiry (d_cid from_bob)"
  "d_expiration to_carol = sample_expiry (d_cid to_carol)"
  "i_expiration (sample_invocation proofs) = sample_expiry (i_cid (sample_invocation proofs))"
  by (simp_all add: sample_expiry_def sample_cids) (simp_all add: sample_token_defs)

theorem executed_once_witness:
  "\<exists>s :: byte list executor_state. ex_executed s = [sample_invocation [[5]]] \<and> distinct (map (\<lambda>tok. i_cid tok) (ex_executed s))"
proof -
  have "ex_store sample_state = sample_store" "ex_now sample_state = Timestamp 100" "ex_guard sample_state = []"
    "\<not> is_revoked (ex_revocations sample_state) [5] [alice]"
    by (simp_all add: sample_state_def start_def is_revoked_def)
  from sample_execute [OF this] obtain s
    where s: "ex_step sample_config sample_state (Execute (sample_invocation [[5]]) direct_proof) s"
      "ex_executed s = [sample_invocation [[5]]]"
    by (auto simp: sample_state_def start_def)
  have "distinct (map (\<lambda>tok. i_cid tok) (ex_executed s))"
    by (rule executed_once [OF Step [OF sample_holds_run s(1)], of sample_expiry]) (simp add: sample_holds_def)
  with s(2) show ?thesis by blast
qed

text \<open>
  C29. A revocation that was accepted in a run is never undone: whatever happens after it, pruning
  included, no invocation is executed later over a chain that holds the revoked delegation and in
  which the authority of the revocation issued a hop.
\<close>

theorem revoked_for_good:
  assumes "ex_run cf (start now) (before @ [Judge subject rtok chain a] @ since @ [Execute tok pr]) s"
    and "list_all (agrees E) (before @ [Judge subject rtok chain a] @ since)"
  shows "\<not> (\<exists>d \<in> set (v_chain pr). d_cid d = ar_target a
    \<and> (\<exists>d' \<in> set (v_chain pr). same_principal (d_issuer d') (ar_authority a)))"
proof -
  from assms(1) obtain s1 s2 s3 where run: "ex_run cf (start now) before s1"
    "ex_step cf s1 (Judge subject rtok chain a) s2" "ex_run cf s2 since s3" "ex_step cf s3 (Execute tok pr) s"
    unfolding ex_run_append ex_run_single by blast
  have inv2: "store_inv E s2"
    using run(1,2) assms(2) by (auto intro!: store_inv_step [OF run(2)] store_inv_run [OF run(1)] start_inv(2))
  have "store_inv E s3" "revocation_stands E cf a s3"
    using assms(2) inv2 judged_stands [OF run(2)] by (auto intro: store_inv_run [OF run(3)] stands_run [OF run(3)])
  with run(4) standing_blocks show ?thesis by blast
qed

theorem revoked_for_good_witness:
  "\<exists>s :: byte list executor_state. ex_executed s = [sample_invocation [[5]]] \<and>
    \<not> (\<exists>d \<in> set [to_carol]. d_cid d = [1] \<and> (\<exists>d' \<in> set [to_carol]. same_principal (d_issuer d') alice))"
proof -
  let ?judge = "Judge alice sample_revocation [from_alice] sample_accepted"
  let ?s = "sample_state\<lparr>ex_revocations := revocation_record sample_accepted []\<rparr>"
  have "check_revocation sample_lib sample_crypto (validator_at sample_config sample_state) alice
      sample_revocation [from_alice] = Ok sample_accepted"
  proof -
    have "check_revocation sample_lib sample_crypto ((sample_validator [])\<lparr>vd_revocations := Some (is_revoked [])\<rparr>)
        alice sample_revocation [from_alice] = Ok sample_accepted"
      by (rule sample_judged_with) (auto simp: is_revoked_def)
    then show ?thesis by (simp add: sample_validator_at sample_state_def start_def)
  qed
  then have judge: "ex_step sample_config sample_state ?judge ?s"
    using Judge [of sample_config sample_state alice sample_revocation "[from_alice]" sample_accepted]
    by (simp add: sample_config_def sample_state_def start_def)
  have "\<not> is_revoked (ex_revocations ?s) [5] [alice]"
    by (simp add: memory_revocations.revoked_add sample_accepted_def) (simp add: is_revoked_def)
  then obtain s where s: "ex_step sample_config ?s (Execute (sample_invocation [[5]]) direct_proof) s"
      "ex_executed s = [sample_invocation [[5]]]"
    using sample_execute [of ?s] by (auto simp: sample_state_def start_def)
  have "ex_run sample_config (start (Timestamp 100)) (sample_holds @ [?judge] @ [] @ [Execute (sample_invocation [[5]]) direct_proof]) s"
    unfolding ex_run_append ex_run_single using sample_holds_run judge s(1) by (auto intro: Done)
  from revoked_for_good [OF this, of sample_expiry]
  have "\<not> (\<exists>d \<in> set [to_carol]. d_cid d = [1] \<and> (\<exists>d' \<in> set [to_carol]. same_principal (d_issuer d') alice))"
    by (simp add: sample_holds_def direct_proof_def sample_accepted_def)
  with s(2) show ?thesis by blast
qed

end
