(* ===== verification/Ledger.thy ===== *)
theory Ledger
  imports Executor
begin

text \<open>
  What an executor promises: a ledger that forgets nothing. It keeps every delegation that was put in and
  not taken out, every invocation that was executed and every revocation that was accepted, and it
  knows no pruning. The executor, whose stores are pruned by expiry, is simulated by it.
\<close>

section \<open>Simulation\<close>

text \<open>Runs of a labelled step relation, and what carries over from single steps to them.\<close>

inductive run_of :: "('s \<Rightarrow> 'e \<Rightarrow> 's \<Rightarrow> bool) \<Rightarrow> 's \<Rightarrow> 'e list \<Rightarrow> 's \<Rightarrow> bool" for stp where
  run_Nil: "run_of stp s [] s"
| run_snoc: "run_of stp s es s' \<Longrightarrow> stp s' e s'' \<Longrightarrow> run_of stp s (es @ [e]) s''"

locale forward_simulation =
  fixes impl :: "'s \<Rightarrow> 'e \<Rightarrow> 's \<Rightarrow> bool"
    and spec :: "'t \<Rightarrow> 'e \<Rightarrow> 't \<Rightarrow> bool"
    and rel :: "'s \<Rightarrow> 't \<Rightarrow> bool"
    and allowed :: "'e \<Rightarrow> bool"
  assumes simulates: "rel s t \<Longrightarrow> impl s e s' \<Longrightarrow> allowed e \<Longrightarrow> \<exists>t'. spec t e t' \<and> rel s' t'"
begin

lemma simulates_run:
  "run_of impl s es s' \<Longrightarrow> list_all allowed es \<Longrightarrow> rel s t \<Longrightarrow> \<exists>t'. run_of spec t es t' \<and> rel s' t'"
proof (induction arbitrary: t rule: run_of.induct)
  case (run_Nil s)
  then show ?case by (blast intro: run_of.run_Nil)
next
  case (run_snoc s es s' e s'')
  then obtain t' where "run_of spec t es t'" "rel s' t'" by auto
  moreover from this(2) run_snoc obtain t'' where "spec t' e t''" "rel s'' t''"
    using simulates [of s' t' e s''] by auto
  ultimately show ?case by (blast intro: run_of.run_snoc)
qed

end

lemma ex_run_of: "ex_run cf s es s' \<Longrightarrow> run_of (ex_step cf) s es s'"
  by (induction rule: ex_run.induct) (auto intro: run_of.intros)

section \<open>The ledger\<close>

record 'c ledger =
  ld_now :: timestamp
  ld_held :: "'c \<Rightarrow> 'c delegation option"
  ld_used :: "'c set"
  ld_revoked :: "('c \<times> did option) set"

text \<open>A revocation by \<open>None\<close> reaches every chain, one by an authority the chains it issued in.\<close>

definition revoked_in :: "('c \<times> did option) set \<Rightarrow> 'c \<Rightarrow> did list \<Rightarrow> bool" where
  "revoked_in R c is \<longleftrightarrow> (c, None) \<in> R \<or> (\<exists>p. (c, Some p) \<in> R \<and> (\<exists>i \<in> set is. same_principal i p))"

lemma revoked_in_insert:
  "revoked_in (insert (c', Some p) R) c is \<longleftrightarrow> revoked_in R c is \<or> c = c' \<and> (\<exists>i \<in> set is. same_principal i p)"
  "revoked_in (insert (c', None) R) c is \<longleftrightarrow> revoked_in R c is \<or> c = c'"
  by (auto simp: revoked_in_def)

definition ledger_validator :: "('c, 's) executor_config \<Rightarrow> 'c ledger \<Rightarrow> ('c, 'c replay_guard) validator" where
  "ledger_validator cf t =
     \<lparr>vd_store = ld_held t, vd_resolver = cf_resolver cf, vd_now = ld_now t, vd_skew = cf_skew cf,
      vd_executor = cf_self cf, vd_replay = None, vd_max_proofs = cf_limit cf,
      vd_revocations = Some (revoked_in (ld_revoked t))\<rparr>"

definition permits :: "('c, 's) executor_config \<Rightarrow> 'c ledger \<Rightarrow> 'c invocation \<Rightarrow> 'c delegation list \<Rightarrow> bool" where
  "permits cf t tok chain \<longleftrightarrow> acceptable (cf_crypto cf) (ledger_validator cf t) tok chain \<and> i_cid tok \<notin> ld_used t"

inductive ledger_step :: "('c, 's) executor_config \<Rightarrow> 'c ledger \<Rightarrow> 'c event \<Rightarrow> 'c ledger \<Rightarrow> bool" for cf where
  "ld_now t \<le> now \<Longrightarrow> ledger_step cf t (Tick now) (t\<lparr>ld_now := now\<rparr>)"
| "ledger_step cf t (Hold d) (t\<lparr>ld_held := (ld_held t)(d_cid d \<mapsto> d)\<rparr>)"
| "ledger_step cf t (Discard c) (t\<lparr>ld_held := (ld_held t)(c := None)\<rparr>)"
| "ledger_step cf t Prune t"
| "check_revocation (cf_cids cf) (cf_crypto cf) (ledger_validator cf t) subject tok chain = Ok a \<Longrightarrow>
    ledger_step cf t (Judge subject tok chain a)
      (t\<lparr>ld_revoked := insert (ar_target a, Some (ar_authority a)) (ld_revoked t)\<rparr>)"
| "ledger_step cf t (Revoke c) (t\<lparr>ld_revoked := insert (c, None) (ld_revoked t)\<rparr>)"
| "permits cf t tok (v_chain pr) \<Longrightarrow> v_subject pr = i_subject tok \<Longrightarrow> v_invocation pr = i_cid tok \<Longrightarrow>
    ledger_step cf t (Execute tok pr) (t\<lparr>ld_used := insert (i_cid tok) (ld_used t)\<rparr>)"
| "\<not> (\<exists>chain. permits cf t tok chain) \<Longrightarrow> ledger_step cf t (Refuse tok e) t"

definition ledger_start :: "timestamp \<Rightarrow> 'c ledger" where
  "ledger_start now = \<lparr>ld_now = now, ld_held = (\<lambda>_. None), ld_used = {}, ld_revoked = {}\<rparr>"

section \<open>Validators that differ only about what has expired\<close>

definition same_unexpired :: "('c \<Rightarrow> expiry) \<Rightarrow> ('c, 'g) validator \<Rightarrow> ('c, 'g) validator \<Rightarrow> bool" where
  "same_unexpired E v w \<longleftrightarrow>
     vd_now v = vd_now w \<and> vd_skew v = vd_skew w \<and> vd_resolver v = vd_resolver w
     \<and> vd_executor v = vd_executor w \<and> vd_max_proofs v = vd_max_proofs w
     \<and> (\<forall>c d. vd_store v c = Some d \<or> vd_store w c = Some d \<longrightarrow> d_cid d = c \<and> d_expiration d = E c)
     \<and> (\<forall>c. is_past (E c) (vd_now v) (vd_skew v) \<or> vd_store v c = vd_store w c)
     \<and> rel_option (\<lambda>r r'. \<forall>c. is_past (E c) (vd_now v) (vd_skew v) \<or> r c = r' c) (vd_revocations v) (vd_revocations w)"

lemma same_unexpiredD:
  assumes "same_unexpired E v w"
  shows "vd_now w = vd_now v" "vd_skew w = vd_skew v" "vd_resolver w = vd_resolver v"
    "vd_executor w = vd_executor v" "vd_max_proofs w = vd_max_proofs v"
    "\<And>c d. vd_store v c = Some d \<Longrightarrow> d_cid d = c \<and> d_expiration d = E c"
    "\<And>c. \<not> is_past (E c) (vd_now v) (vd_skew v) \<Longrightarrow> vd_store w c = vd_store v c"
    "\<And>c r'. vd_revocations w = Some r' \<Longrightarrow> \<not> is_past (E c) (vd_now v) (vd_skew v) \<Longrightarrow>
      \<exists>r. vd_revocations v = Some r \<and> r c = r' c"
proof -
  note same = assms [unfolded same_unexpired_def]
  show "vd_now w = vd_now v" "vd_skew w = vd_skew v" "vd_resolver w = vd_resolver v"
    "vd_executor w = vd_executor v" "vd_max_proofs w = vd_max_proofs v"
    "\<And>c d. vd_store v c = Some d \<Longrightarrow> d_cid d = c \<and> d_expiration d = E c"
    using same by simp_all
  have "\<forall>c. is_past (E c) (vd_now v) (vd_skew v) \<or> vd_store v c = vd_store w c" using same by blast
  then show "\<And>c. \<not> is_past (E c) (vd_now v) (vd_skew v) \<Longrightarrow> vd_store w c = vd_store v c" by metis
  have "rel_option (\<lambda>r r'. \<forall>c. is_past (E c) (vd_now v) (vd_skew v) \<or> r c = r' c) (vd_revocations v) (vd_revocations w)"
    using same by blast
  then show "\<And>c r'. vd_revocations w = Some r' \<Longrightarrow> \<not> is_past (E c) (vd_now v) (vd_skew v) \<Longrightarrow>
      \<exists>r. vd_revocations v = Some r \<and> r c = r' c"
    by (auto simp: option_rel_Some2)
qed

lemma same_unexpired_sym:
  assumes "same_unexpired E v w"
  shows "same_unexpired E w v"
proof -
  note eq = same_unexpiredD [OF assms]
  have "rel_option (\<lambda>r' r. \<forall>c. is_past (E c) (vd_now v) (vd_skew v) \<or> r' c = r c) (vd_revocations w) (vd_revocations v)"
    using assms by (cases "vd_revocations v"; cases "vd_revocations w") (auto simp: same_unexpired_def)
  moreover have "\<forall>c d. vd_store w c = Some d \<or> vd_store v c = Some d \<longrightarrow> d_cid d = c \<and> d_expiration d = E c"
    using assms unfolding same_unexpired_def by blast
  moreover have "\<forall>c. is_past (E c) (vd_now v) (vd_skew v) \<or> vd_store w c = vd_store v c" using eq(7) by blast
  ultimately show ?thesis unfolding same_unexpired_def eq(1-5) by blast
qed

lemma grant_validator_simps:
  "vd_now (grant_validator v) = vd_now v" "vd_skew (grant_validator v) = vd_skew v"
  "vd_resolver (grant_validator v) = vd_resolver v" "vd_executor (grant_validator v) = None"
  "vd_max_proofs (grant_validator v) = vd_max_proofs v" "vd_store (grant_validator v) = vd_store v"
  "vd_revocations (grant_validator v) = vd_revocations v"
  by (simp_all add: grant_validator_def)

lemma same_unexpired_grant: "same_unexpired E v w \<Longrightarrow> same_unexpired E (grant_validator v) (grant_validator w)"
  unfolding same_unexpired_def grant_validator_simps by blast

lemma delegation_in_time: "delegation_check_time d now skew = Ok () \<Longrightarrow> \<not> is_past (d_expiration d) now skew"
  by (auto simp: delegation_check_time_def dest: in_time)

text \<open>What such a validator accepts has not expired, so the other accepts it too.\<close>

lemma same_unexpired_acceptable:
  assumes "same_unexpired E v w" "acceptable K v tok chain"
  shows "acceptable K w tok chain"
proof -
  note eq = same_unexpiredD [OF assms(1)]
  note acc = assms(2) [unfolded acceptable_def]
  have lookups: "list_all2 (\<lambda>c d. vd_store v c = Some d) (i_proofs tok) chain" using acc by blast
  have live: "\<not> is_past (E (d_cid d)) (vd_now v) (vd_skew v)" if d: "d \<in> set chain" for d
  proof -
    from d lookups obtain c where "vd_store v c = Some d" by (auto simp: list_all2_conv_all_nth in_set_conv_nth)
    then have "d_expiration d = E (d_cid d)" using eq(6) by blast
    moreover have "\<not> is_past (d_expiration d) (vd_now v) (vd_skew v)" using acc d by (intro delegation_in_time) blast
    ultimately show ?thesis by simp
  qed
  have "list_all2 (\<lambda>c d. vd_store w c = Some d) (i_proofs tok) chain"
  proof (rule list_all2_all_nthI [OF list_all2_lengthD [OF lookups]])
    fix i assume i: "i < length (i_proofs tok)"
    have get: "vd_store v (i_proofs tok ! i) = Some (chain ! i)" using list_all2_nthD [OF lookups i] .
    have "chain ! i \<in> set chain" using i list_all2_lengthD [OF lookups] by simp
    from eq(7) [OF live [OF this]] get eq(6) [OF get] show "vd_store w (i_proofs tok ! i) = Some (chain ! i)" by simp
  qed
  moreover have "\<forall>r. vd_revocations w = Some r \<longrightarrow> (\<forall>d \<in> set chain. \<not> r (d_cid d) (map (\<lambda>d. d_issuer d) chain))"
    using eq(8) [OF _ live] acc by metis
  ultimately show ?thesis using acc unfolding acceptable_def eq(1-5) by blast
qed

lemma acceptable_unexpired:
  assumes "same_unexpired E v w"
  shows "acceptable K v = acceptable K w"
  using same_unexpired_acceptable [OF assms] same_unexpired_acceptable [OF same_unexpired_sym [OF assms]]
  by (intro ext) blast

text \<open>The same for judging a revocation of a chain whose delegations expire when \<open>E\<close> says.\<close>

lemma same_unexpired_standing:
  assumes "same_unexpired E v w" "\<forall>d \<in> set chain. d_expiration d = E (d_cid d)" "hop \<le> length chain"
    and "check_standing v chain hop = Ok ()"
  shows "check_standing w chain hop = Ok ()"
proof -
  note eq = same_unexpiredD [OF assms(1)]
  note ok = assms(4) [unfolded check_standing_Ok [OF assms(3)]]
  have "\<not> is_past (E (d_cid d)) (vd_now v) (vd_skew v)" if "d \<in> set (take hop chain)" for d
    using delegation_in_time [of d] ok assms(2) that in_set_takeD [OF that] by fastforce
  from eq(8) [OF _ this] ok show ?thesis unfolding check_standing_Ok [OF assms(3)] eq(1,2) by metis
qed

lemma same_unexpired_judged:
  assumes "same_unexpired E v w" "\<forall>d \<in> set chain. d_expiration d = E (d_cid d)"
    and "check_revocation L K v subject tok chain = Ok a"
  shows "check_revocation L K w subject tok chain = Ok a"
proof -
  note eq = same_unexpiredD [OF assms(1)]
  have right: "rightful K v tok chain p delegated \<longleftrightarrow> rightful K w tok chain p delegated" for p delegated
    unfolding rightful_def acceptable_unexpired [OF same_unexpired_grant [OF assms(1)]] by (rule refl)
  note ok = assms(3) [unfolded check_revocation_Ok right_used_Ok right]
  from ok obtain hop where hop: "issued_at chain (ar_authority a) = Some hop" "check_standing v chain hop = Ok ()" by blast
  then have "check_standing w chain hop = Ok ()"
    using same_unexpired_standing [OF assms(1,2)] by (simp add: issued_at_Some)
  with hop(1) ok show ?thesis unfolding check_revocation_Ok right_used_Ok eq(1-5) by blast
qed

section \<open>The simulation\<close>

definition kept_by :: "('c \<Rightarrow> expiry) \<Rightarrow> ('c::linorder, 's) executor_config \<Rightarrow> 'c executor_state \<Rightarrow> 'c ledger \<Rightarrow> bool" where
  "kept_by E cf s t \<longleftrightarrow> ld_now t = ex_now s \<and> guard_inv E cf s \<and> store_inv E s
     \<and> ld_used t = i_cid ` set (ex_executed s)
     \<and> (\<forall>c d. ld_held t c = Some d \<longrightarrow> d_cid d = c \<and> d_expiration d = E c)
     \<and> (\<forall>c. lapsed cf s (E c) \<or>
          ld_held t c = store_get (ex_store s) c
          \<and> (c \<in> ld_used t \<longleftrightarrow> bt_get (ex_guard s) c \<noteq> None)
          \<and> revoked_in (ld_revoked t) c = is_revoked (ex_revocations s) c)"

lemma guard_after_Err:
  assumes "validate K (validator_at cf s) tok = (Err e, v)"
  shows "bt_get (guard_after v (ex_guard s)) c \<noteq> None \<longleftrightarrow> bt_get (ex_guard s) c \<noteq> None"
proof -
  have v: "v = snd (validate K (validator_at cf s) tok)" and e: "fst (validate K (validator_at cf s) tok) = Err e"
    using assms by simp_all
  show ?thesis using e
    by (cases "validate_checks K (validator_at cf s) tok")
      (auto simp: v validate_eq fresh_for_def recorded_in_def guard_after_def validator_at_def guard_record_def
        split: if_split_asm)
qed

text \<open>The validators of the two states.\<close>

lemma kept_by_validators:
  assumes "kept_by E cf s t"
  shows "same_unexpired E (validator_at cf s) (ledger_validator cf t)"
  using assms
  by (auto simp: same_unexpired_def kept_by_def validator_at_def ledger_validator_def lapsed_def store_inv_def store_get_def)

lemma kept_by_permits:
  assumes "kept_by E cf s t" "i_expiration tok = E (i_cid tok)"
  shows "permits cf t tok chain \<longleftrightarrow>
    acceptable (cf_crypto cf) (validator_at cf s) tok chain \<and> bt_get (ex_guard s) (i_cid tok) = None"
proof -
  have same: "acceptable (cf_crypto cf) (ledger_validator cf t) tok chain
      = acceptable (cf_crypto cf) (validator_at cf s) tok chain"
    unfolding acceptable_unexpired [OF kept_by_validators [OF assms(1)], symmetric] by (rule refl)
  have "\<not> lapsed cf s (E (i_cid tok))" if "acceptable (cf_crypto cf) (validator_at cf s) tok chain"
    using that assms(2) by (auto simp: acceptable_def invocation_check_time_def lapsed_def validator_at_def dest: in_time)
  then show ?thesis using assms(1) unfolding permits_def same kept_by_def by blast
qed

text \<open>What the two outcomes of \<open>validate\<close> say.\<close>

lemma validated_parts: "fst (validate K v tok) = Ok pr \<Longrightarrow> v_subject pr = i_subject tok \<and> v_invocation pr = i_cid tok"
  by (cases "validate_checks K v tok") (auto simp: validate_eq split: if_split_asm)

lemma refused_not_acceptable:
  assumes "validate K (validator_at cf s) tok = (Err e, v)"
  shows "\<not> (acceptable K (validator_at cf s) tok chain \<and> bt_get (ex_guard s) (i_cid tok) = None)"
proof
  assume a: "acceptable K (validator_at cf s) tok chain \<and> bt_get (ex_guard s) (i_cid tok) = None"
  then have "fresh_for (validator_at cf s) tok" by (simp add: fresh_for_def validator_at_def guard_record_def)
  moreover from a have "validate_checks K (validator_at cf s) tok = Ok chain" by (simp add: validate_checks_Ok)
  ultimately show False using assms by (simp add: validate_eq)
qed

text \<open>Pruning by expiry keeps everything that has not expired.\<close>

lemma kept_by_prune:
  assumes "kept_by E cf s t" "ex_step cf s Prune s'"
  shows "kept_by E cf s' t"
proof -
  have inv: "guard_inv E cf s'" "store_inv E s'"
    using assms(1) guard_inv_step [OF assms(2)] store_inv_step [OF assms(2)] by (simp_all add: kept_by_def)
  from assms(2) have s': "s' = s\<lparr>ex_store := store_prune_expired (ex_now s) (cf_skew cf) (ex_store s),
       ex_guard := guard_prune_expired (ex_now s) (cf_skew cf) (ex_guard s),
       ex_revocations := revocation_prune_expired (ex_now s) (cf_skew cf) (ex_revocations s)\<rparr>"
    by (cases rule: ex_step.cases)
  have same: "store_get (ex_store s') c = store_get (ex_store s) c
      \<and> (bt_get (ex_guard s') c \<noteq> None \<longleftrightarrow> bt_get (ex_guard s) c \<noteq> None)
      \<and> is_revoked (ex_revocations s') c = is_revoked (ex_revocations s) c" if live: "\<not> lapsed cf s (E c)" for c
  proof (intro conjI ext)
    show "store_get (ex_store s') c = store_get (ex_store s) c"
      using assms(1) live
      by (auto simp: s' kept_by_def store_inv_def lapsed_def store_get_def store_prune_expired_def bt_get_retain split: option.split)
    show "bt_get (ex_guard s') c \<noteq> None \<longleftrightarrow> bt_get (ex_guard s) c \<noteq> None"
      using assms(1) live
      by (auto simp: s' kept_by_def guard_inv_def lapsed_def guard_prune_expired_def bt_get_retain split: option.split)
    show "is_revoked (ex_revocations s') c is = is_revoked (ex_revocations s) c is" for "is"
      using assms(1) live
      by (auto simp: s' kept_by_def is_revoked_def store_inv_def lapsed_def revocation_prune_expired_def bt_get_retain
          split: option.splits if_split_asm)
  qed
  have "lapsed cf s' (E c) = lapsed cf s (E c)" for c by (simp add: s' lapsed_def)
  moreover have "lapsed cf s (E c) \<or> ld_held t c = store_get (ex_store s') c
      \<and> (c \<in> ld_used t \<longleftrightarrow> bt_get (ex_guard s') c \<noteq> None)
      \<and> revoked_in (ld_revoked t) c = is_revoked (ex_revocations s') c" for c
  proof (cases "lapsed cf s (E c)")
    case False
    with assms(1) have "ld_held t c = store_get (ex_store s) c \<and> (c \<in> ld_used t \<longleftrightarrow> bt_get (ex_guard s) c \<noteq> None)
        \<and> revoked_in (ld_revoked t) c = is_revoked (ex_revocations s) c"
      unfolding kept_by_def by blast
    with same [OF False] show ?thesis by simp
  qed simp
  moreover have "ex_now s' = ex_now s" "ex_executed s' = ex_executed s" by (simp_all add: s')
  ultimately show ?thesis using inv assms(1) unfolding kept_by_def by simp
qed

lemma kept_by_step:
  assumes "kept_by E cf s t" "ex_step cf s e s'" "agrees E e"
  shows "\<exists>t'. ledger_step cf t e t' \<and> kept_by E cf s' t'"
proof -
  have inv: "guard_inv E cf s'" "store_inv E s'"
    using assms(1) guard_inv_step [OF assms(2,3)] store_inv_step [OF assms(2,3)] by (simp_all add: kept_by_def)
  show ?thesis using assms(2)
  proof (cases rule: ex_step.cases)
    case (Tick now)
    then have "kept_by E cf s' (t\<lparr>ld_now := now\<rparr>)"
      using assms(1) inv by (auto simp: kept_by_def intro: lapsed_later)
    moreover have "ledger_step cf t e (t\<lparr>ld_now := now\<rparr>)"
      using Tick assms(1) by (auto simp: kept_by_def intro: ledger_step.intros)
    ultimately show ?thesis by blast
  next
    case (Hold d)
    then have "kept_by E cf s' (t\<lparr>ld_held := (ld_held t)(d_cid d \<mapsto> d)\<rparr>)"
      using assms(1,3) inv by (auto simp: kept_by_def lapsed_def store_get_def store_insert_def)
    with Hold show ?thesis using ledger_step.intros(2) by blast
  next
    case (Discard c)
    then have "kept_by E cf s' (t\<lparr>ld_held := (ld_held t)(c := None)\<rparr>)"
      using assms(1) inv by (auto simp: kept_by_def lapsed_def store_get_def store_remove_def store_inv_def)
    moreover have "ledger_step cf t e (t\<lparr>ld_held := (ld_held t)(c := None)\<rparr>)"
      unfolding Discard(1) by (rule ledger_step.intros)
    ultimately show ?thesis by blast
  next
    case Prune
    then have "kept_by E cf s' t" using kept_by_prune [OF assms(1)] assms(2) by simp
    with Prune show ?thesis using ledger_step.intros(4) by blast
  next
    case (Judge subject tok chain a)
    then have "kept_by E cf s' (t\<lparr>ld_revoked := insert (ar_target a, Some (ar_authority a)) (ld_revoked t)\<rparr>)"
      using assms(1) inv by (auto simp: kept_by_def lapsed_def memory_revocations.revoked_add revoked_in_insert fun_eq_iff)
    moreover have "check_revocation (cf_cids cf) (cf_crypto cf) (ledger_validator cf t) subject tok chain = Ok a"
      using assms(3) Judge
      by (intro same_unexpired_judged [OF kept_by_validators [OF assms(1)]]) simp_all
    ultimately show ?thesis using ledger_step.intros(5) Judge by blast
  next
    case (Revoke c)
    then have "kept_by E cf s' (t\<lparr>ld_revoked := insert (c, None) (ld_revoked t)\<rparr>)"
      using assms(1) inv by (auto simp: kept_by_def lapsed_def memory_revocations.revoked_everywhere revoked_in_insert fun_eq_iff)
    moreover have "ledger_step cf t e (t\<lparr>ld_revoked := insert (c, None) (ld_revoked t)\<rparr>)"
      unfolding Revoke(1) by (rule ledger_step.intros)
    ultimately show ?thesis by blast
  next
    case (Execute tok pr v)
    then have "kept_by E cf s' (t\<lparr>ld_used := insert (i_cid tok) (ld_used t)\<rparr>)"
      using assms(1) inv by (auto simp: kept_by_def lapsed_def guard_after_Ok(1) [OF Execute(3)])
    moreover have "permits cf t tok (v_chain pr)"
      using kept_by_permits [OF assms(1)] assms(3) Execute(1) guard_after_Ok(2,3) [OF Execute(3)] by simp
    moreover have "v_subject pr = i_subject tok" "v_invocation pr = i_cid tok"
      using validated_parts [of "cf_crypto cf" "validator_at cf s" tok pr] Execute(3) by simp_all
    ultimately show ?thesis using ledger_step.intros(7) Execute by blast
  next
    case (Refuse tok e' v)
    then have "kept_by E cf s' t"
      using assms(1) inv guard_after_Err [OF Refuse(3)] by (auto simp: kept_by_def lapsed_def)
    moreover have "\<not> permits cf t tok chain" for chain
      using kept_by_permits [OF assms(1)] assms(3) Refuse(1) refused_not_acceptable [OF Refuse(3)] by simp
    ultimately show ?thesis using ledger_step.intros(8) Refuse by blast
  qed
qed

interpretation ledger: forward_simulation "ex_step cf" "ledger_step cf" "kept_by E cf" "agrees E"
  for cf :: "('c::linorder, 's) executor_config" and E
  by unfold_locales (rule kept_by_step)

lemma kept_by_start: "kept_by E cf (start now) (ledger_start now)"
  by (simp add: kept_by_def start_inv ledger_start_def store_get_def fun_eq_iff)
    (simp add: start_def is_revoked_def revoked_in_def)

section \<open>Properties\<close>



end
