(* ===== verification/Envelope_Laws.thy ===== *)
theory Envelope_Laws
  imports Envelope
begin

text \<open>
  What the envelope promises: the bytes of a token are the canonical encoding of its parts, so that a
  token cannot be altered without changing one of them; what is prepared for a signer assembles into
  a token that signs exactly what was prepared; and what is sealed verifies.
\<close>

section \<open>The bytes of an envelope\<close>

text \<open>The second element, \<open>{"h": header, tag: payload}\<close>, and the whole token.\<close>

definition element_bytes :: "byte list \<Rightarrow> str \<Rightarrow> byte list \<Rightarrow> byte list" where
  "element_bytes header t enc =
     head MAJOR_MAP 2 @ text_item (lit ''h'') @ bytes_item header @ text_item t @ enc"

definition token_bytes :: "byte list \<Rightarrow> byte list \<Rightarrow> byte list" where
  "token_bytes signature element = head MAJOR_ARRAY 2 @ bytes_item signature @ element"

lemma reads_pos: "reads rd enc rd' \<Longrightarrow> r_pos rd' = r_pos rd + length enc"
  by (auto simp: reads_def)

lemma reader_new_simps [simp]: "r_bytes (reader_new bs) = bs" "r_pos (reader_new bs) = 0"
  by (simp_all add: reader_new_def)

text \<open>The steps of a successful opening.\<close>

lemma open_steps:
  assumes "open_envelope L bs options = Ok (env, payload)"
  obtains sb rd1 rd2 rd3 rd4 rd5 t rd6 rd7 where
    "array_len (reader_new bs) = Ok (2, rd1)" "rd_bytes rd1 = Ok (sb, rd2)" "map_len rd2 = Ok (2, rd3)"
    "rd_text rd3 = Ok (lit ''h'', rd4)" "rd_bytes rd4 = Ok (header_encode (env_header env), rd5)"
    "rd_text rd5 = Ok (t, rd6)" "from_tag t options = Ok (env_kind env)" "rd_value L rd6 = Ok (payload, rd7)"
    "is_map payload" "r_pos rd7 = length (r_bytes rd7)"
    "signature_new (h_algorithm (env_header env)) sb = Ok (env_signature env)"
    "env_bytes env = bs" "env_cid env = of_dag_cbor L bs"
    "case h_encoding (env_header env) of
        DagCbor \<Rightarrow> env_signed env = SignedCbor (r_pos rd2) (r_pos rd7)
      | DagJson \<Rightarrow> \<exists>s. json_encode L (sig_payload (header_encode (env_header env)) t payload) = Ok s
          \<and> env_signed env = SignedJson (utf8 s)"
proof -
  let ?signed = "\<lambda>header start stop header_bytes t. case h_encoding header of
      DagCbor \<Rightarrow> Ok (SignedCbor start stop)
    | DagJson \<Rightarrow> map_ok (\<lambda>s. SignedJson (utf8 s))
        (map_err ECodec (json_encode L (sig_payload header_bytes t payload)))"
  from assms obtain rd1 sb rd2 rd3 rd4 header rd5 t rd6 rd7 u where
    "array_len (reader_new bs) = Ok (2, rd1)" "rd_bytes rd1 = Ok (sb, rd2)" "map_len rd2 = Ok (2, rd3)"
    "rd_text rd3 = Ok (lit ''h'', rd4)" "rd_bytes rd4 = Ok (header_encode header, rd5)"
    "rd_text rd5 = Ok (t, rd6)" "from_tag t options = Ok (env_kind env)" "rd_value L rd6 = Ok (payload, rd7)"
    "is_map payload" "reader_finish rd7 = Ok u"
    "signature_new (h_algorithm header) sb = Ok (env_signature env)"
    and signed: "?signed header (r_pos rd2) (r_pos rd7) (header_encode header) t = Ok (env_signed env)"
    and env: "env_bytes env = bs" "env_cid env = of_dag_cbor L bs" "env_header env = header"
    unfolding open_envelope_def Let_def
    by (auto simp only: res_bind_Ok map_err_Ok if_Err_Ok prod.case header_decode_iff prod.inject sum.inject
        simp_thms split_paired_Ex envelope.simps not_not)
  moreover have "case h_encoding header of
        DagCbor \<Rightarrow> env_signed env = SignedCbor (r_pos rd2) (r_pos rd7)
      | DagJson \<Rightarrow> \<exists>s. json_encode L (sig_payload (header_encode header) t payload) = Ok s
          \<and> env_signed env = SignedJson (utf8 s)"
    using signed by (cases "h_encoding header") (auto simp: map_ok_Ok)
  moreover have "r_pos rd7 = length (r_bytes rd7)"
    using \<open>reader_finish rd7 = Ok u\<close> by (simp add: reader_finish_def split: if_split_asm)
  ultimately show thesis unfolding env(3) [symmetric] using env(1,2) by (intro that)
qed

lemma open_form:
  assumes "open_envelope L bs options = Ok (env, payload)"
  shows "\<exists>t enc. bs = token_bytes (sig_bytes (env_signature env)) (element_bytes (header_encode (env_header env)) t enc)
    \<and> encode L payload = Ok enc \<and> is_map payload \<and> ipld_wf payload \<and> norm_zero payload = payload
    \<and> links_readable L payload
    \<and> from_tag t options = Ok (env_kind env) \<and> env_bytes env = bs \<and> env_cid env = of_dag_cbor L bs
    \<and> signature_new (h_algorithm (env_header env)) (sig_bytes (env_signature env)) = Ok (env_signature env)
    \<and> (case h_encoding (env_header env) of
          DagCbor \<Rightarrow> signed_bytes env = Some (element_bytes (header_encode (env_header env)) t enc)
        | DagJson \<Rightarrow> \<exists>s. json_encode L (sig_payload (header_encode (env_header env)) t payload) = Ok s
            \<and> signed_bytes env = Some (utf8 s))"
proof -
  let ?hb = "header_encode (env_header env)"
  from assms obtain sb rd1 rd2 rd3 rd4 rd5 t rd6 rd7 where steps:
    "array_len (reader_new bs) = Ok (2, rd1)" "rd_bytes rd1 = Ok (sb, rd2)" "map_len rd2 = Ok (2, rd3)"
    "rd_text rd3 = Ok (lit ''h'', rd4)" "rd_bytes rd4 = Ok (?hb, rd5)"
    "rd_text rd5 = Ok (t, rd6)" "from_tag t options = Ok (env_kind env)" "rd_value L rd6 = Ok (payload, rd7)"
    "is_map payload" "r_pos rd7 = length (r_bytes rd7)"
    "signature_new (h_algorithm (env_header env)) sb = Ok (env_signature env)"
    "env_bytes env = bs" "env_cid env = of_dag_cbor L bs"
    and signed: "case h_encoding (env_header env) of
        DagCbor \<Rightarrow> env_signed env = SignedCbor (r_pos rd2) (r_pos rd7)
      | DagJson \<Rightarrow> \<exists>s. json_encode L (sig_payload ?hb t payload) = Ok s \<and> env_signed env = SignedJson (utf8 s)"
    by (rule open_steps)
  from rd_item_D [OF steps(8) [unfolded rd_value_def]] obtain enc
    where enc: "cbor_item L 0 payload = Ok enc" "reads rd6 enc rd7" "ipld_wf payload" "norm_zero payload = payload"
      "links_readable L payload"
    by blast
  let ?el = "element_bytes ?hb t enc"
  have r12: "reads (reader_new bs) (head MAJOR_ARRAY 2 @ bytes_item sb) rd2"
    using array_len_D [OF steps(1)] rd_bytes_D [OF steps(2)] by (auto simp: reads_append)
  have "reads rd2 ?el rd7"
    using map_len_D [OF steps(3)] rd_text_D [OF steps(4)] rd_bytes_D [OF steps(5)] rd_text_D [OF steps(6)] enc(2)
    unfolding element_bytes_def reads_append by auto
  with r12 have all: "reads (reader_new bs) ((head MAJOR_ARRAY 2 @ bytes_item sb) @ ?el) rd7"
    unfolding reads_append by blast
  have "r_bytes rd7 = bs" using reads_bytes [OF all] by simp
  with reads_whole [OF all] steps(10) have bs: "bs = token_bytes sb ?el" by (simp add: token_bytes_def)
  have sb: "sb = sig_bytes (env_signature env)" using steps(11) by (auto simp: signature_new_Ok)
  have "r_pos rd2 = length (head MAJOR_ARRAY 2 @ bytes_item sb)" using reads_pos [OF r12] by simp
  moreover have "r_pos rd7 = length bs" using steps(10) \<open>r_bytes rd7 = bs\<close> by simp
  ultimately have "slice_get (r_pos rd2) (r_pos rd7) bs = Some ?el"
    unfolding bs token_bytes_def append_assoc [symmetric] by (simp only: slice_get_suffix)
  with signed steps(12) have "case h_encoding (env_header env) of DagCbor \<Rightarrow> signed_bytes env = Some ?el
      | DagJson \<Rightarrow> \<exists>s. json_encode L (sig_payload ?hb t payload) = Ok s \<and> signed_bytes env = Some (utf8 s)"
    by (cases "h_encoding (env_header env)") (auto simp: signed_bytes_def)
  with bs sb enc steps show ?thesis by (intro exI [of _ t] exI [of _ enc]) (simp add: encode_eq)
qed

section \<open>Opening what has that form\<close>

lemma res_bind_return: "res_bind m (\<lambda>x. Ok (f x)) = map_ok f m"
  by (cases m) simp_all

lemma is_map_norm_zero [simp]: "is_map (norm_zero v) \<longleftrightarrow> is_map v"
  by (cases v) (simp_all add: is_map_def)

lemma open_I:
  fixes h :: header
  assumes enc: "encode L payload = Ok enc" "is_map payload" "ipld_wf payload" "links_readable L payload"
    and parts: "length sb = signature_len (h_algorithm h)" "from_tag t options = Ok k"
    and bs: "bs = token_bytes sb (element_bytes (header_encode h) t enc)" "length bs \<le> usize_max"
  shows "open_envelope L bs options =
    map_ok (\<lambda>signed.
      (\<lparr>env_bytes = bs, env_cid = of_dag_cbor L bs, env_header = h,
        env_signature = \<lparr>sig_algorithm = h_algorithm h, sig_bytes = sb\<rparr>, env_signed = signed, env_kind = k\<rparr>,
       norm_zero payload))
     (case h_encoding h of
        DagCbor \<Rightarrow> Ok (SignedCbor (length (head MAJOR_ARRAY 2 @ bytes_item sb)) (length bs))
      | DagJson \<Rightarrow> map_ok (\<lambda>s. SignedJson (utf8 s))
          (map_err ECodec (json_encode L (sig_payload (header_encode h) t (norm_zero payload)))))"
proof -
  let ?rd = "\<lparr>r_bytes = bs, r_pos = length bs\<rparr>"
  have "reads (reader_new bs) bs ?rd" using reads_new [of bs "[]"] by simp
  then obtain rd1 rd2 rd3 rd4 rd5 rd6 where r:
    "reads (reader_new bs) (head MAJOR_ARRAY 2) rd1" "reads rd1 (bytes_item sb) rd2"
    "reads rd2 (head MAJOR_MAP 2) rd3" "reads rd3 (text_item (lit ''h'')) rd4"
    "reads rd4 (bytes_item (header_encode h)) rd5" "reads rd5 (text_item t) rd6" "reads rd6 enc ?rd"
    unfolding bs(1) token_bytes_def element_bytes_def reads_append by blast
  have a0: "addressable (reader_new bs)" using bs(2) by (simp add: addressable_def)
  note a1 = a0 [folded reads_addressable [OF r(1)]] note a2 = a1 [folded reads_addressable [OF r(2)]]
  note a3 = a2 [folded reads_addressable [OF r(3)]] note a4 = a3 [folded reads_addressable [OF r(4)]]
  note a5 = a4 [folded reads_addressable [OF r(5)]] note a6 = a5 [folded reads_addressable [OF r(6)]]
  have steps: "array_len (reader_new bs) = Ok (2, rd1)" "rd_bytes rd1 = Ok (sb, rd2)" "map_len rd2 = Ok (2, rd3)"
    "rd_text rd3 = Ok (lit ''h'', rd4)" "rd_bytes rd4 = Ok (header_encode h, rd5)" "rd_text rd5 = Ok (t, rd6)"
    "rd_value L rd6 = Ok (norm_zero payload, ?rd)"
    using array_len_I [OF a0, of 2 rd1] map_len_I [OF a2, of 2 rd3] r
      rd_bytes_I [OF a1] rd_text_I [OF a3] rd_bytes_I [OF a4] rd_text_I [OF a5]
      rd_item_I [OF enc(1) [unfolded encode_eq] a6 r(7) enc(3,4)]
    by (simp_all add: rd_value_def)
  have pos: "r_pos rd2 = length (head MAJOR_ARRAY 2 @ bytes_item sb)" using reads_pos [OF r(1)] reads_pos [OF r(2)] by simp
  have header: "header_decode (header_encode h) = Ok h" by (simp add: header_decode_iff)
  show ?thesis
    using enc(2) parts pos
    by (simp add: open_envelope_def steps header Let_def reader_finish_def signature_new_def res_bind_return
        del: lit_Cons split: encoding.split)
qed

section \<open>Preparing\<close>

text \<open>An item that fits at some depth is the same bytes at any smaller one.\<close>

lemma res_map_mono:
  "res_map f xs = Ok ys \<Longrightarrow> (\<And>x y. x \<in> set xs \<Longrightarrow> f x = Ok y \<Longrightarrow> g x = Ok y) \<Longrightarrow> res_map g xs = Ok ys"
  by (induction xs arbitrary: ys) (auto simp: res_bind_Ok)

lemmas cbor_leaf = cbor_item.simps [of L d INull for L d] cbor_item.simps [of L d "IBool x" for L d x]
  cbor_item.simps [of L d "IInteger x" for L d x] cbor_item.simps [of L d "IFloat x" for L d x]
  cbor_item.simps [of L d "IString x" for L d x] cbor_item.simps [of L d "IBytes x" for L d x]
  cbor_item.simps [of L d "ILink x" for L d x]

lemma cbor_item_less_deep: "cbor_item L d v = Ok enc \<Longrightarrow> d' \<le> d \<Longrightarrow> cbor_item L d' v = Ok enc"
proof (induction v arbitrary: d d' enc)
  case (IList vs)
  from IList.prems(1) [unfolded cbor_item.simps [of L d "IList vs"]]
  obtain bs where bs: "d \<le> MAX_DEPTH" "res_map (\<lambda>entry. cbor_item L (d + 1) entry) vs = Ok bs"
    "enc = head MAJOR_ARRAY (of_nat (length vs)) @ concat bs"
    by (auto simp: map_ok_Ok split: if_split_asm)
  have "res_map (\<lambda>entry. cbor_item L (d' + 1) entry) vs = Ok bs"
    using bs(2) by (rule res_map_mono) (erule (1) IList.IH, use IList.prems(2) in simp)
  with bs IList.prems(2) show ?case by (simp add: cbor_item.simps [of L d' "IList vs"])
next
  case (IMap m)
  let ?f = "\<lambda>d e. map_ok (\<lambda>bs. text_item (fst e) @ bs) (cbor_item L (d + 1) (snd e))"
  from IMap.prems(1) [unfolded cbor_item.simps [of L d "IMap m"]]
  obtain bs where bs: "d \<le> MAX_DEPTH" "res_map (?f d) (sort_entries m) = Ok bs"
    "enc = head MAJOR_MAP (of_nat (length m)) @ concat bs"
    by (auto simp: map_ok_Ok split: if_split_asm)
  have "res_map (?f d') (sort_entries m) = Ok bs"
  proof (rule res_map_mono [OF bs(2)])
    fix e y
    assume e: "e \<in> set (sort_entries m)" "?f d e = Ok y"
    then obtain b where b: "cbor_item L (d + 1) (snd e) = Ok b" "y = text_item (fst e) @ b" by (auto simp: map_ok_Ok)
    have "cbor_item L (d' + 1) (snd e) = Ok b"
      using IMap.IH [of e "snd e" "d + 1" b "d' + 1"] IMap.prems(2) e(1) b(1) by (cases e) simp
    with b(2) show "?f d' e = Ok y" by simp
  qed
  with bs IMap.prems(2) show ?case by (simp add: cbor_item.simps [of L d' "IMap m"])
qed (simp_all add: cbor_leaf split: if_split_asm)

lemma tag_cases: "from_tag t options = Ok k \<Longrightarrow> \<exists>r. t = ascii CHR ''u'' # r \<and> 1 < str_len t"
  by (auto simp: from_tag_def str_len_def utf8_char_ascii split: if_split_asm)

lemma sig_payload_entries:
  "from_tag t options = Ok k \<Longrightarrow> sig_payload hb t payload = IMap [(lit ''h'', IBytes hb), (t, payload)]"
  by (auto simp: sig_payload_def ascii_less_iff dest!: tag_cases)

lemma encode_sig_payload:
  assumes "from_tag t options = Ok k"
  shows "encode L (sig_payload hb t payload) = map_ok (element_bytes hb t) (cbor_item L 1 payload)"
proof -
  have "sort_entries [(lit ''h'', IBytes hb), (t, payload)] = [(lit ''h'', IBytes hb), (t, payload)]"
    using tag_cases [OF assms] by (auto simp: sort_entries_def entry_key_def str_len_def utf8_char_ascii)
  then show ?thesis
    by (cases "cbor_item L 1 payload")
      (simp_all add: encode_eq sig_payload_entries [OF assms] cbor_item.simps [of L 0] cbor_item.simps [of L "Suc 0" "IBytes hb"]
        MAX_DEPTH_def element_bytes_def del: lit_Cons)
qed

lemma from_tag_STRICT: "from_tag t STRICT = Ok k \<longleftrightarrow> t = tag k"
  by (cases k) (auto simp: from_tag_def STRICT_def)

lemma prepare_form:
  assumes "prepare_envelope L h k payload = Ok u"
  obtains enc where "encode L payload = Ok enc"
    "encode L (sig_payload (header_encode h) (tag k) payload) = Ok (us_sig_payload u)"
    "us_sig_payload u = element_bytes (header_encode h) (tag k) enc"
    "case h_encoding h of DagCbor \<Rightarrow> us_signing u = us_sig_payload u
      | DagJson \<Rightarrow> \<exists>s. json_encode L (sig_payload (header_encode h) (tag k) payload) = Ok s \<and> us_signing u = utf8 s"
proof -
  let ?v = "sig_payload (header_encode h) (tag k) payload"
  from assms have el: "encode L ?v = Ok (us_sig_payload u)"
    and signing: "case h_encoding h of DagCbor \<Rightarrow> us_signing u = us_sig_payload u
      | DagJson \<Rightarrow> \<exists>s. json_encode L ?v = Ok s \<and> us_signing u = utf8 s"
    by (cases "h_encoding h"; auto simp: prepare_envelope_def Let_def res_bind_Ok map_ok_Ok)+
  have "from_tag (tag k) STRICT = Ok k" by (simp add: from_tag_STRICT)
  from el [unfolded encode_sig_payload [OF this]] obtain enc where enc: "cbor_item L 1 payload = Ok enc"
    "us_sig_payload u = element_bytes (header_encode h) (tag k) enc" by (auto simp: map_ok_Ok)
  from cbor_item_less_deep [OF enc(1), of 0] have "encode L payload = Ok enc" by (simp add: encode_eq)
  with el enc(2) signing show thesis by (intro that)
qed

section \<open>Assembling\<close>

lemma element_first: "\<exists>r. element_bytes hb t enc = 0xA2 # r"
  by (simp add: element_bytes_def head_def majors)

lemma assemble_element:
  "assemble_envelope L (element_bytes hb t enc) sb = open_envelope L (token_bytes sb (element_bytes hb t enc)) STRICT"
proof -
  obtain r where "element_bytes hb t enc = 0xA2 # r" using element_first by blast
  then show ?thesis by (simp add: assemble_envelope_def token_bytes_def majors)
qed

lemma json_encode_map_first: "json_encode L (IMap m) = Ok s \<Longrightarrow> \<exists>r. s = open_brace # r"
  by (auto simp: json_encode_def json_item.simps [of L 0] res_simps Let_def split: if_split_asm)

text \<open>The text a text signer signed stands for the element it was prepared with.\<close>

lemma assemble_text:
  assumes "json_encode L v = Ok s" "v = IMap m" "json_fit L 0 v" "encode L v = Ok el" "el = element_bytes hb t enc"
  shows "assemble_envelope L (utf8 s) sb = assemble_envelope L el sb"
proof -
  from json_encode_map_first [OF assms(1) [unfolded assms(2)]] obtain r where "s = open_brace # r" by blast
  then have first: "utf8 s = 0x7B # utf8 r" by (simp add: utf8_char_ascii)
  have "json_decode L (utf8 s) = Ok v" using assms(1,3) by (rule json_decode_of_encode)
  then show ?thesis unfolding assms(5) assemble_element using assms(4,5) unfolding first
    by (simp add: assemble_envelope_def token_bytes_def majors)
qed

lemma prepared:
  assumes "prepare_envelope L h k payload = Ok u"
    and "is_map payload" "ipld_wf payload" "links_readable L payload" "norm_zero payload = payload"
    and "length sb = signature_len (h_algorithm h)" "length (token_bytes sb (us_sig_payload u)) \<le> usize_max"
  shows "\<exists>env. assemble_envelope L (us_sig_payload u) sb = Ok (env, payload)
    \<and> env_bytes env = token_bytes sb (us_sig_payload u) \<and> open_envelope L (env_bytes env) STRICT = Ok (env, payload)
    \<and> signed_bytes env = Some (us_signing u) \<and> env_header env = h \<and> env_kind env = k
    \<and> env_signature env = \<lparr>sig_algorithm = h_algorithm h, sig_bytes = sb\<rparr>"
proof -
  let ?hb = "header_encode h"
  from assms(1) obtain enc where enc: "encode L payload = Ok enc" "us_sig_payload u = element_bytes ?hb (tag k) enc"
    and signing: "case h_encoding h of DagCbor \<Rightarrow> us_signing u = us_sig_payload u
      | DagJson \<Rightarrow> \<exists>s. json_encode L (sig_payload ?hb (tag k) payload) = Ok s \<and> us_signing u = utf8 s"
    by (rule prepare_form)
  have tag: "from_tag (tag k) STRICT = Ok k" by (simp add: from_tag_STRICT)
  have open': "open_envelope L (token_bytes sb (us_sig_payload u)) STRICT = map_ok (\<lambda>signed.
      (\<lparr>env_bytes = token_bytes sb (us_sig_payload u), env_cid = of_dag_cbor L (token_bytes sb (us_sig_payload u)),
        env_header = h, env_signature = \<lparr>sig_algorithm = h_algorithm h, sig_bytes = sb\<rparr>, env_signed = signed,
        env_kind = k\<rparr>, payload))
     (case h_encoding h of
        DagCbor \<Rightarrow> Ok (SignedCbor (length (head MAJOR_ARRAY 2 @ bytes_item sb)) (length (token_bytes sb (us_sig_payload u))))
      | DagJson \<Rightarrow> map_ok (\<lambda>s. SignedJson (utf8 s)) (map_err ECodec (json_encode L (sig_payload ?hb (tag k) payload))))"
    by (rule open_I [OF enc(1) assms(2-4,6) tag _ assms(7), unfolded assms(5)]) (simp add: enc(2))
  have slice: "slice_get (length (head MAJOR_ARRAY 2 @ bytes_item sb)) (length (token_bytes sb el)) (token_bytes sb el) = Some el" for el
    unfolding token_bytes_def append_assoc [symmetric] by (rule slice_get_suffix)
  have assemble: "assemble_envelope L (us_sig_payload u) sb = open_envelope L (token_bytes sb (us_sig_payload u)) STRICT"
    unfolding enc(2) by (rule assemble_element)
  show ?thesis
  proof (cases "h_encoding h")
    case DagCbor
    with open' assemble signing show ?thesis by (simp add: signed_bytes_def slice [simplified])
  next
    case DagJson
    with open' assemble signing show ?thesis by (auto simp: signed_bytes_def)
  qed
qed

section \<open>Sealing\<close>

text \<open>
  What a \<open>Signer\<close> promises: the signatures it produces have the length of its algorithm and verify under
  its key.
\<close>

definition faithful_signer :: "'s crypto_lib \<Rightarrow> signer \<Rightarrow> bool" where
  "faithful_signer K signer \<longleftrightarrow> (\<forall>message s. sg_sign signer message = Ok s \<longrightarrow>
     length (sig_bytes s) = signature_len (pk_algorithm (sg_public_key signer))
     \<and> key_verify K (sg_public_key signer) message s = Ok ())"

text \<open>The Ed25519 signer keeps it when the backend verifies what it signs.\<close>

definition ed25519_backend_ok :: "'s crypto_lib \<Rightarrow> 's \<Rightarrow> bool" where
  "ed25519_backend_ok K s \<longleftrightarrow> feature_ed25519 K
     \<and> length (ed_public K s) = 32 \<and> ed_key_parses K (ed_public K s)
     \<and> (\<forall>m. ed_signature_parses K (ed_raw_sign K s m) \<and> ed_verifies K (ed_public K s) m (ed_raw_sign K s m))"

lemma ed25519_wrap_key:
  "ed25519_backend_ok K s \<Longrightarrow>
    public_key_new K Ed25519 (ed_public K s) = Ok (kp_public (ed25519_wrap K s))"
  by (simp add: ed25519_wrap_def keypair_of_def public_key_new_Ok ed25519_backend_ok_def
      backend_key_is_valid_def ed25519_key_is_valid_def public_key_new_def)

lemma ed25519_faithful: "ed25519_backend_ok K s \<Longrightarrow> faithful_signer K (ed25519_signer L K (ed25519_wrap K s))"
  using ed25519_wrap_key [of K s]
  by (auto simp: faithful_signer_def ed25519_signer_def signer_of_def ed25519_sign_def signature_new_Ok
      public_key_new_Ok key_verify_def backend_verify_def ed25519_verify_def ed25519_backend_ok_def)
    (simp_all add: ed25519_wrap_def keypair_of_def)

lemma sealed:
  assumes "seal L signer k payload = Ok env"
    and "is_map payload" "ipld_wf payload" "links_readable L payload" "norm_zero payload = payload"
    and "length (env_bytes env) \<le> usize_max" "faithful_signer K signer"
  shows "verify_envelope K env (sg_public_key signer) = Ok ()
    \<and> open_envelope L (env_bytes env) STRICT = Ok (env, payload) \<and> env_kind env = k"
proof -
  let ?h = "header_new (pk_algorithm (sg_public_key signer))"
  from assms(1) obtain u sg p where u: "prepare_envelope L ?h k payload = Ok u" "sg_sign signer (us_signing u) = Ok sg"
    "assemble_envelope L (us_sig_payload u) (sig_bytes sg) = Ok (env, p)"
    by (auto simp: seal_def res_simps)
  from u(1) obtain enc where el: "us_sig_payload u = element_bytes (header_encode ?h) (tag k) enc" by (rule prepare_form)
  have "open_envelope L (token_bytes (sig_bytes sg) (us_sig_payload u)) STRICT = Ok (env, p)"
    using u(3) unfolding el assemble_element .
  from open_form [OF this] assms(6) have fits: "length (token_bytes (sig_bytes sg) (us_sig_payload u)) \<le> usize_max" by auto
  have sg: "length (sig_bytes sg) = signature_len (h_algorithm ?h)" "key_verify K (sg_public_key signer) (us_signing u) sg = Ok ()"
    using assms(7) u(2) by (simp_all add: faithful_signer_def header_new_def)
  have "sig_algorithm sg = h_algorithm ?h" using key_verify_Ok [OF sg(2)] by (simp add: header_new_def)
  then have "sg = \<lparr>sig_algorithm = h_algorithm ?h, sig_bytes = sig_bytes sg\<rparr>" by (cases sg) simp
  with prepared [OF u(1) assms(2-5) sg(1) fits] u(3) sg(2) show ?thesis
    by (auto simp: verify_envelope_def header_new_def)
qed

section \<open>A sample signer\<close>

definition sample_signer :: "byte \<Rightarrow> signer" where
  "sample_signer b = ed25519_signer sample_lib sample_crypto (ed25519_wrap sample_crypto (replicate 32 b))"

lemma sample_backend_ok: "ed25519_backend_ok sample_crypto (replicate 32 b)"
  by (simp add: ed25519_backend_ok_def sample_crypto_def)

lemma sample_signer_faithful: "faithful_signer sample_crypto (sample_signer b)"
  unfolding sample_signer_def by (rule ed25519_faithful [OF sample_backend_ok])

lemma sample_wrap: "kp_public (ed25519_wrap sample_crypto (replicate 32 b)) = sample_key b"
proof -
  have "ed_public sample_crypto (replicate 32 b) = replicate 32 b" by (simp add: sample_crypto_def)
  with ed25519_wrap_key [OF sample_backend_ok, of b] sample_key_new [of b] show ?thesis by simp
qed

lemma sample_signer_simps [simp]:
  "sg_public_key (sample_signer b) = sample_key b" "sg_did (sample_signer b) = sample_did b"
  "pk_algorithm (sample_key b) = Ed25519"
  by (simp_all add: sample_signer_def ed25519_signer_def signer_of_def sample_wrap sample_did_def)
    (simp add: sample_key_def)

lemma sample_signer_signs: "\<exists>s. sg_sign (sample_signer b) message = Ok s \<and> length (sig_bytes s) = 64"
  by (simp add: sample_signer_def ed25519_signer_def signer_of_def ed25519_sign_def signature_new_def
      sample_crypto_def sample_sign_def ed25519_wrap_def keypair_of_def)

lemma length_head: "length (head m arg) \<le> 9"
  by (simp add: head_def Let_def)

lemma length_token_bytes: "length (token_bytes sb el) \<le> 18 + length sb + length el"
  using length_head [of MAJOR_ARRAY 2] length_head [of MAJOR_BYTES "of_nat (length sb)"]
  by (simp add: token_bytes_def bytes_item_def)

text \<open>What can be prepared, the sample signer seals.\<close>

lemma sample_seals:
  assumes "prepare_envelope sample_lib (header_new Ed25519) k payload = Ok u"
    and "is_map payload" "ipld_wf payload" "links_readable sample_lib payload" "norm_zero payload = payload"
    and "length (us_sig_payload u) < 2 ^ 32"
  shows "\<exists>env. seal sample_lib (sample_signer b) k payload = Ok env \<and> length (env_bytes env) \<le> usize_max"
proof -
  obtain s where s: "sg_sign (sample_signer b) (us_signing u) = Ok s" "length (sig_bytes s) = 64"
    using sample_signer_signs by blast
  have fits: "length (token_bytes (sig_bytes s) (us_sig_payload u)) \<le> usize_max"
    using length_token_bytes [of "sig_bytes s" "us_sig_payload u"] s(2) assms(6) by (simp add: usize_max_def)
  have "length (sig_bytes s) = signature_len (h_algorithm (header_new Ed25519))" using s(2) by (simp add: header_new_def)
  from prepared [OF assms(1-5) this fits] assms(1) s(1) fits show ?thesis
    by (auto simp: seal_def)
qed

lemma sample_prepares:
  "prepare_envelope sample_lib (header_new Ed25519) k (IMap []) =
    Ok \<lparr>us_signing = element_bytes (header_encode (header_new Ed25519)) (tag k) [0xA0],
       us_sig_payload = element_bytes (header_encode (header_new Ed25519)) (tag k) [0xA0]\<rparr>"
  using encode_sig_payload [of "tag k" STRICT k sample_lib]
  by (simp add: prepare_envelope_def from_tag_STRICT header_new_def cbor_item.simps MAX_DEPTH_def sort_entries_def
      head_def majors Let_def)

lemma length_element_bytes:
  "length (element_bytes hb t enc) \<le> 37 + length hb + str_len t + length enc"
  using length_head [of MAJOR_MAP 2] length_head [of MAJOR_TEXT 1] length_head [of MAJOR_BYTES "of_nat (length hb)"]
    length_head [of MAJOR_TEXT "of_nat (str_len t)"]
  by (simp add: element_bytes_def bytes_item_def text_item_def str_len_def utf8_char_ascii)

lemma length_sample_header: "length (header_encode (header_new Ed25519)) \<le> 100"
  by (simp add: header_encode_def header_new_def varsig_codes put_uvarint.simps Let_def)

lemma str_len_tag [simp]: "str_len (tag k) = 14"
  by (cases k) (simp_all add: str_len_def utf8_char_ascii)

lemma sample_sealed:
  "\<exists>env. seal sample_lib (sample_signer b) k (IMap []) = Ok env
    \<and> open_envelope sample_lib (env_bytes env) STRICT = Ok (env, IMap []) \<and> env_kind env = k"
proof -
  have payload: "is_map (IMap [] :: byte list ipld)" "ipld_wf (IMap [] :: byte list ipld)"
    "links_readable sample_lib (IMap [])" "norm_zero (IMap []) = (IMap [] :: byte list ipld)"
    by (simp_all add: is_map_def links_readable_def link_readable_def)
  have "length (element_bytes (header_encode (header_new Ed25519)) (tag k) [0xA0]) < 2 ^ 32"
    using length_element_bytes [of "header_encode (header_new Ed25519)" "tag k" "[0xA0]"] length_sample_header by simp
  with sample_seals [OF sample_prepares payload] obtain env
    where env: "seal sample_lib (sample_signer b) k (IMap []) = Ok env" "length (env_bytes env) \<le> usize_max" by auto
  from sealed [OF env(1) payload env(2) sample_signer_faithful] env(1) show ?thesis by blast
qed

section \<open>Properties\<close>

text \<open>
  C31. What \<open>open\<close> accepts is the canonical encoding of \<open>[signature, {"h": header, tag: payload}]\<close>, and
  nothing else is in the bytes: the signature has its algorithm's length, the identifier is the CID
  of the whole, and what \<open>verify\<close> will check the signature over is the second element exactly as it was
  received, or its DAG-JSON text when the header says so.
\<close>

theorem open_envelope_form:
  assumes "open_envelope L bs options = Ok (env, payload)"
  shows "\<exists>t enc. bs = token_bytes (sig_bytes (env_signature env)) (element_bytes (header_encode (env_header env)) t enc)
    \<and> encode L payload = Ok enc \<and> is_map payload \<and> ipld_wf payload \<and> norm_zero payload = payload
    \<and> links_readable L payload
    \<and> from_tag t options = Ok (env_kind env) \<and> env_bytes env = bs \<and> env_cid env = of_dag_cbor L bs
    \<and> signature_new (h_algorithm (env_header env)) (sig_bytes (env_signature env)) = Ok (env_signature env)
    \<and> (case h_encoding (env_header env) of
          DagCbor \<Rightarrow> signed_bytes env = Some (element_bytes (header_encode (env_header env)) t enc)
        | DagJson \<Rightarrow> \<exists>s. json_encode L (sig_payload (header_encode (env_header env)) t payload) = Ok s
            \<and> signed_bytes env = Some (utf8 s))"
  by (rule open_form [OF assms])

theorem open_envelope_form_witness:
  "\<exists>env. seal sample_lib (sample_signer 7) Invocation (IMap []) = Ok env \<and> env_cid env = of_dag_cbor sample_lib (env_bytes env)
    \<and> length (sig_bytes (env_signature env)) = signature_len (h_algorithm (env_header env))"
proof -
  from sample_sealed [of 7 Invocation] obtain env where "seal sample_lib (sample_signer 7) Invocation (IMap []) = Ok env"
    and opened: "open_envelope sample_lib (env_bytes env) STRICT = Ok (env, IMap [])" by blast
  with open_envelope_form [OF opened] show ?thesis by (auto simp: signature_new_Ok)
qed

text \<open>
  C32. Under the strict rules no token has two encodings: two accepted byte strings that agree in header,
  signature, kind and payload are the same bytes, so an altered copy of a token is another token.
\<close>

theorem tokens_not_malleable:
  assumes "open_envelope L bs STRICT = Ok (env, payload)" "open_envelope L bs' STRICT = Ok (env', payload)"
    and "env_header env = env_header env'" "env_signature env = env_signature env'" "env_kind env = env_kind env'"
  shows "bs = bs' \<and> env_cid env = env_cid env'"
  using open_form [OF assms(1)] open_form [OF assms(2)] assms(3-5) by (auto simp: from_tag_STRICT)

theorem tokens_not_malleable_witness:
  "\<exists>env. seal sample_lib (sample_signer 7) Delegation (IMap []) = Ok env \<and>
    (\<forall>bs. open_envelope sample_lib bs STRICT = Ok (env, IMap []) \<longleftrightarrow> bs = env_bytes env)"
proof -
  from sample_sealed [of 7 Delegation] obtain env where "seal sample_lib (sample_signer 7) Delegation (IMap []) = Ok env"
    and opened: "open_envelope sample_lib (env_bytes env) STRICT = Ok (env, IMap [])" by blast
  with tokens_not_malleable [OF _ opened refl refl refl] show ?thesis by blast
qed

text \<open>
  C33. What \<open>prepare\<close> gives a signer assembles, with a signature of the right length, into a token of the
  same header, kind and payload whose signed bytes are exactly the signing bytes handed out. A text
  signer may pass back the DAG-JSON text it signed instead of the element, provided the text can be
  read back.
\<close>

theorem prepared_assembles:
  assumes "prepare_envelope L h k payload = Ok u"
    and "is_map payload" "ipld_wf payload" "links_readable L payload" "norm_zero payload = payload"
    and "length sb = signature_len (h_algorithm h)" "length (token_bytes sb (us_sig_payload u)) \<le> usize_max"
    and "h_encoding h = DagJson \<Longrightarrow> json_fit L 0 (sig_payload (header_encode h) (tag k) payload)"
  shows "\<exists>env. assemble_envelope L (us_sig_payload u) sb = Ok (env, payload)
    \<and> assemble_envelope L (us_signing u) sb = Ok (env, payload)
    \<and> signed_bytes env = Some (us_signing u) \<and> env_header env = h \<and> env_kind env = k
    \<and> sig_bytes (env_signature env) = sb"
proof -
  let ?v = "sig_payload (header_encode h) (tag k) payload"
  from assms(1) obtain enc where u: "encode L ?v = Ok (us_sig_payload u)"
    "us_sig_payload u = element_bytes (header_encode h) (tag k) enc"
    "case h_encoding h of DagCbor \<Rightarrow> us_signing u = us_sig_payload u
      | DagJson \<Rightarrow> \<exists>s. json_encode L ?v = Ok s \<and> us_signing u = utf8 s"
    by (rule prepare_form)
  have "assemble_envelope L (us_signing u) sb = assemble_envelope L (us_sig_payload u) sb"
  proof (cases "h_encoding h")
    case DagJson
    with u(3) obtain s where "json_encode L ?v = Ok s" "us_signing u = utf8 s" by auto
    with assemble_text [OF this(1) _ assms(8) [OF DagJson] u(1,2)] show ?thesis by (simp add: sig_payload_def)
  qed (use u(3) in simp)
  with prepared [OF assms(1-7)] show ?thesis by auto
qed

theorem prepared_assembles_witness:
  "\<exists>env. assemble_envelope sample_lib (element_bytes (header_encode (header_new Ed25519)) (tag Invocation) [0xA0])
      (replicate 64 9) = Ok (env, IMap [])
    \<and> signed_bytes env = Some (element_bytes (header_encode (header_new Ed25519)) (tag Invocation) [0xA0])"
proof -
  let ?el = "element_bytes (header_encode (header_new Ed25519)) (tag Invocation) [0xA0]"
  have "length (token_bytes (replicate 64 9) ?el) \<le> usize_max"
    using length_token_bytes [of "replicate 64 9" ?el] length_sample_header
      length_element_bytes [of "header_encode (header_new Ed25519)" "tag Invocation" "[0xA0]"]
    by (simp add: usize_max_def del: tag.simps)
  then show ?thesis
    using prepared_assembles [OF sample_prepares [of Invocation], of "replicate 64 9"]
    by (auto simp: header_new_def is_map_def links_readable_def link_readable_def simp del: tag.simps)
qed

end
