(* ===== verification/Keys.thy ===== *)
theory Keys
  imports Envelope_Laws
begin

text \<open>
  Key pairs of the four backends: \<open>generate\<close>, \<open>from_seed\<close>, \<open>from_bytes\<close> and their inverses, and what each
  backend has to promise so that the crate's signer for it is faithful.
\<close>

section \<open>Making keys\<close>

text \<open>
  The backends' key constructors. Those that take a random generator thread its state; the ML-DSA backend
  draws from the system, so what it returned is an argument of \<open>ml_dsa_generate\<close>.
\<close>

record ('s, 'r) key_lib =
  ed_generate :: "'r \<Rightarrow> 's \<times> 'r"
  ed_from_bytes :: "byte list \<Rightarrow> 's"
  ed_to_bytes :: "'s \<Rightarrow> byte list"
  p256_generate_from_rng :: "'r \<Rightarrow> 's \<times> 'r"
  p256_from_slice :: "byte list \<Rightarrow> 's option"
  p256_scalar :: "'s \<Rightarrow> byte list"
  k256_generate_from_rng :: "'r \<Rightarrow> 's \<times> 'r"
  k256_from_slice :: "byte list \<Rightarrow> 's option"
  k256_scalar :: "'s \<Rightarrow> byte list"
  mldsa_from_seed :: "algorithm \<Rightarrow> byte list \<Rightarrow> 's option"

definition ed25519_generate :: "'s crypto_lib \<Rightarrow> ('s, 'r) key_lib \<Rightarrow> 'r \<Rightarrow> 's keypair \<times> 'r" where
  "ed25519_generate K G rng = (let (signing, rng) = ed_generate G rng in (ed25519_wrap K signing, rng))"

definition ed25519_from_seed :: "'s crypto_lib \<Rightarrow> ('s, 'r) key_lib \<Rightarrow> byte list \<Rightarrow> 's keypair" where
  "ed25519_from_seed K G seed = ed25519_wrap K (ed_from_bytes G seed)"

definition ed25519_to_seed :: "('s, 'r) key_lib \<Rightarrow> 's keypair \<Rightarrow> byte list" where
  "ed25519_to_seed G kp = ed_to_bytes G (kp_signing kp)"

definition p256_generate :: "'s crypto_lib \<Rightarrow> ('s, 'r) key_lib \<Rightarrow> 'r \<Rightarrow> 's keypair \<times> 'r" where
  "p256_generate K G rng = (let (signing, rng) = p256_generate_from_rng G rng in (p256_wrap K signing, rng))"

definition p256_from_bytes :: "'s crypto_lib \<Rightarrow> ('s, 'r) key_lib \<Rightarrow> byte list \<Rightarrow> crypto_error + 's keypair" where
  "p256_from_bytes K G bs = map_ok (p256_wrap K) (ok_or (InvalidKey P256) (p256_from_slice G bs))"

definition p256_to_bytes :: "('s, 'r) key_lib \<Rightarrow> 's keypair \<Rightarrow> byte list" where
  "p256_to_bytes G kp = p256_scalar G (kp_signing kp)"

definition secp256k1_generate :: "'s crypto_lib \<Rightarrow> ('s, 'r) key_lib \<Rightarrow> 'r \<Rightarrow> 's keypair \<times> 'r" where
  "secp256k1_generate K G rng = (let (signing, rng) = k256_generate_from_rng G rng in (secp256k1_wrap K signing, rng))"

definition secp256k1_from_bytes :: "'s crypto_lib \<Rightarrow> ('s, 'r) key_lib \<Rightarrow> byte list \<Rightarrow> crypto_error + 's keypair" where
  "secp256k1_from_bytes K G bs = map_ok (secp256k1_wrap K) (ok_or (InvalidKey Secp256k1) (k256_from_slice G bs))"

definition secp256k1_to_bytes :: "('s, 'r) key_lib \<Rightarrow> 's keypair \<Rightarrow> byte list" where
  "secp256k1_to_bytes G kp = k256_scalar G (kp_signing kp)"

text \<open>The signing parameter set, as \<open>parameter_set\<close> is the verification one.\<close>

definition ml_dsa_signing :: "algorithm \<Rightarrow> algorithm option" where
  "ml_dsa_signing a = (if a \<in> {MlDsa44, MlDsa65, MlDsa87} then Some a else None)"

definition ml_dsa_generate :: "'s crypto_lib \<Rightarrow> algorithm \<Rightarrow> 's option \<Rightarrow> crypto_error + 's keypair" where
  "ml_dsa_generate K a drawn =
     res_bind (ok_or (Unsupported a) (ml_dsa_signing a)) (\<lambda>_.
     res_bind (ok_or Backend drawn) (\<lambda>pair. ml_dsa_wrap K a pair))"

definition ml_dsa_from_seed :: "'s crypto_lib \<Rightarrow> ('s, 'r) key_lib \<Rightarrow> algorithm \<Rightarrow> byte list \<Rightarrow> crypto_error + 's keypair" where
  "ml_dsa_from_seed K G a seed =
     res_bind (ok_or (Unsupported a) (ml_dsa_signing a)) (\<lambda>alg.
     res_bind (ok_or Backend (mldsa_from_seed G alg seed)) (\<lambda>pair. ml_dsa_wrap K a pair))"

definition public_key_did :: "'c cid_lib \<Rightarrow> public_key \<Rightarrow> did" where
  "public_key_did L key = did_from_key L key"

section \<open>Faithful signers\<close>

text \<open>What is asked of each backend: its public keys parse, and its signatures verify under them.\<close>

definition p256_backend_ok :: "'s crypto_lib \<Rightarrow> 's \<Rightarrow> bool" where
  "p256_backend_ok K s \<longleftrightarrow> feature_p256 K \<and> length (p256_public K s) = 33 \<and> p256_key_parses K (p256_public K s)
     \<and> (\<forall>m. p256_signature_parses K (p256_raw_sign K s m) \<and> p256_verifies K (p256_public K s) m (p256_raw_sign K s m))"

definition k256_backend_ok :: "'s crypto_lib \<Rightarrow> 's \<Rightarrow> bool" where
  "k256_backend_ok K s \<longleftrightarrow> feature_secp256k1 K \<and> length (k256_public K s) = 33 \<and> k256_key_parses K (k256_public K s)
     \<and> (\<forall>m. k256_signature_parses K (k256_raw_sign K s m) \<and> k256_verifies K (k256_public K s) m (k256_raw_sign K s m))"

definition mldsa_backend_ok :: "'s crypto_lib \<Rightarrow> algorithm \<Rightarrow> 's \<Rightarrow> bool" where
  "mldsa_backend_ok K a s \<longleftrightarrow> feature_ml_dsa K
     \<and> (\<forall>m sg. mldsa_raw_sign K s m = Some sg \<longrightarrow> mldsa_verifies K a (mldsa_public K s) m (take (signature_len a) sg))"

lemma p256_wrap_key: "p256_backend_ok K s \<Longrightarrow> public_key_new K P256 (p256_public K s) = Ok (kp_public (p256_wrap K s))"
  by (simp add: p256_wrap_def keypair_of_def public_key_new_Ok p256_backend_ok_def
      backend_key_is_valid_def p256_key_is_valid_def public_key_new_def)

lemma k256_wrap_key:
  "k256_backend_ok K s \<Longrightarrow> public_key_new K Secp256k1 (k256_public K s) = Ok (kp_public (secp256k1_wrap K s))"
  by (simp add: secp256k1_wrap_def keypair_of_def public_key_new_Ok k256_backend_ok_def
      backend_key_is_valid_def secp256k1_key_is_valid_def public_key_new_def)

lemma p256_faithful: "p256_backend_ok K s \<Longrightarrow> faithful_signer K (p256_signer L K (p256_wrap K s))"
  using p256_wrap_key [of K s]
  by (auto simp: faithful_signer_def p256_signer_def signer_of_def p256_sign_def signature_new_Ok
      public_key_new_Ok key_verify_def backend_verify_def p256_verify_def p256_backend_ok_def)
    (simp_all add: p256_wrap_def keypair_of_def)

lemma k256_faithful: "k256_backend_ok K s \<Longrightarrow> faithful_signer K (secp256k1_signer L K (secp256k1_wrap K s))"
  using k256_wrap_key [of K s]
  by (auto simp: faithful_signer_def secp256k1_signer_def signer_of_def secp256k1_sign_def signature_new_Ok
      public_key_new_Ok key_verify_def backend_verify_def secp256k1_verify_def k256_backend_ok_def)
    (simp_all add: secp256k1_wrap_def keypair_of_def)

lemma ml_dsa_wrap_Ok:
  "ml_dsa_wrap K a s = Ok kp \<longleftrightarrow> public_key_new K a (mldsa_public K s) = Ok (kp_public kp) \<and> kp_signing kp = s"
  by (cases kp) (auto simp: ml_dsa_wrap_def res_simps)

lemma ml_dsa_signing_Some: "ml_dsa_signing a = Some b \<longleftrightarrow> b = a \<and> is_post_quantum a"
  by (auto simp: ml_dsa_signing_def is_post_quantum_def)

lemma mldsa_faithful:
  assumes "mldsa_backend_ok K a s" "is_post_quantum a" "ml_dsa_wrap K a s = Ok kp"
  shows "faithful_signer K (ml_dsa_signer L K a kp)"
  using assms
  by (cases a) (auto simp: faithful_signer_def ml_dsa_signer_def signer_of_def ml_dsa_sign_def signature_new_Ok
      public_key_new_Ok key_verify_def backend_verify_def ml_dsa_verify_def mldsa_backend_ok_def ml_dsa_wrap_Ok
      is_post_quantum_def parameter_set_def res_simps)

text \<open>The seeds of a key: a key pair is made again from what it gives back.\<close>

lemma seed_again:
  "ed_from_bytes G (ed_to_bytes G s) = s \<Longrightarrow>
    ed25519_from_seed K G (ed25519_to_seed G (ed25519_wrap K s)) = ed25519_wrap K s"
  "p256_from_slice G (p256_scalar G s) = Some s \<Longrightarrow>
    p256_from_bytes K G (p256_to_bytes G (p256_wrap K s)) = Ok (p256_wrap K s)"
  "k256_from_slice G (k256_scalar G s) = Some s \<Longrightarrow>
    secp256k1_from_bytes K G (secp256k1_to_bytes G (secp256k1_wrap K s)) = Ok (secp256k1_wrap K s)"
  by (simp_all add: ed25519_from_seed_def ed25519_to_seed_def p256_from_bytes_def p256_to_bytes_def
      secp256k1_from_bytes_def secp256k1_to_bytes_def ed25519_wrap_def p256_wrap_def secp256k1_wrap_def keypair_of_def)

text \<open>An ML-DSA key pair exists only for an ML-DSA parameter set, and its key is one of that set.\<close>

lemma ml_dsa_from_seed_Ok:
  assumes "ml_dsa_from_seed K G a seed = Ok kp"
  shows "is_post_quantum a \<and> pk_algorithm (kp_public kp) = a \<and> mldsa_from_seed G a seed = Some (kp_signing kp)"
  using assms by (auto simp: ml_dsa_from_seed_def res_simps ml_dsa_signing_Some ml_dsa_wrap_Ok public_key_new_Ok)

end
