(* ===== verification/Text_Forms.thy ===== *)
theory Text_Forms
  imports Keys Glob Selector Policy_Laws Validate
begin

text \<open>
  The text forms: \<open>Display\<close>, \<open>FromStr\<close> and \<open>Debug\<close> of the crate's types, and \<open>PartialEq\<close> of selectors, which
  compares their text.
\<close>

section \<open>\<open>Display\<close>\<close>

definition display_algorithm :: "algorithm \<Rightarrow> str" where
  "display_algorithm a = algorithm_name a"

fun display_encoding :: "encoding \<Rightarrow> str" where
  "display_encoding DagCbor = lit ''dag-cbor''"
| "display_encoding DagJson = lit ''dag-json''"

definition display_header :: "header \<Rightarrow> str" where
  "display_header h =
     lit ''varsig('' @ display_algorithm (h_algorithm h) @ lit '' over '' @ display_encoding (h_encoding h) @ lit '')''"

fun display_hop :: "hop \<Rightarrow> str" where
  "display_hop (HopProof n) = lit ''proof '' @ nat_to_str n"
| "display_hop HopInvocation = lit ''invocation''"

definition display_timestamp :: "timestamp \<Rightarrow> str" where
  "display_timestamp t = int_to_str (as_unix t)"

definition display_did :: "did \<Rightarrow> str" where "display_did d = did_str d"
definition display_command :: "command \<Rightarrow> str" where "display_command c = cmd_str c"
definition display_selector :: "selector \<Rightarrow> str" where "display_selector sel = sel_text sel"
definition display_pattern :: "pattern \<Rightarrow> str" where "display_pattern p = pattern_text p"

section \<open>\<open>FromStr\<close>, \<open>TryFrom\<close> and \<open>PartialEq\<close>\<close>

definition did_from_str :: "str \<Rightarrow> did_error + did" where "did_from_str s = did_parse s"

definition command_from_str :: "(uchar \<Rightarrow> bool) \<Rightarrow> str \<Rightarrow> command_error + command" where
  "command_from_str upper s = command_parse upper s"

definition selector_from_str :: "str \<Rightarrow> selector_error + selector" where "selector_from_str s = selector_parse s"

definition timestamp_try_from :: "int \<Rightarrow> Time.time_error + timestamp" where
  "timestamp_try_from seconds = from_unix seconds"

definition selector_eq :: "selector \<Rightarrow> selector \<Rightarrow> bool" where "selector_eq a b \<longleftrightarrow> sel_text a = sel_text b"

section \<open>\<open>Debug\<close>\<close>

definition wrapped :: "char list \<Rightarrow> str \<Rightarrow> str" where "wrapped name inner = lit name @ lit ''('' @ inner @ lit '')''"

definition debug_did :: "did \<Rightarrow> str" where "debug_did d = wrapped ''Did'' (did_str d)"
definition debug_command :: "command \<Rightarrow> str" where "debug_command c = wrapped ''Command'' (cmd_str c)"
definition debug_selector :: "selector \<Rightarrow> str" where "debug_selector sel = wrapped ''Selector'' (sel_text sel)"

text \<open>\<open>{byte:02x}\<close> for every byte.\<close>

definition debug_nonce :: "nonce \<Rightarrow> str" where "debug_nonce n = wrapped ''Nonce'' (hex_text (nonce_bytes n))"

definition debug_public_key :: "'c cid_lib \<Rightarrow> public_key \<Rightarrow> str" where
  "debug_public_key L key =
     wrapped ''PublicKey'' (display_algorithm (pk_algorithm key) @ lit '', '' @ display_did (public_key_did L key))"

definition debug_signature :: "signature \<Rightarrow> str" where
  "debug_signature s =
     wrapped ''Signature'' (display_algorithm (sig_algorithm s) @ lit '', '' @ nat_to_str (length (sig_bytes s)) @ lit '' bytes'')"

text \<open>A key pair shows its DID and never its signing key.\<close>

definition debug_ed25519 :: "'c cid_lib \<Rightarrow> 's keypair \<Rightarrow> str" where
  "debug_ed25519 L kp = wrapped ''Ed25519Keypair'' (display_did (public_key_did L (kp_public kp)))"

definition debug_p256 :: "'c cid_lib \<Rightarrow> 's keypair \<Rightarrow> str" where
  "debug_p256 L kp = wrapped ''P256Keypair'' (display_did (public_key_did L (kp_public kp)))"

definition debug_secp256k1 :: "'c cid_lib \<Rightarrow> 's keypair \<Rightarrow> str" where
  "debug_secp256k1 L kp = wrapped ''Secp256k1Keypair'' (display_did (public_key_did L (kp_public kp)))"

definition debug_ml_dsa :: "'c cid_lib \<Rightarrow> algorithm \<Rightarrow> 's keypair \<Rightarrow> str" where
  "debug_ml_dsa L a kp =
     wrapped ''MlDsaKeypair'' (display_algorithm a @ lit '', '' @ display_did (public_key_did L (kp_public kp)))"

section \<open>Lemmas\<close>

text \<open>What a value displays as reads back as that value.\<close>

lemma display_from_str:
  "did_from_str (display_did d) = Ok d \<longleftrightarrow> (\<exists>s. did_parse s = Ok d)"
  "command_from_str upper (display_command c) = Ok c \<longleftrightarrow> (\<exists>s. command_parse upper s = Ok c)"
  "selector_from_str (display_selector sel) = Ok sel \<longleftrightarrow> (\<exists>s. selector_parse s = Ok sel)"
proof -
  show "did_from_str (display_did d) = Ok d \<longleftrightarrow> (\<exists>s. did_parse s = Ok d)"
    unfolding did_from_str_def display_did_def by (metis did_wf_parse)
  show "command_from_str upper (display_command c) = Ok c \<longleftrightarrow> (\<exists>s. command_parse upper s = Ok c)"
    unfolding command_from_str_def display_command_def by (metis command_parse_str)
  show "selector_from_str (display_selector sel) = Ok sel \<longleftrightarrow> (\<exists>s. selector_parse s = Ok sel)"
    unfolding selector_from_str_def display_selector_def by (metis selector_parse_wf)
qed

text \<open>Among parsed selectors, comparing the text is comparing the selector.\<close>

lemma selector_eq_iff:
  assumes "selector_parse s = Ok a" "selector_parse t = Ok b"
  shows "selector_eq a b \<longleftrightarrow> a = b"
proof
  assume "selector_eq a b"
  then have "sel_text a = sel_text b" by (simp add: selector_eq_def)
  moreover have "sel_text a = s" "sel_text b = t"
    using selector_parse_wf [OF assms(1)] selector_parse_wf [OF assms(2)] by blast+
  ultimately show "a = b" using assms by simp
qed (simp add: selector_eq_def)

end
