(* ===== verification/Payload_Laws.thy ===== *)
theory Payload_Laws
  imports Envelope_Laws Delegation Invocation Policy_Laws
begin

text \<open>
  The payload codecs of \<open>delegation.rs\<close> and \<open>invocation.rs\<close>: a payload map is read exactly when it holds
  the fields of a well-formed payload and nothing else.
\<close>

lemma policy_from_Ok: "policy_from_ipld w = Ok p \<longleftrightarrow> w = policy_to_ipld p \<and> policy_wf p"
  using policy_from_to [of w p] policy_to_from [of p] by auto

lemma subject_field_Ok: "subject_field w = Ok s \<longleftrightarrow>
    w = subject_to_ipld s \<and> (\<forall>d. s = SubjectDid d \<longrightarrow> did_parsed d)"
proof (cases "w = INull")
  case False
  then have "subject_field w = map_ok SubjectDid (did_field ''sub'' w)"
    by (cases w) (simp_all add: subject_field_def)
  with False show ?thesis
    by (cases s) (auto simp: subject_to_ipld_def map_ok_Ok did_field_Ok)
qed (cases s, auto simp: subject_field_def subject_to_ipld_def did_to_ipld_def)

text \<open>A map from which some keys have been taken is empty when it held no others.\<close>

fun bt_remove_all :: "'k list \<Rightarrow> ('k, 'v) btree \<Rightarrow> ('k, 'v) btree" where
  "bt_remove_all [] m = m"
| "bt_remove_all (k # ks) m = bt_remove_all ks (bt_remove k m)"

lemma bt_get_remove_all: "bt_wf m \<Longrightarrow> bt_get (bt_remove_all ks m) k = (if k \<in> set ks then None else bt_get m k)"
  by (induction ks arbitrary: m) auto

lemma bt_wf_remove_all: "bt_wf m \<Longrightarrow> bt_wf (bt_remove_all ks m)"
  by (induction ks arbitrary: m) auto

lemma bt_remove_all_empty:
  "bt_wf m \<Longrightarrow> bt_remove_all ks m = [] \<longleftrightarrow> (\<forall>k. k \<notin> set ks \<longrightarrow> bt_get m k = None)"
  using bt_empty_iff [OF bt_wf_remove_all, of m ks] by (auto simp: bt_get_remove_all)

section \<open>Delegations\<close>

definition delegation_payload_wf :: "(uchar \<Rightarrow> bool) \<Rightarrow> 'c delegation_payload \<Rightarrow> bool" where
  "delegation_payload_wf upper p \<longleftrightarrow>
     did_parsed (dp_issuer p) \<and> did_parsed (dp_audience p) \<and> (\<forall>d. dp_subject p = SubjectDid d \<longrightarrow> did_parsed d)
     \<and> command_wf upper (dp_command p) \<and> policy_wf (dp_policy p)
     \<and> pred_option ts_wf (dp_not_before p) \<and> expiry_wf (dp_expiration p)"

definition delegation_fields :: "'c delegation_payload \<Rightarrow> (str \<times> 'c ipld) list" where
  "delegation_fields p = (case delegation_payload_to_ipld p of IMap m \<Rightarrow> m)"

abbreviation delegation_keys :: "str list" where
  "delegation_keys \<equiv> [lit ''iss'', lit ''aud'', lit ''sub'', lit ''cmd'', lit ''pol'', lit ''nonce'', lit ''exp'',
     lit ''nbf'', lit ''meta'']"

lemma delegation_from_Ok:
  assumes "bt_wf m"
  shows "delegation_payload_from_ipld upper (IMap m) = Ok p \<longleftrightarrow>
    delegation_payload_wf upper p \<and>
    bt_get m (lit ''iss'') = Some (did_to_ipld (dp_issuer p)) \<and>
    bt_get m (lit ''aud'') = Some (did_to_ipld (dp_audience p)) \<and>
    bt_get m (lit ''sub'') = Some (subject_to_ipld (dp_subject p)) \<and>
    bt_get m (lit ''cmd'') = Some (IString (cmd_str (dp_command p))) \<and>
    bt_get m (lit ''pol'') = Some (policy_to_ipld (dp_policy p)) \<and>
    bt_get m (lit ''nonce'') = Some (IBytes (nonce_bytes (dp_nonce p))) \<and>
    bt_get m (lit ''exp'') = Some (expiry_to_ipld (dp_expiration p)) \<and>
    bt_get m (lit ''nbf'') = map_option (\<lambda>t. IInteger (as_unix t)) (dp_not_before p) \<and>
    (bt_get m (lit ''meta'') = Some (IMap (dp_meta p)) \<or> bt_get m (lit ''meta'') = None \<and> dp_meta p = []) \<and>
    bt_remove_all delegation_keys m = []"
  using assms
  by (cases p; cases "bt_get m (lit ''nbf'')"; cases "bt_get m (lit ''meta'')"; cases "dp_not_before p")
    (auto simp: delegation_payload_from_ipld_def res_simps field_Ok policy_from_Ok subject_field_Ok take_field_eq
      Let_def delegation_payload_wf_def nonce_from_bytes_def simp del: lit_Cons)

lemma delegation_fields_simps:
  "delegation_payload_to_ipld p = IMap (delegation_fields p)"
  "bt_wf (delegation_fields p)"
  by (simp_all add: delegation_fields_def delegation_payload_to_ipld_def Let_def del: lit_Cons bt_insert.simps
      split: option.split)

lemma delegation_fields_get:
  "bt_get (delegation_fields p) k =
    (if k = lit ''iss'' then Some (did_to_ipld (dp_issuer p))
     else if k = lit ''aud'' then Some (did_to_ipld (dp_audience p))
     else if k = lit ''sub'' then Some (subject_to_ipld (dp_subject p))
     else if k = lit ''cmd'' then Some (IString (cmd_str (dp_command p)))
     else if k = lit ''pol'' then Some (policy_to_ipld (dp_policy p))
     else if k = lit ''nonce'' then Some (IBytes (nonce_bytes (dp_nonce p)))
     else if k = lit ''exp'' then Some (expiry_to_ipld (dp_expiration p))
     else if k = lit ''nbf'' then map_option (\<lambda>t. IInteger (as_unix t)) (dp_not_before p)
     else if k = lit ''meta'' \<and> dp_meta p \<noteq> [] then Some (IMap (dp_meta p)) else None)"
  by (simp add: delegation_fields_def delegation_payload_to_ipld_def Let_def del: lit_Cons bt_insert.simps split: option.split)

text \<open>What is read back, an explicit empty \<open>meta\<close> being tolerated.\<close>

lemma delegation_reads:
  assumes "bt_wf m"
  shows "delegation_payload_from_ipld upper (IMap m) = Ok p \<longleftrightarrow>
    delegation_payload_wf upper p \<and>
    (m = delegation_fields p \<or> dp_meta p = [] \<and> m = bt_insert (lit ''meta'') (IMap []) (delegation_fields p))"
proof (intro iffI conjI)
  assume ok: "delegation_payload_from_ipld upper (IMap m) = Ok p"
  note fields = ok [unfolded delegation_from_Ok [OF assms] bt_remove_all_empty [OF assms]]
  show "delegation_payload_wf upper p" using fields by blast
  show "m = delegation_fields p \<or> dp_meta p = [] \<and> m = bt_insert (lit ''meta'') (IMap []) (delegation_fields p)"
  proof (cases "dp_meta p = [] \<and> bt_get m (lit ''meta'') \<noteq> None")
    case True
    with fields have "m = bt_insert (lit ''meta'') (IMap []) (delegation_fields p)"
      by (intro bt_ext [OF assms]) (auto simp: delegation_fields_get delegation_fields_simps simp del: lit_Cons)
    with True show ?thesis by simp
  next
    case False
    with fields have "m = delegation_fields p"
      by (intro bt_ext [OF assms]) (auto simp: delegation_fields_get delegation_fields_simps simp del: lit_Cons)
    then show ?thesis ..
  qed
next
  assume "delegation_payload_wf upper p \<and>
    (m = delegation_fields p \<or> dp_meta p = [] \<and> m = bt_insert (lit ''meta'') (IMap []) (delegation_fields p))"
  then show "delegation_payload_from_ipld upper (IMap m) = Ok p"
    unfolding delegation_from_Ok [OF assms] bt_remove_all_empty [OF assms]
    by (auto simp: delegation_fields_get simp del: lit_Cons split: if_split_asm)
qed

section \<open>Invocations\<close>

definition invocation_payload_wf :: "(uchar \<Rightarrow> bool) \<Rightarrow> 'c invocation_payload \<Rightarrow> bool" where
  "invocation_payload_wf upper p \<longleftrightarrow>
     did_parsed (ip_issuer p) \<and> did_parsed (ip_subject p)
     \<and> pred_option (\<lambda>aud. did_parsed aud \<and> \<not> same_principal aud (ip_subject p)) (ip_audience p)
     \<and> command_wf upper (ip_command p) \<and> expiry_wf (ip_expiration p) \<and> pred_option ts_wf (ip_issued_at p)"

definition invocation_fields :: "'c invocation_payload \<Rightarrow> (str \<times> 'c ipld) list" where
  "invocation_fields p = (case invocation_payload_to_ipld p of IMap m \<Rightarrow> m)"

abbreviation invocation_keys :: "str list" where
  "invocation_keys \<equiv> [lit ''iss'', lit ''sub'', lit ''aud'', lit ''cmd'', lit ''args'', lit ''prf'', lit ''meta'',
     lit ''nonce'', lit ''exp'', lit ''iat'', lit ''cause'']"

lemma field_reads:
  "did_parsed d \<Longrightarrow> did_field k (did_to_ipld d) = Ok d" "text_field k (IString s) = Ok s"
  "command_wf upper c \<Longrightarrow> command_parse upper (cmd_str c) = Ok c" "map_field k (IMap m) = Ok m"
  "list_field k (IList vs) = Ok vs" "res_map (link_field k) (map ILink cs) = Ok cs" "link_field k (ILink x) = Ok x"
  "bytes_field k (IBytes b) = Ok b" "expiry_wf e \<Longrightarrow> expiry_field (expiry_to_ipld e) = Ok e"
  "ts_wf t \<Longrightarrow> timestamp_field k (IInteger (as_unix t)) = Ok t"
  by (simp_all add: field_Ok res_map_links)

lemma optional_map: "optional f m = Ok r \<longleftrightarrow>
    (case r of None \<Rightarrow> m = None | Some x \<Rightarrow> \<exists>v. m = Some v \<and> f v = Ok x)"
  by (cases m) (auto simp: optional_def map_ok_Ok split: option.split)

lemma invocation_from_Ok:
  assumes "bt_wf m"
  shows "invocation_payload_from_ipld upper (IMap m) = Ok p \<longleftrightarrow>
    invocation_payload_wf upper p \<and>
    bt_get m (lit ''iss'') = Some (did_to_ipld (ip_issuer p)) \<and>
    bt_get m (lit ''sub'') = Some (did_to_ipld (ip_subject p)) \<and>
    bt_get m (lit ''aud'') = map_option did_to_ipld (ip_audience p) \<and>
    bt_get m (lit ''cmd'') = Some (IString (cmd_str (ip_command p))) \<and>
    bt_get m (lit ''args'') = Some (IMap (ip_args p)) \<and>
    bt_get m (lit ''prf'') = Some (IList (map ILink (ip_proofs p))) \<and>
    bt_get m (lit ''meta'') = (if ip_meta p = [] then None else Some (IMap (ip_meta p))) \<and>
    bt_get m (lit ''nonce'') = Some (IBytes (nonce_bytes (ip_nonce p))) \<and>
    bt_get m (lit ''exp'') = Some (expiry_to_ipld (ip_expiration p)) \<and>
    bt_get m (lit ''iat'') = map_option (\<lambda>t. IInteger (as_unix t)) (ip_issued_at p) \<and>
    bt_get m (lit ''cause'') = map_option ILink (ip_cause p) \<and>
    bt_remove_all invocation_keys m = []"
    (is "_ \<longleftrightarrow> ?fields")
proof
  assume "invocation_payload_from_ipld upper (IMap m) = Ok p"
  then obtain v1 v2 v4 t v5 v6 links meta' v8 v9 where f:
    "bt_get m (lit ''iss'') = Some v1" "did_field ''iss'' v1 = Ok (ip_issuer p)"
    "bt_get m (lit ''sub'') = Some v2" "did_field ''sub'' v2 = Ok (ip_subject p)"
    "optional (did_field ''aud'') (bt_get m (lit ''aud'')) = Ok (ip_audience p)"
    "\<not> (\<exists>aud. ip_audience p = Some aud \<and> same_principal aud (ip_subject p))"
    "bt_get m (lit ''cmd'') = Some v4" "text_field ''cmd'' v4 = Ok t" "command_parse upper t = Ok (ip_command p)"
    "bt_get m (lit ''args'') = Some v5" "map_field ''args'' v5 = Ok (ip_args p)"
    "bt_get m (lit ''prf'') = Some v6" "list_field ''prf'' v6 = Ok links"
    "res_map (link_field ''prf'') links = Ok (ip_proofs p)"
    "optional (map_field ''meta'') (bt_get m (lit ''meta'')) = Ok meta'" "meta' \<noteq> Some []"
    "ip_meta p = (case meta' of Some m \<Rightarrow> m | None \<Rightarrow> [])"
    "bt_get m (lit ''nonce'') = Some v8" "bytes_field ''nonce'' v8 = Ok (nonce_bytes (ip_nonce p))"
    "bt_get m (lit ''exp'') = Some v9" "expiry_field v9 = Ok (ip_expiration p)"
    "optional (timestamp_field ''iat'') (bt_get m (lit ''iat'')) = Ok (ip_issued_at p)"
    "optional (link_field ''cause'') (bt_get m (lit ''cause'')) = Ok (ip_cause p)"
    "bt_remove_all invocation_keys m = []"
    using assms
    by (clarsimp simp: invocation_payload_from_ipld_def res_bind_Ok map_ok_Ok if_Err_Ok require_Ok fields_new_Ok
        fields_finish_Ok take_field_eq Let_def nonce_from_bytes_def simp del: lit_Cons)
  have "bt_get m (lit ''meta'') = (if ip_meta p = [] then None else Some (IMap (ip_meta p)))"
    using f(15-17) by (cases meta') (auto simp: optional_map map_field_Ok simp del: lit_Cons)
  moreover have "bt_get m (lit ''aud'') = map_option did_to_ipld (ip_audience p)"
    "pred_option (\<lambda>aud. did_parsed aud \<and> \<not> same_principal aud (ip_subject p)) (ip_audience p)"
    using f(5,6) by (cases "ip_audience p"; auto simp: optional_map did_field_Ok simp del: lit_Cons)+
  moreover have "bt_get m (lit ''iat'') = map_option (\<lambda>t. IInteger (as_unix t)) (ip_issued_at p)"
    "pred_option ts_wf (ip_issued_at p)" "bt_get m (lit ''cause'') = map_option ILink (ip_cause p)"
    using f(22,23) by (cases "ip_issued_at p"; cases "ip_cause p";
      auto simp: optional_map timestamp_field_Ok link_field_Ok simp del: lit_Cons)+
  ultimately show "?fields" using f
    by (simp add: invocation_payload_wf_def field_Ok res_map_links del: lit_Cons)
next
  assume f: "?fields"
  show "invocation_payload_from_ipld upper (IMap m) = Ok p"
    using f assms by (cases p; cases "ip_audience p"; cases "ip_issued_at p"; cases "ip_cause p"; cases "ip_meta p")
      (simp_all add: invocation_payload_from_ipld_def require_def fields_new_def optional_def
        fields_finish_def field_reads take_field_eq Let_def invocation_payload_wf_def nonce_from_bytes_def
        del: lit_Cons)
qed

lemma invocation_fields_simps:
  "invocation_payload_to_ipld p = IMap (invocation_fields p)"
  "bt_wf (invocation_fields p)"
  by (simp_all add: invocation_fields_def invocation_payload_to_ipld_def Let_def del: lit_Cons bt_insert.simps
      split: option.split)

lemma invocation_fields_get:
  "bt_get (invocation_fields p) k =
    (if k = lit ''iss'' then Some (did_to_ipld (ip_issuer p))
     else if k = lit ''sub'' then Some (did_to_ipld (ip_subject p))
     else if k = lit ''aud'' then map_option did_to_ipld (ip_audience p)
     else if k = lit ''cmd'' then Some (IString (cmd_str (ip_command p)))
     else if k = lit ''args'' then Some (IMap (ip_args p))
     else if k = lit ''prf'' then Some (IList (map ILink (ip_proofs p)))
     else if k = lit ''meta'' then (if ip_meta p = [] then None else Some (IMap (ip_meta p)))
     else if k = lit ''nonce'' then Some (IBytes (nonce_bytes (ip_nonce p)))
     else if k = lit ''exp'' then Some (expiry_to_ipld (ip_expiration p))
     else if k = lit ''iat'' then map_option (\<lambda>t. IInteger (as_unix t)) (ip_issued_at p)
     else if k = lit ''cause'' then map_option ILink (ip_cause p) else None)"
  by (cases "ip_audience p"; cases "ip_issued_at p"; cases "ip_cause p"; cases "ip_meta p = []")
    (simp_all add: invocation_fields_def invocation_payload_to_ipld_def Let_def del: lit_Cons bt_insert.simps)

lemma invocation_reads:
  assumes "bt_wf m"
  shows "invocation_payload_from_ipld upper (IMap m) = Ok p \<longleftrightarrow> invocation_payload_wf upper p \<and> m = invocation_fields p"
proof (intro iffI conjI)
  assume ok: "invocation_payload_from_ipld upper (IMap m) = Ok p"
  note fields = ok [unfolded invocation_from_Ok [OF assms] bt_remove_all_empty [OF assms]]
  show "invocation_payload_wf upper p" using fields by blast
  from fields show "m = invocation_fields p"
    by (intro bt_ext [OF assms]) (auto simp: invocation_fields_get invocation_fields_simps simp del: lit_Cons)
next
  assume "invocation_payload_wf upper p \<and> m = invocation_fields p"
  then show "invocation_payload_from_ipld upper (IMap m) = Ok p"
    unfolding invocation_from_Ok [OF assms] bt_remove_all_empty [OF assms]
    by (simp add: invocation_fields_get del: lit_Cons)
qed

end
