(* ===== verification/Token_Laws.thy ===== *)
theory Token_Laws
  imports Payload_Laws Validate_Properties
begin

text \<open>
  Whole tokens: what decoding and assembling guarantee of the token they return, that signing, decoding
  and verifying fit together, and what a task identifier identifies.
\<close>

section \<open>Values that survive the wire\<close>

text \<open>
  A well-formed value that decodes to itself: its links parse back and it holds no negative zero, which
  the encoder writes as zero.
\<close>

definition sendable :: "'c cid_lib \<Rightarrow> 'c ipld \<Rightarrow> bool" where
  "sendable L v \<longleftrightarrow> ipld_wf v \<and> links_readable L v \<and> norm_zero v = v"

lemma sendable_simps [simp]:
  "sendable L INull" "sendable L (IString s)" "sendable L (IBytes b)"
  "sendable L (IInteger i) \<longleftrightarrow> i128_min \<le> i \<and> i \<le> i128_max"
  "sendable L (ILink c) \<longleftrightarrow> cid_try_from_bytes L (cid_to_bytes L c) = Some c"
  "sendable L (IList vs) \<longleftrightarrow> (\<forall>v \<in> set vs. sendable L v)"
  by (auto simp: sendable_def map_idI map_eq_conv [of _ _ "\<lambda>x. x", simplified])

lemma sendable_IMap: "sendable L (IMap m) \<longleftrightarrow> bt_wf m \<and> (\<forall>k v. bt_get m k = Some v \<longrightarrow> sendable L v)"
proof (cases "bt_wf m")
  case True
  have "map (\<lambda>e. (fst e, norm_zero (snd e))) m = m \<longleftrightarrow> (\<forall>e \<in> set m. norm_zero (snd e) = snd e)"
    by (induction m) (auto simp: prod_eq_iff)
  with True show ?thesis by (auto simp: sendable_def bt_get_Some_iff)
qed (simp add: sendable_def)

lemma did_to_ipld_sendable [simp]: "sendable L (did_to_ipld d)"
  by (simp add: did_to_ipld_def)

lemma ts_i128: "ts_wf t \<Longrightarrow> i128_min \<le> as_unix t \<and> as_unix t \<le> i128_max"
  by (auto simp: ts_wf_def ts_bounds i128_min_def i128_max_def)

lemma delegation_sendable:
  assumes "delegation_payload_wf upper p" "sendable L (policy_to_ipld (dp_policy p))" "sendable L (IMap (dp_meta p))"
  shows "sendable L (delegation_payload_to_ipld p)"
proof -
  have "sendable L (subject_to_ipld (dp_subject p))" by (simp add: subject_to_ipld_def split: subject.split)
  moreover have "sendable L (expiry_to_ipld (dp_expiration p))"
    using assms(1) ts_i128 by (auto simp: delegation_payload_wf_def expiry_wf_def expiry_to_ipld_def split: expiry.split)
  ultimately show ?thesis
    using assms ts_i128
    by (auto simp: delegation_fields_simps sendable_IMap [of L "delegation_fields p"] delegation_fields_get
        delegation_payload_wf_def simp del: lit_Cons split: if_split_asm)
qed

lemma invocation_sendable:
  assumes "invocation_payload_wf upper p" "sendable L (IMap (ip_args p))" "sendable L (IMap (ip_meta p))"
    and "\<forall>c \<in> set (ip_proofs p) \<union> set_option (ip_cause p). cid_try_from_bytes L (cid_to_bytes L c) = Some c"
  shows "sendable L (invocation_payload_to_ipld p)"
proof -
  have "sendable L (expiry_to_ipld (ip_expiration p))"
    using assms(1) ts_i128 by (auto simp: invocation_payload_wf_def expiry_wf_def expiry_to_ipld_def split: expiry.split)
  then show ?thesis
    using assms ts_i128
    by (auto simp: invocation_fields_simps sendable_IMap [of L "invocation_fields p"] invocation_fields_get
        invocation_payload_wf_def simp del: lit_Cons split: if_split_asm)
qed

section \<open>What a token guarantees\<close>

definition envelope_wf :: "'c cid_lib \<Rightarrow> 'c envelope \<Rightarrow> bool" where
  "envelope_wf L env \<longleftrightarrow>
     env_cid env = of_dag_cbor L (env_bytes env)
     \<and> sig_algorithm (env_signature env) = h_algorithm (env_header env)
     \<and> length (sig_bytes (env_signature env)) = signature_len (h_algorithm (env_header env))
     \<and> signed_bytes env \<noteq> None"

definition delegation_wf :: "'c cid_lib \<Rightarrow> (uchar \<Rightarrow> bool) \<Rightarrow> 'c delegation \<Rightarrow> bool" where
  "delegation_wf L upper d \<longleftrightarrow> envelope_wf L (d_envelope d) \<and> env_kind (d_envelope d) = Delegation
     \<and> delegation_payload_wf upper (d_payload d)"

definition invocation_wf :: "'c cid_lib \<Rightarrow> (uchar \<Rightarrow> bool) \<Rightarrow> 'c invocation \<Rightarrow> bool" where
  "invocation_wf L upper i \<longleftrightarrow> envelope_wf L (i_envelope i) \<and> env_kind (i_envelope i) = Invocation
     \<and> invocation_payload_wf upper (i_payload i)"

lemma open_wf:
  assumes "open_envelope L bs options = Ok (env, payload)"
  shows "envelope_wf L env \<and> env_bytes env = bs"
proof -
  from open_form [OF assms] have "signed_bytes env \<noteq> None"
    by (cases "h_encoding (env_header env)") auto
  with open_form [OF assms] show ?thesis
    by (auto simp: envelope_wf_def signature_new_Ok) (metis signature.select_convs(1))
qed

lemma open_payload:
  assumes "open_envelope L bs options = Ok (env, payload)"
  obtains m where "payload = IMap m" "bt_wf m" "sendable L payload"
  using open_form [OF assms] by (cases payload) (auto simp: is_map_def sendable_def)

lemma delegation_from_parts_Ok:
  "delegation_from_parts upper (env, payload) = Ok d \<longleftrightarrow>
    env_kind env = Delegation \<and> d_envelope d = env \<and> delegation_payload_from_ipld upper payload = Ok (d_payload d)"
  by (cases d) (auto simp: delegation_from_parts_def res_simps)

lemma invocation_from_parts_Ok:
  "invocation_from_parts upper (env, payload) = Ok i \<longleftrightarrow>
    env_kind env = Invocation \<and> i_envelope i = env \<and> invocation_payload_from_ipld upper payload = Ok (i_payload i)"
  by (cases i) (auto simp: invocation_from_parts_def res_simps)

lemma delegation_parts_wf:
  assumes "res_bind (open_envelope L bs options) (delegation_from_parts upper) = Ok d"
  shows "delegation_wf L upper d \<and> env_bytes (d_envelope d) = bs"
proof -
  from assms obtain env payload where o: "open_envelope L bs options = Ok (env, payload)"
    and d: "delegation_from_parts upper (env, payload) = Ok d" by (auto simp: res_bind_Ok)
  from o obtain m where m: "payload = IMap m" "bt_wf m" by (rule open_payload)
  with d delegation_reads [OF m(2)] have "delegation_payload_wf upper (d_payload d)"
    by (auto simp: delegation_from_parts_Ok)
  with open_wf [OF o] d show ?thesis by (simp add: delegation_wf_def delegation_from_parts_Ok)
qed

lemma invocation_parts_wf:
  assumes "res_bind (open_envelope L bs options) (invocation_from_parts upper) = Ok i"
  shows "invocation_wf L upper i \<and> env_bytes (i_envelope i) = bs"
proof -
  from assms obtain env payload where o: "open_envelope L bs options = Ok (env, payload)"
    and d: "invocation_from_parts upper (env, payload) = Ok i" by (auto simp: res_bind_Ok)
  from o obtain m where m: "payload = IMap m" "bt_wf m" by (rule open_payload)
  with d invocation_reads [OF m(2)] have "invocation_payload_wf upper (i_payload i)"
    by (auto simp: invocation_from_parts_Ok)
  with open_wf [OF o] d show ?thesis by (simp add: invocation_wf_def invocation_from_parts_Ok)
qed

text \<open>Assembling opens what it has put together.\<close>

lemma assemble_opens:
  "assemble_envelope L signed_raw signature = Ok r \<Longrightarrow> \<exists>bs. open_envelope L bs STRICT = Ok r"
  by (auto simp: assemble_envelope_def res_bind_Ok)

lemma token_wf:
  "delegation_decode_with L upper bs options = Ok d \<Longrightarrow> delegation_wf L upper d \<and> env_bytes (d_envelope d) = bs"
  "invocation_decode_with L upper bs options = Ok i \<Longrightarrow> invocation_wf L upper i \<and> env_bytes (i_envelope i) = bs"
  "delegation_assemble L upper raw s = Ok d \<Longrightarrow> delegation_wf L upper d"
  "invocation_assemble L upper raw s = Ok i \<Longrightarrow> invocation_wf L upper i"
proof -
  show "delegation_decode_with L upper bs options = Ok d \<Longrightarrow> delegation_wf L upper d \<and> env_bytes (d_envelope d) = bs"
    unfolding delegation_decode_with_def by (rule delegation_parts_wf)
  show "invocation_decode_with L upper bs options = Ok i \<Longrightarrow> invocation_wf L upper i \<and> env_bytes (i_envelope i) = bs"
    unfolding invocation_decode_with_def by (rule invocation_parts_wf)
  assume "delegation_assemble L upper raw s = Ok d"
  then obtain r bs where "open_envelope L bs STRICT = Ok r" "delegation_from_parts upper r = Ok d"
    unfolding delegation_assemble_def res_bind_Ok using assemble_opens by blast
  with delegation_parts_wf [of L bs STRICT upper d] show "delegation_wf L upper d" by simp
next
  assume "invocation_assemble L upper raw s = Ok i"
  then obtain r bs where "open_envelope L bs STRICT = Ok r" "invocation_from_parts upper r = Ok i"
    unfolding invocation_assemble_def res_bind_Ok using assemble_opens by blast
  with invocation_parts_wf [of L bs STRICT upper i] show "invocation_wf L upper i" by simp
qed

section \<open>Signing\<close>

lemma sealed_sendable:
  "seal L signer k payload = Ok env \<Longrightarrow> is_map payload \<Longrightarrow> sendable L payload \<Longrightarrow>
    length (env_bytes env) \<le> usize_max \<Longrightarrow> faithful_signer K signer \<Longrightarrow>
    verify_envelope K env (sg_public_key signer) = Ok ()
    \<and> open_envelope L (env_bytes env) STRICT = Ok (env, payload) \<and> env_kind env = k"
  by (rule sealed) (auto simp: sendable_def)

lemma is_map_payload [simp]:
  "is_map (delegation_payload_to_ipld p)" "is_map (invocation_payload_to_ipld q)"
  by (simp_all add: is_map_def delegation_fields_simps invocation_fields_simps)

lemma delegation_signed:
  assumes "delegation_sign L signer b = Ok d" "faithful_signer K signer"
    and "delegation_payload_wf upper (db_payload b (sg_did signer))"
    and "sendable L (policy_to_ipld (db_policy b))" "sendable L (IMap (db_meta b))"
    and "length (env_bytes (d_envelope d)) \<le> usize_max"
  shows "d_payload d = db_payload b (sg_did signer)
    \<and> delegation_decode L upper (env_bytes (d_envelope d)) = Ok d
    \<and> verify_envelope K (d_envelope d) (sg_public_key signer) = Ok ()"
proof -
  let ?p = "db_payload b (sg_did signer)"
  from assms(1) have d: "seal L signer Delegation (delegation_payload_to_ipld ?p) = Ok (d_envelope d)" "d_payload d = ?p"
    by (auto simp: delegation_sign_def Let_def res_simps)
  have "sendable L (delegation_payload_to_ipld ?p)"
    using delegation_sendable [OF assms(3)] assms(4,5) by (simp add: db_payload_def)
  from sealed_sendable [OF d(1) _ this assms(6,2)] d(2) assms(3) show ?thesis
    using delegation_reads [OF delegation_fields_simps(2), of upper ?p ?p]
    by (auto simp: delegation_decode_def delegation_decode_with_def delegation_from_parts_Ok delegation_fields_simps(1) is_map_def)
qed

lemma invocation_signed:
  assumes "invocation_sign L signer b = Ok i" "faithful_signer K signer"
    and "invocation_payload_wf upper (ib_payload b (sg_did signer))"
    and "sendable L (IMap (ib_args b))" "sendable L (IMap (ib_meta b))"
    and "\<forall>c \<in> set (ib_proofs b) \<union> set_option (ib_cause b). cid_try_from_bytes L (cid_to_bytes L c) = Some c"
    and "length (env_bytes (i_envelope i)) \<le> usize_max"
  shows "i_payload i = ib_payload b (sg_did signer)
    \<and> invocation_decode L upper (env_bytes (i_envelope i)) = Ok i
    \<and> verify_envelope K (i_envelope i) (sg_public_key signer) = Ok ()"
proof -
  let ?p = "ib_payload b (sg_did signer)"
  from assms(1) have i: "seal L signer Invocation (invocation_payload_to_ipld ?p) = Ok (i_envelope i)" "i_payload i = ?p"
    by (auto simp: invocation_sign_def Let_def res_simps)
  have "sendable L (invocation_payload_to_ipld ?p)"
    using invocation_sendable [OF assms(3)] assms(4-6) by (simp add: ib_payload_def)
  from sealed_sendable [OF i(1) _ this assms(7,2)] i(2) assms(3) show ?thesis
    using invocation_reads [OF invocation_fields_simps(2), of upper ?p ?p]
    by (auto simp: invocation_decode_def invocation_decode_with_def invocation_from_parts_Ok invocation_fields_simps(1) is_map_def)
qed

end
