(* ===== verification/Samples.thy ===== *)
theory Samples
  imports Token_Laws
begin

text \<open>
  Signed sample tokens for the properties of whole tokens: a bound on the size of an encoding, which
  shows that small payloads are sealed, a delegation from one sample key to another, and an invocation
  that uses it.
\<close>

section \<open>Sizes\<close>

fun item_bound :: "'c cid_lib \<Rightarrow> 'c ipld \<Rightarrow> nat" where
  "item_bound L (IString s) = 9 + 4 * length s"
| "item_bound L (IBytes b) = 9 + length b"
| "item_bound L (ILink c) = 12 + length (cid_to_bytes L c)"
| "item_bound L (IList vs) = 9 + sum_list (map (item_bound L) vs)"
| "item_bound L (IMap m) = 9 + sum_list (map (\<lambda>e. 9 + 4 * length (fst e) + item_bound L (snd e)) m)"
| "item_bound L v = 9"

lemma str_len_bound: "str_len s \<le> 4 * length s"
proof (induction s)
  case (Cons c s)
  have "length (utf8_char c) \<le> 4" by (simp add: utf8_char_def Let_def)
  with Cons show ?case by (simp add: str_len_def)
qed (simp add: str_len_def)

lemma text_item_bound: "length (text_item s) \<le> 9 + 4 * length s"
  using length_head [of MAJOR_TEXT "of_nat (str_len s)"] str_len_bound [of s]
  by (simp add: text_item_def str_len_def)

lemma res_map_bound:
  "res_map f xs = Ok ys \<Longrightarrow> (\<And>x y. x \<in> set xs \<Longrightarrow> f x = Ok y \<Longrightarrow> length y \<le> g x) \<Longrightarrow>
    length (concat ys) \<le> sum_list (map g xs)"
proof (induction xs arbitrary: ys)
  case (Cons x xs)
  then obtain y ys' where y: "f x = Ok y" "res_map f xs = Ok ys'" "ys = y # ys'" by (auto simp: res_bind_Ok)
  have "length (concat ys') \<le> sum_list (map g xs)" using Cons.IH [OF y(2)] Cons.prems(2) by simp
  moreover have "length y \<le> g x" using Cons.prems(2) [of x y] y(1) by simp
  ultimately show ?case using y(3) by simp
qed simp

lemma sum_list_sort_entries: "sum_list (map f (sort_entries m)) = (sum_list (map f m) :: nat)"
proof -
  have "sum_mset (mset (map f (sort_entries m))) = sum_mset (mset (map f m))" by (simp add: sort_entries_def)
  then show ?thesis by (simp only: sum_mset_sum_list)
qed

lemma cbor_item_bound: "cbor_item L d v = Ok enc \<Longrightarrow> length enc \<le> item_bound L v"
proof (induction v arbitrary: d enc)
  case (IList vs)
  from IList.prems obtain bs where bs: "res_map (\<lambda>entry. cbor_item L (d + 1) entry) vs = Ok bs"
    "enc = head MAJOR_ARRAY (of_nat (length vs)) @ concat bs"
    by (auto simp: cbor_item.simps [of L d "IList vs"] map_ok_Ok split: if_split_asm)
  from res_map_bound [OF bs(1), of "item_bound L"] IList.IH
  show ?case using length_head [of MAJOR_ARRAY "of_nat (length vs)"] bs(2) by (auto intro: add_mono)
next
  case (IMap m)
  let ?g = "\<lambda>e. 9 + 4 * length (fst e) + item_bound L (snd e)"
  from IMap.prems obtain bs where bs:
    "res_map (\<lambda>e. map_ok (\<lambda>bs. text_item (fst e) @ bs) (cbor_item L (d + 1) (snd e))) (sort_entries m) = Ok bs"
    "enc = head MAJOR_MAP (of_nat (length m)) @ concat bs"
    by (auto simp: cbor_item.simps [of L d "IMap m"] map_ok_Ok split: if_split_asm)
  have "length (concat bs) \<le> sum_list (map ?g (sort_entries m))"
  proof (rule res_map_bound [OF bs(1)])
    fix e y
    assume e: "e \<in> set (sort_entries m)" "map_ok (\<lambda>bs. text_item (fst e) @ bs) (cbor_item L (d + 1) (snd e)) = Ok y"
    then obtain b where b: "cbor_item L (d + 1) (snd e) = Ok b" "y = text_item (fst e) @ b" by (auto simp: map_ok_Ok)
    from IMap.IH [of e "snd e" "d + 1" b] e(1) b text_item_bound [of "fst e"] show "length y \<le> ?g e"
      by (cases e) simp
  qed
  then show ?case using length_head [of MAJOR_MAP "of_nat (length m)"] bs(2)
    unfolding sum_list_sort_entries by simp
next
  case (ILink c)
  have "length (head MAJOR_TAG CID_TAG) \<le> 2" by (simp add: head_def Let_def CID_TAG_def)
  with ILink length_head [of MAJOR_BYTES "of_nat (length (cid_to_bytes L c)) + 1"] show ?case
    by (auto simp: cbor_leaf link_item_def Let_def split: if_split_asm)
qed (auto simp: cbor_leaf integer_def float_item_def map_ok_Ok bytes_item_def
    split: if_split_asm intro: order_trans [OF length_head] text_item_bound)

section \<open>Signed tokens\<close>

text \<open>What the sample keys seal: any map that survives the wire and is small.\<close>

lemma sample_signs:
  assumes "is_map payload" "sendable sample_lib payload" "ipld_depth payload < MAX_DEPTH"
    and "ipld_all scalar_encodable payload" "item_bound sample_lib payload < 2 ^ 16"
  shows "\<exists>env. seal sample_lib (sample_signer b) k payload = Ok env \<and> length (env_bytes env) \<le> usize_max"
proof -
  let ?h = "header_new Ed25519" and ?tag = "tag k"
  have "is_ok (cbor_item sample_lib 1 payload)" using assms(3,4) by (simp add: cbor_item_is_ok)
  then obtain enc where enc: "cbor_item sample_lib 1 payload = Ok enc" by (auto simp: is_ok_iff)
  have tag: "from_tag ?tag STRICT = Ok k" by (simp add: from_tag_STRICT)
  let ?el = "element_bytes (header_encode ?h) ?tag enc"
  have prepare: "prepare_envelope sample_lib ?h k payload = Ok \<lparr>us_signing = ?el, us_sig_payload = ?el\<rparr>"
    using encode_sig_payload [OF tag, of sample_lib "header_encode ?h" payload] enc
    by (simp add: prepare_envelope_def header_new_def)
  have "length ?el < 2 ^ 32"
    using length_element_bytes [of "header_encode ?h" ?tag enc] length_sample_header cbor_item_bound [OF enc] assms(5)
    by simp
  with sample_seals [OF prepare assms(1)] assms(2) show ?thesis by (simp add: sendable_def)
qed

lemma length_sample_did [simp]: "length (did_str (sample_did b)) = 77"
proof -
  have "length (hex_text bs) = 2 * length bs" for bs by (induction bs) (simp_all add: hex_text_def)
  then show ?thesis
    by (simp add: sample_did_def did_from_key_def sample_key_def sample_lib_def put_uvarint.simps Let_def)
qed

lemma did_parsed_sample [simp]: "did_parsed (sample_did b)"
  using did_from_key_resolves [OF bs58_ok_sample sample_key_new, of b]
  unfolding did_parsed_def sample_did_def by blast

lemma sample_did_resolves [simp]: "key_resolver sample_lib sample_crypto (sample_did b) = Ok (sample_key b)"
  using did_from_key_resolves [OF bs58_ok_sample sample_key_new, of b]
  unfolding sample_did_def by blast

text \<open>Key 7 grants \<open>/data\<close> on itself to key 8, from 50 to 200.\<close>

definition sample_grant_builder :: "byte list delegation_builder" where
  "sample_grant_builder =
     db_with_nonce nonce_empty (db_expires_at (Timestamp 200) (db_valid_from (Timestamp 50)
       (db_with_policy (Policy [And []])
         (delegation_start (sample_did 8) (SubjectDid (sample_did 7)) (Command (lit ''/data''))))))"

definition sample_grant :: "byte list delegation_payload" where
  "sample_grant = \<lparr>dp_issuer = sample_did 7, dp_audience = sample_did 8, dp_subject = SubjectDid (sample_did 7),
     dp_command = Command (lit ''/data''), dp_policy = Policy [And []], dp_nonce = nonce_empty, dp_meta = [],
     dp_not_before = Some (Timestamp 50), dp_expiration = At (Timestamp 200)\<rparr>"

text \<open>Key 8 uses it, given the CID of the delegation.\<close>

definition sample_request_builder :: "byte list \<Rightarrow> byte list invocation_builder" where
  "sample_request_builder c =
     ib_with_nonce nonce_empty (ib_never_expires (ib_proof c (ib_claim_issued_at (Timestamp 90)
       (invocation_start (sample_did 7) (Command (lit ''/data/read''))))))"

definition sample_request :: "byte list \<Rightarrow> byte list invocation_payload" where
  "sample_request c = \<lparr>ip_issuer = sample_did 8, ip_subject = sample_did 7, ip_audience = None,
     ip_command = Command (lit ''/data/read''), ip_args = [], ip_proofs = [c], ip_meta = [],
     ip_nonce = nonce_empty, ip_expiration = Never, ip_issued_at = Some (Timestamp 90), ip_cause = None\<rparr>"

lemma sample_builders:
  "db_payload sample_grant_builder (sample_did 7) = sample_grant"
  "ib_payload (sample_request_builder c) (sample_did 8) = sample_request c"
  by (simp_all add: sample_grant_builder_def sample_grant_def sample_request_builder_def sample_request_def
      delegation_start_def db_with_policy_def db_valid_from_def db_expires_at_def db_with_nonce_def db_payload_def
      invocation_start_def ib_claim_issued_at_def ib_proof_def ib_never_expires_def ib_with_nonce_def ib_payload_def)

lemma sample_grant_wf: "delegation_payload_wf ascii_upper sample_grant"
  using sample_commands_wf
  by (simp add: delegation_payload_wf_def sample_grant_def policy_wf_def expiry_wf_def ts_wf_def ts_bounds del: lit_Cons)

lemma sample_request_wf: "invocation_payload_wf ascii_upper (sample_request c)"
  using sample_commands_wf
  by (simp add: invocation_payload_wf_def sample_request_def expiry_wf_def ts_wf_def ts_bounds del: lit_Cons)

lemma sample_grant_seals:
  "\<exists>env. seal sample_lib (sample_signer 7) Delegation (delegation_payload_to_ipld sample_grant) = Ok env
    \<and> length (env_bytes env) \<le> usize_max"
proof (rule sample_signs)
  show "sendable sample_lib (delegation_payload_to_ipld sample_grant)"
    by (rule delegation_sendable [OF sample_grant_wf])
      (simp_all add: sample_grant_def policy_to_ipld_def sendable_IMap bt_wf_def)
qed (simp_all add: delegation_payload_to_ipld_def sample_grant_def Let_def did_to_ipld_def subject_to_ipld_def
    expiry_to_ipld_def policy_to_ipld_def nonce_empty_def ascii_less_iff is_map_def MAX_DEPTH_def ipld_depth.simps)

lemma sample_request_seals:
  assumes "length c = 36"  "cid_try_from_bytes sample_lib c = Some c"
  shows "\<exists>env. seal sample_lib (sample_signer 8) Invocation (invocation_payload_to_ipld (sample_request c)) = Ok env
    \<and> length (env_bytes env) \<le> usize_max"
proof (rule sample_signs)
  show "sendable sample_lib (invocation_payload_to_ipld (sample_request c))"
    by (rule invocation_sendable [OF sample_request_wf])
      (use assms in \<open>simp_all add: sample_request_def sendable_IMap bt_wf_def sample_lib_def\<close>)
qed (use assms in \<open>simp_all add: invocation_payload_to_ipld_def sample_request_def Let_def did_to_ipld_def
    expiry_to_ipld_def nonce_empty_def ascii_less_iff is_map_def MAX_DEPTH_def ipld_depth.simps
    sample_lib_def [THEN arg_cong [where f = cid_to_bytes]]\<close>)

end
