(* ===== verification/Token_Properties.thy ===== *)
theory Token_Properties
  imports Samples
begin

text \<open>
  The properties of whole tokens: which payloads are read, what every token satisfies once it has been
  decoded or assembled, which errors validation can still report about such tokens, and what signing
  and identifying a task promise.
\<close>

section \<open>Payloads\<close>

text \<open>
  C34. A delegation payload is read exactly when it is the wire form of a well-formed payload: every
  required field is there with its type, nothing else is, and the one other form accepted is an
  explicit empty \<open>meta\<close>. What is read is determined by the bytes and writes back to them.
\<close>

theorem delegation_payload_form:
  assumes "bt_wf m"
  shows "delegation_payload_from_ipld upper (IMap m) = Ok p \<longleftrightarrow>
    delegation_payload_wf upper p \<and>
    (delegation_payload_to_ipld p = IMap m
     \<or> dp_meta p = [] \<and> (\<exists>m'. delegation_payload_to_ipld p = IMap m' \<and> m = bt_insert (lit ''meta'') (IMap []) m'))"
  unfolding delegation_reads [OF assms] delegation_fields_simps(1) by auto

theorem delegation_payload_form_witness:
  "delegation_payload_from_ipld ascii_upper (delegation_payload_to_ipld sample_grant) = Ok sample_grant"
  using delegation_payload_form [OF delegation_fields_simps(2) [of sample_grant], of ascii_upper sample_grant] sample_grant_wf
  by (simp add: delegation_fields_simps(1) del: lit_Cons)

text \<open>
  C35. An invocation payload is read exactly when it is the wire form of a well-formed payload. There is no
  other form: an empty \<open>meta\<close> and an audience that is the subject are refused.
\<close>

theorem invocation_payload_form:
  assumes "bt_wf m"
  shows "invocation_payload_from_ipld upper (IMap m) = Ok p \<longleftrightarrow>
    invocation_payload_wf upper p \<and> invocation_payload_to_ipld p = IMap m"
  unfolding invocation_reads [OF assms] invocation_fields_simps(1) by auto

theorem invocation_payload_form_witness:
  "invocation_payload_from_ipld ascii_upper (invocation_payload_to_ipld (sample_request [1])) = Ok (sample_request [1])"
  using invocation_payload_form [OF invocation_fields_simps(2) [of "sample_request [1]"], of ascii_upper "sample_request [1]"]
    sample_request_wf
  by (simp add: invocation_fields_simps(1))

section \<open>Signing\<close>

text \<open>
  What the builder's typestate and its argument types provide: an expiry and a nonce are set, and every
  part is a value of its type that survives the wire.
\<close>

definition delegation_builder_wf :: "'c cid_lib \<Rightarrow> (uchar \<Rightarrow> bool) \<Rightarrow> 'c delegation_builder \<Rightarrow> bool" where
  "delegation_builder_wf L upper b \<longleftrightarrow> db_ready b
     \<and> did_parsed (db_audience b) \<and> (\<forall>d. db_subject b = SubjectDid d \<longrightarrow> did_parsed d)
     \<and> command_wf upper (db_command b) \<and> policy_wf (db_policy b)
     \<and> pred_option ts_wf (db_not_before b) \<and> pred_option expiry_wf (db_expiry b)
     \<and> sendable L (policy_to_ipld (db_policy b)) \<and> sendable L (IMap (db_meta b))"

definition invocation_builder_wf :: "'c cid_lib \<Rightarrow> (uchar \<Rightarrow> bool) \<Rightarrow> 'c invocation_builder \<Rightarrow> bool" where
  "invocation_builder_wf L upper b \<longleftrightarrow> ib_ready b
     \<and> did_parsed (ib_subject b) \<and> pred_option did_parsed (ib_audience b) \<and> command_wf upper (ib_command b)
     \<and> pred_option expiry_wf (ib_expiry b) \<and> pred_option ts_wf (ib_issued_at b)
     \<and> sendable L (IMap (ib_args b)) \<and> sendable L (IMap (ib_meta b))
     \<and> (\<forall>c \<in> set (ib_proofs b) \<union> set_option (ib_cause b). cid_try_from_bytes L (cid_to_bytes L c) = Some c)"

lemma delegation_builder_payload:
  "delegation_builder_wf L upper b \<Longrightarrow> did_parsed issuer \<Longrightarrow> delegation_payload_wf upper (db_payload b issuer)"
  by (cases "db_expiry b") (simp_all add: delegation_builder_wf_def delegation_payload_wf_def db_payload_def db_ready_def)

lemma invocation_builder_payload:
  "invocation_builder_wf L upper b \<Longrightarrow> did_parsed issuer \<Longrightarrow> invocation_payload_wf upper (ib_payload b issuer)"
  by (cases "ib_expiry b"; cases "ib_audience b")
    (simp_all add: invocation_builder_wf_def invocation_payload_wf_def ib_payload_def ib_ready_def)

text \<open>Tokens signed by a faithful signer whose DID resolves to its key.\<close>

definition signs_as :: "'s crypto_lib \<Rightarrow> resolver \<Rightarrow> signer \<Rightarrow> bool" where
  "signs_as K R signer \<longleftrightarrow> faithful_signer K signer \<and> R (sg_did signer) = Ok (sg_public_key signer)
     \<and> did_parsed (sg_did signer)"

definition issued_delegation ::
  "'c cid_lib \<Rightarrow> 's crypto_lib \<Rightarrow> (uchar \<Rightarrow> bool) \<Rightarrow> resolver \<Rightarrow> 'c delegation \<Rightarrow> bool" where
  "issued_delegation L K upper R d \<longleftrightarrow> (\<exists>signer b. signs_as K R signer \<and> delegation_builder_wf L upper b
     \<and> delegation_sign L signer b = Ok d \<and> length (env_bytes (d_envelope d)) \<le> usize_max)"

definition issued_invocation ::
  "'c cid_lib \<Rightarrow> 's crypto_lib \<Rightarrow> (uchar \<Rightarrow> bool) \<Rightarrow> resolver \<Rightarrow> 'c invocation \<Rightarrow> bool" where
  "issued_invocation L K upper R i \<longleftrightarrow> (\<exists>signer b. signs_as K R signer \<and> invocation_builder_wf L upper b
     \<and> invocation_sign L signer b = Ok i \<and> length (env_bytes (i_envelope i)) \<le> usize_max)"

lemma delegation_received:
  assumes "signs_as K R signer" "delegation_builder_wf L upper b" "delegation_sign L signer b = Ok d"
    and "length (env_bytes (d_envelope d)) \<le> usize_max"
  shows "d_payload d = db_payload b (sg_did signer) \<and> delegation_decode L upper (env_bytes (d_envelope d)) = Ok d
    \<and> delegation_verify K R d = Ok ()"
proof -
  have "d_payload d = db_payload b (sg_did signer)
    \<and> delegation_decode L upper (env_bytes (d_envelope d)) = Ok d
    \<and> verify_envelope K (d_envelope d) (sg_public_key signer) = Ok ()"
    using assms delegation_builder_payload [OF assms(2)]
    by (intro delegation_signed) (auto simp: signs_as_def delegation_builder_wf_def)
  with assms(1) show ?thesis by (simp add: signs_as_def delegation_verify_def db_payload_def)
qed

lemma invocation_received:
  assumes "signs_as K R signer" "invocation_builder_wf L upper b" "invocation_sign L signer b = Ok i"
    and "length (env_bytes (i_envelope i)) \<le> usize_max"
  shows "i_payload i = ib_payload b (sg_did signer) \<and> invocation_decode L upper (env_bytes (i_envelope i)) = Ok i
    \<and> invocation_verify K R i = Ok ()"
proof -
  have "i_payload i = ib_payload b (sg_did signer)
    \<and> invocation_decode L upper (env_bytes (i_envelope i)) = Ok i
    \<and> verify_envelope K (i_envelope i) (sg_public_key signer) = Ok ()"
    using assms invocation_builder_payload [OF assms(2)]
    by (intro invocation_signed) (auto simp: signs_as_def invocation_builder_wf_def)
  with assms(1) show ?thesis by (simp add: signs_as_def invocation_verify_def ib_payload_def)
qed

text \<open>The \<open>did:key\<close> signers of the crate sign as their DIDs under the default resolver.\<close>

lemma key_signer_signs_as:
  assumes "bs58_ok L" "faithful_signer K signer" "public_key_new K a bs = Ok (sg_public_key signer)"
    and "sg_did signer = did_from_key L (sg_public_key signer)"
  shows "signs_as K (key_resolver L K) signer"
  using did_from_key_resolves [OF assms(1,3)] assms(2,4) by (simp add: signs_as_def did_parsed_def)

lemma sample_signs_as: "signs_as sample_crypto (key_resolver sample_lib sample_crypto) (sample_signer b)"
  by (simp add: signs_as_def sample_signer_faithful)

lemma sample_cid_readable:
  "cid_try_from_bytes sample_lib (of_dag_cbor sample_lib bs) = Some (of_dag_cbor sample_lib bs)"
  "length (of_dag_cbor sample_lib bs) = 36"
proof -
  have "length (take 32 (bs @ replicate 32 (0 :: byte))) = 32" by simp
  then show "cid_try_from_bytes sample_lib (of_dag_cbor sample_lib bs) = Some (of_dag_cbor sample_lib bs)"
    "length (of_dag_cbor sample_lib bs) = 36"
    by (simp_all add: of_dag_cbor_def sample_lib_def sample_cid_ok_def DAG_CBOR_def SHA2_256_def
        del: length_take take_append)
qed

lemma sample_builders_wf:
  "delegation_builder_wf sample_lib ascii_upper sample_grant_builder"
  "cid_try_from_bytes sample_lib c = Some c \<Longrightarrow>
    invocation_builder_wf sample_lib ascii_upper (sample_request_builder c)"
  using sample_commands_wf
  by (simp_all add: sample_grant_builder_def sample_request_builder_def delegation_builder_wf_def invocation_builder_wf_def
      delegation_start_def db_with_policy_def db_valid_from_def db_expires_at_def db_with_nonce_def db_ready_def
      invocation_start_def ib_claim_issued_at_def ib_proof_def ib_never_expires_def ib_with_nonce_def ib_ready_def
      policy_wf_def expiry_wf_def ts_wf_def ts_bounds policy_to_ipld_def sendable_IMap bt_wf_def
      sample_lib_def [THEN arg_cong [where f = cid_to_bytes]] del: lit_Cons)

lemma sample_signed_delegation:
  "\<exists>d. delegation_sign sample_lib (sample_signer 7) sample_grant_builder = Ok d
    \<and> length (env_bytes (d_envelope d)) \<le> usize_max \<and> d_payload d = sample_grant
    \<and> d_cid d = of_dag_cbor sample_lib (env_bytes (d_envelope d))"
proof -
  from sample_grant_seals obtain env
    where env: "seal sample_lib (sample_signer 7) Delegation (delegation_payload_to_ipld sample_grant) = Ok env"
      "length (env_bytes env) \<le> usize_max" by blast
  let ?d = "\<lparr>d_envelope = env, d_payload = sample_grant\<rparr>"
  have sign: "delegation_sign sample_lib (sample_signer 7) sample_grant_builder = Ok ?d"
    by (simp add: delegation_sign_def sample_builders env(1) Let_def)
  from delegation_received [OF sample_signs_as sample_builders_wf(1) this] env(2)
  have "delegation_decode_with sample_lib ascii_upper (env_bytes env) STRICT = Ok ?d" by (simp add: delegation_decode_def)
  from token_wf(1) [OF this] sign env(2) show ?thesis by (auto simp: delegation_wf_def envelope_wf_def)
qed

lemma sample_signed_invocation:
  assumes "length c = 36" "cid_try_from_bytes sample_lib c = Some c"
  shows "\<exists>i. invocation_sign sample_lib (sample_signer 8) (sample_request_builder c) = Ok i
    \<and> length (env_bytes (i_envelope i)) \<le> usize_max \<and> i_payload i = sample_request c"
proof -
  from sample_request_seals [OF assms] obtain env
    where env: "seal sample_lib (sample_signer 8) Invocation (invocation_payload_to_ipld (sample_request c)) = Ok env"
      "length (env_bytes env) \<le> usize_max" by blast
  let ?i = "\<lparr>i_envelope = env, i_payload = sample_request c\<rparr>"
  have "invocation_sign sample_lib (sample_signer 8) (sample_request_builder c) = Ok ?i"
    by (simp add: invocation_sign_def sample_builders env(1) Let_def)
  with env(2) show ?thesis by (intro exI [of _ ?i]) simp
qed

text \<open>
  C37. A delegation is received as it was signed: what a faithful signer with a \<open>did:key\<close> signs decodes
  from its bytes under the strict rules to the same token, with the payload that was built, and
  verifies under the key the issuer's DID resolves to.
\<close>

theorem signed_delegation_received:
  assumes "bs58_ok L" "faithful_signer K signer" "public_key_new K a bs = Ok (sg_public_key signer)"
    and "sg_did signer = did_from_key L (sg_public_key signer)"
    and "delegation_builder_wf L upper b" "delegation_sign L signer b = Ok d"
    and "length (env_bytes (d_envelope d)) \<le> usize_max"
  shows "delegation_decode L upper (env_bytes (d_envelope d)) = Ok d
    \<and> d_payload d = db_payload b (sg_did signer)
    \<and> delegation_verify K (key_resolver L K) d = Ok ()"
  using delegation_received [OF key_signer_signs_as [OF assms(1-4)] assms(5-7)] by blast

theorem signed_delegation_received_witness:
  "\<exists>d. delegation_sign sample_lib (sample_signer 7) sample_grant_builder = Ok d
    \<and> delegation_decode sample_lib ascii_upper (env_bytes (d_envelope d)) = Ok d
    \<and> delegation_verify sample_crypto (key_resolver sample_lib sample_crypto) d = Ok ()"
proof -
  from sample_signed_delegation obtain d where d: "delegation_sign sample_lib (sample_signer 7) sample_grant_builder = Ok d"
    "length (env_bytes (d_envelope d)) \<le> usize_max" by blast
  have "public_key_new sample_crypto Ed25519 (replicate 32 7) = Ok (sg_public_key (sample_signer 7))"
    "sg_did (sample_signer 7) = did_from_key sample_lib (sg_public_key (sample_signer 7))"
    using sample_key_new by (simp_all add: sample_did_def)
  from signed_delegation_received [OF bs58_ok_sample sample_signer_faithful this sample_builders_wf(1) d] d(1)
  show ?thesis by blast
qed

text \<open>
  C38. Signing and validating fit together: a chain of delegations signed by faithful signers whose DIDs
  resolve, that hands the subject's authority to the signer of the invocation, is accepted when the
  store holds it, every token is in time, the policies hold of the arguments, nothing is revoked, the
  executor is the right one and the invocation has not been seen. No signature check can get in the way.
\<close>

theorem issued_chain_validates:
  assumes "\<forall>d \<in> set chain. issued_delegation L K upper (vd_resolver v) d" "issued_invocation L K upper (vd_resolver v) tok"
    and "i_proofs tok = map (\<lambda>d. d_cid d) chain" "\<forall>d \<in> set chain. vd_store v (d_cid d) = Some d"
    and "authority (i_subject tok) chain (i_issuer tok) (i_command tok)"
    and "\<forall>d \<in> set chain. delegation_check_time d (vd_now v) (vd_skew v) = Ok ()"
    and "invocation_check_time tok (vd_now v) (vd_skew v) = Ok ()"
    and "\<forall>d \<in> set chain. \<forall>s \<in> set (statements (d_policy d)). holds s (IMap (i_args tok))"
    and "pred_option (\<lambda>n. length chain \<le> n) (vd_max_proofs v)"
    and "pred_option (\<lambda>r. \<forall>d \<in> set chain. \<not> r (d_cid d) (map (\<lambda>d. d_issuer d) chain)) (vd_revocations v)"
    and "pred_option (\<lambda>me. same_principal (executor (i_payload tok)) me) (vd_executor v)"
    and "fresh_for v tok"
  shows "fst (validate K v tok) = Ok \<lparr>v_chain = chain, v_subject = i_subject tok, v_invocation = i_cid tok\<rparr>"
proof -
  have "\<forall>d \<in> set chain. delegation_verify K (vd_resolver v) d = Ok ()"
    using assms(1) delegation_received by (fastforce simp: issued_delegation_def)
  moreover have "invocation_verify K (vd_resolver v) tok = Ok ()"
    using assms(2) invocation_received by (fastforce simp: issued_invocation_def)
  moreover have "list_all2 (\<lambda>c d. vd_store v c = Some d) (i_proofs tok) chain"
    using assms(3,4) by (simp add: list_all2_conv_all_nth)
  ultimately have "acceptable K v tok chain"
    using assms(3,5-11) by (auto simp: acceptable_def option.pred_set)
  then show ?thesis using assms(12) by (simp add: validate_eq validate_checks_Ok [symmetric])
qed

text \<open>The two sample tokens, and a validator at time 100 that holds the delegation.\<close>

definition sample_verifier :: "byte list delegation \<Rightarrow> (byte list, byte list replay_guard) validator" where
  "sample_verifier d = with_replay_guard guard_record []
     (validator_new sample_lib sample_crypto (\<lambda>c. if c = d_cid d then Some d else None) (Timestamp 100))"

lemma sample_verifier_simps [simp]:
  "vd_store (sample_verifier d) = (\<lambda>c. if c = d_cid d then Some d else None)"
  "vd_resolver (sample_verifier d) = key_resolver sample_lib sample_crypto" "vd_now (sample_verifier d) = Timestamp 100"
  "vd_skew (sample_verifier d) = 60" "vd_max_proofs (sample_verifier d) = None"
  "vd_revocations (sample_verifier d) = None" "vd_executor (sample_verifier d) = None"
  "fresh_for (sample_verifier d) tok"
  by (simp_all add: sample_verifier_def with_replay_guard_def validator_new_def DEFAULT_SKEW_def fresh_for_def guard_record_def)

lemma sample_issued:
  obtains d i where
    "issued_delegation sample_lib sample_crypto ascii_upper (key_resolver sample_lib sample_crypto) d"
    "issued_invocation sample_lib sample_crypto ascii_upper (key_resolver sample_lib sample_crypto) i"
    "d_payload d = sample_grant" "i_payload i = sample_request (d_cid d)"
    "delegation_decode_with sample_lib ascii_upper (env_bytes (d_envelope d)) STRICT = Ok d"
    "invocation_decode_with sample_lib ascii_upper (env_bytes (i_envelope i)) STRICT = Ok i"
proof -
  from sample_signed_delegation obtain d where d: "delegation_sign sample_lib (sample_signer 7) sample_grant_builder = Ok d"
    "length (env_bytes (d_envelope d)) \<le> usize_max" "d_payload d = sample_grant"
    "d_cid d = of_dag_cbor sample_lib (env_bytes (d_envelope d))" by blast
  have c: "length (d_cid d) = 36" "cid_try_from_bytes sample_lib (d_cid d) = Some (d_cid d)"
    using sample_cid_readable by (simp_all add: d(4))
  from sample_signed_invocation [OF c] obtain i
    where i: "invocation_sign sample_lib (sample_signer 8) (sample_request_builder (d_cid d)) = Ok i"
      "length (env_bytes (i_envelope i)) \<le> usize_max" "i_payload i = sample_request (d_cid d)" by blast
  show thesis
  proof
    show "issued_delegation sample_lib sample_crypto ascii_upper (key_resolver sample_lib sample_crypto) d"
      unfolding issued_delegation_def using sample_signs_as sample_builders_wf(1) d(1,2) by blast
    show "issued_invocation sample_lib sample_crypto ascii_upper (key_resolver sample_lib sample_crypto) i"
      unfolding issued_invocation_def using sample_signs_as sample_builders_wf(2) [OF c(2)] i(1,2) by blast
    show "delegation_decode_with sample_lib ascii_upper (env_bytes (d_envelope d)) STRICT = Ok d"
      using delegation_received [OF sample_signs_as sample_builders_wf(1) d(1,2)] by (simp add: delegation_decode_def)
    show "invocation_decode_with sample_lib ascii_upper (env_bytes (i_envelope i)) STRICT = Ok i"
      using invocation_received [OF sample_signs_as sample_builders_wf(2) [OF c(2)] i(1,2)]
      by (simp add: invocation_decode_def)
  qed (fact d(3) i(3))+
qed

lemma sample_grant_authority:
  assumes "d_payload d = sample_grant"
  shows "authority (sample_did 7) [d] (sample_did 8) (Command (lit ''/data/read''))"
  by (rule Root) (simp_all add: assms sample_grant_def same_principal_def aligned_def grants_def sample_covers del: lit_Cons)

theorem issued_chain_validates_witness:
  "\<exists>d i. d_payload d = sample_grant \<and> i_payload i = sample_request (d_cid d)
    \<and> fst (validate sample_crypto (sample_verifier d) i) =
        Ok \<lparr>v_chain = [d], v_subject = sample_did 7, v_invocation = i_cid i\<rparr>"
proof -
  obtain d i where di:
    "issued_delegation sample_lib sample_crypto ascii_upper (key_resolver sample_lib sample_crypto) d"
    "issued_invocation sample_lib sample_crypto ascii_upper (key_resolver sample_lib sample_crypto) i"
    "d_payload d = sample_grant" "i_payload i = sample_request (d_cid d)" by (rule sample_issued)
  have "fst (validate sample_crypto (sample_verifier d) i) =
      Ok \<lparr>v_chain = [d], v_subject = i_subject i, v_invocation = i_cid i\<rparr>"
    using di(1,2) sample_grant_authority [OF di(3)]
    by (intro issued_chain_validates [where L = sample_lib and upper = ascii_upper])
      (simp_all add: di(3,4) sample_request_def sample_grant_def delegation_check_time_def invocation_check_time_def
        check_window_def is_past_def plus_seconds_def minus_seconds_def i64_saturating_add_def i64_saturating_sub_def
        less_timestamp_def ts_bounds del: lit_Cons)
  with di(3,4) show ?thesis by (intro exI [of _ d] exI [of _ i]) (simp add: sample_request_def)
qed

section \<open>What a token guarantees\<close>

text \<open>
  C36. Every token that was decoded or assembled is well-formed: its kind is the one asked for, its CID is
  that of its bytes, its signature belongs to its header's algorithm, the bytes the signature is checked
  over exist, and every field of its payload is a value its type allows. A decoded token keeps the
  bytes it was decoded from.
\<close>

theorem tokens_well_formed:
  "(delegation_decode_with L upper bs options = Ok d \<longrightarrow> delegation_wf L upper d \<and> env_bytes (d_envelope d) = bs)
    \<and> (invocation_decode_with L upper bs options = Ok i \<longrightarrow> invocation_wf L upper i \<and> env_bytes (i_envelope i) = bs)
    \<and> (delegation_assemble L upper raw s = Ok d \<longrightarrow> delegation_wf L upper d)
    \<and> (invocation_assemble L upper raw s = Ok i \<longrightarrow> invocation_wf L upper i)"
  by (simp add: token_wf)

theorem tokens_well_formed_witness:
  "\<exists>d i. d_payload d = sample_grant \<and> delegation_wf sample_lib ascii_upper d
    \<and> i_payload i = sample_request (d_cid d) \<and> invocation_wf sample_lib ascii_upper i"
proof -
  obtain d i where di: "d_payload d = sample_grant" "i_payload i = sample_request (d_cid d)"
    "delegation_decode_with sample_lib ascii_upper (env_bytes (d_envelope d)) STRICT = Ok d"
    "invocation_decode_with sample_lib ascii_upper (env_bytes (i_envelope i)) STRICT = Ok i" by (rule sample_issued)
  with tokens_well_formed [of sample_lib ascii_upper _ STRICT] show ?thesis by blast
qed

section \<open>Task identifiers\<close>

definition task_fields :: "'c invocation \<Rightarrow> (str \<times> 'c ipld) list" where
  "task_fields i = (case task i of IMap m \<Rightarrow> m)"

lemma task_fields_simps: "task i = IMap (task_fields i)" "bt_wf (task_fields i)"
  by (simp_all add: task_fields_def task_def Let_def del: lit_Cons bt_insert.simps)

lemma task_fields_get:
  "bt_get (task_fields i) k =
    (if k = lit ''sub'' then Some (did_to_ipld (i_subject i))
     else if k = lit ''cmd'' then Some (IString (cmd_str (i_command i)))
     else if k = lit ''args'' then Some (IMap (i_args i))
     else if k = lit ''nonce'' then Some (IBytes (nonce_bytes (ip_nonce (i_payload i)))) else None)"
  by (simp add: task_fields_def task_def Let_def del: lit_Cons bt_insert.simps)

lemma task_inj:
  "task i = task j \<longleftrightarrow> i_subject i = i_subject j \<and> i_command i = i_command j \<and> i_args i = i_args j
    \<and> ip_nonce (i_payload i) = ip_nonce (i_payload j)"
proof
  assume "task i = task j"
  then have "bt_get (task_fields i) k = bt_get (task_fields j) k" for k by (simp add: task_fields_def)
  from this [of "lit ''sub''"] this [of "lit ''cmd''"] this [of "lit ''args''"] this [of "lit ''nonce''"]
  show "i_subject i = i_subject j \<and> i_command i = i_command j \<and> i_args i = i_args j
    \<and> ip_nonce (i_payload i) = ip_nonce (i_payload j)"
    by (simp add: task_fields_get did_to_ipld_def did.expand command.expand nonce.expand del: lit_Cons)
qed (simp add: task_def)

text \<open>The arguments of a decoded invocation survive the wire, one level down.\<close>

lemma decoded_args:
  assumes "invocation_decode_with L upper bs options = Ok i"
  shows "sendable L (IMap (i_args i)) \<and> is_ok (cbor_item L 1 (IMap (i_args i)))"
proof -
  from assms obtain env payload where o: "open_envelope L bs options = Ok (env, payload)"
    and i: "invocation_from_parts upper (env, payload) = Ok i"
    by (auto simp: invocation_decode_with_def res_bind_Ok)
  from o obtain m where m: "payload = IMap m" "bt_wf m" "sendable L payload" by (rule open_payload)
  from i invocation_reads [OF m(2)] have "m = invocation_fields (i_payload i)"
    by (simp add: invocation_from_parts_Ok m(1))
  then have args: "bt_get m (lit ''args'') = Some (IMap (i_args i))" by (simp add: invocation_fields_get del: lit_Cons)
  then have mem: "(lit ''args'', IMap (i_args i)) \<in> set m" using m(2) by (simp add: bt_get_Some_iff del: lit_Cons)
  from open_form [OF o] have "is_ok (cbor_item L 0 (IMap m))" by (auto simp: m(1) encode_eq)
  then have "\<forall>e \<in> set m. is_ok (cbor_item L 1 (snd e))"
    by (simp add: cbor_item_is_ok add_depth_IMap [of 0, simplified])
  from bspec [OF this mem] have "is_ok (cbor_item L 1 (IMap (i_args i)))" by simp
  with m(1,3) args show ?thesis by (auto simp: sendable_IMap [of L m])
qed

lemma task_sendable:
  assumes "invocation_decode_with L upper bs options = Ok i"
  shows "sendable L (task i) \<and> is_ok (encode L (task i))"
proof -
  note args = decoded_args [OF assms]
  have all: "is_ok (cbor_item L 1 v) \<and> sendable L v" if "bt_get (task_fields i) k = Some v" for k v
    using that args by (auto simp: task_fields_get cbor_item_is_ok did_to_ipld_def MAX_DEPTH_def ipld_depth.simps
        simp del: lit_Cons split: if_split_asm)
  then have "sendable L (task i)" by (auto simp: task_fields_simps sendable_IMap [of L "task_fields i"])
  moreover have "is_ok (cbor_item L 0 (task i))"
    using all task_fields_simps(2) [of i]
    by (fastforce simp: task_fields_simps cbor_item_is_ok add_depth_IMap [of 0, simplified] bt_get_Some_iff)
  ultimately show ?thesis by (simp add: encode_eq)
qed

text \<open>
  C40. A task identifier identifies the task: for decoded invocations it can always be computed, and two
  invocations have the same bytes hashed into it exactly when they agree in subject, command,
  arguments and nonce. Issuer, proofs, times and metadata do not matter.
\<close>

theorem task_id_identifies:
  assumes "invocation_decode_with L upper bs options = Ok i" "invocation_decode_with L upper bs' options' = Ok j"
    and "\<forall>enc. encode L (task i) = Ok enc \<longrightarrow> length enc \<le> usize_max"
  shows "\<exists>enc enc'. task_id L i = Ok (of_dag_cbor L enc) \<and> task_id L j = Ok (of_dag_cbor L enc')
    \<and> (enc = enc' \<longleftrightarrow> i_subject i = i_subject j \<and> i_command i = i_command j \<and> i_args i = i_args j
        \<and> ip_nonce (i_payload i) = ip_nonce (i_payload j))"
proof -
  note i = task_sendable [OF assms(1)] and j = task_sendable [OF assms(2)]
  from i j obtain enc enc' where enc: "encode L (task i) = Ok enc" "encode L (task j) = Ok enc'" by (auto simp: is_ok_iff)
  have "task i = task j" if "enc = enc'"
    using decode_of_encode [OF enc(1)] decode_of_encode [OF enc(2)] i j assms(3) enc that by (simp add: sendable_def)
  with enc have "enc = enc' \<longleftrightarrow> task i = task j" by auto
  with enc show ?thesis by (auto simp: task_id_def task_inj)
qed

lemma sample_task_small:
  assumes "i_payload i = sample_request c" "encode sample_lib (task i) = Ok enc"
  shows "length enc \<le> usize_max"
  using cbor_item_bound [OF assms(2) [unfolded encode_eq]]
  by (simp add: task_def assms(1) sample_request_def Let_def did_to_ipld_def nonce_empty_def ascii_less_iff usize_max_def)

lemma sample_decoded_invocation:
  assumes "length c = 36" "cid_try_from_bytes sample_lib c = Some c"
  obtains i where "i_payload i = sample_request c"
    "invocation_decode_with sample_lib ascii_upper (env_bytes (i_envelope i)) STRICT = Ok i"
proof -
  from sample_signed_invocation [OF assms] obtain i
    where i: "invocation_sign sample_lib (sample_signer 8) (sample_request_builder c) = Ok i"
      "length (env_bytes (i_envelope i)) \<le> usize_max" "i_payload i = sample_request c" by blast
  from invocation_received [OF sample_signs_as sample_builders_wf(2) [OF assms(2)] i(1,2)] i(3) that
  show thesis by (simp add: invocation_decode_def)
qed

theorem task_id_identifies_witness:
  "\<exists>i j. i_payload i = sample_request (of_dag_cbor sample_lib [1]) \<and> i_payload j = sample_request (of_dag_cbor sample_lib [2])
    \<and> (\<exists>enc. task_id sample_lib i = Ok (of_dag_cbor sample_lib enc) \<and> task_id sample_lib j = Ok (of_dag_cbor sample_lib enc))"
proof -
  obtain i where i: "i_payload i = sample_request (of_dag_cbor sample_lib [1])"
    "invocation_decode_with sample_lib ascii_upper (env_bytes (i_envelope i)) STRICT = Ok i"
    by (rule sample_decoded_invocation [OF sample_cid_readable(2,1)])
  obtain j where j: "i_payload j = sample_request (of_dag_cbor sample_lib [2])"
    "invocation_decode_with sample_lib ascii_upper (env_bytes (i_envelope j)) STRICT = Ok j"
    by (rule sample_decoded_invocation [OF sample_cid_readable(2,1)])
  from task_id_identifies [OF i(2) j(2)] sample_task_small [OF i(1)] i(1) j(1) show ?thesis
    by (auto simp: sample_request_def)
qed

section \<open>Validation of decoded tokens\<close>

text \<open>Which errors the parts of a check can report.\<close>

lemma time_error_kind: "check_window nbf x now skew = Err err \<Longrightarrow> time_error hop err \<noteq> Token hop' source"
  by (auto simp: check_window_def time_error_def split: option.splits expiry.splits if_splits)

lemma verify_envelope_error:
  "envelope_wf L env \<Longrightarrow> verify_envelope K env key = Err e \<Longrightarrow> \<exists>c. e = ECrypto c"
  by (auto simp: verify_envelope_def envelope_wf_def res_simps map_err_Err split: if_split_asm)

definition is_token_error :: "'c validation_error \<Rightarrow> bool" where
  "is_token_error e \<longleftrightarrow> (\<exists>hop source. e = Token hop source)"

lemma verify_error_kind:
  assumes "envelope_wf L env"
    and "res_bind (map_err EResolve (resolver_of d)) (\<lambda>key. verify_envelope K env key) = Err e"
  shows "\<not> is_token_error (signature_error hop e)"
  using assms(2)
  by (auto simp: res_bind_Err map_err_Err signature_error_def is_token_error_def dest!: verify_envelope_error [OF assms(1)])

text \<open>They count as errors of rule 8, which only the signature checks report.\<close>

lemma token_error_rule: "is_token_error e \<Longrightarrow> rule_of e = 8"
  by (auto simp: is_token_error_def)

lemma chain_no_token_error:
  "\<forall>d \<in> set chain. envelope_wf L (d_envelope d) \<Longrightarrow> verify_chain K v chain = Err e \<Longrightarrow> \<not> is_token_error e"
  by (auto simp: verify_chain_def check_from_Err map_err_Err delegation_verify_def dest: nth_mem verify_error_kind)

lemma invocation_no_token_error:
  "envelope_wf L (i_envelope tok) \<Longrightarrow>
    map_err (signature_error HopInvocation) (invocation_verify K (vd_resolver v) tok) = Err e \<Longrightarrow> \<not> is_token_error e"
  by (auto simp: map_err_Err invocation_verify_def dest: verify_error_kind)

lemma check_tokens_no_token_error:
  fixes e :: "'c validation_error"
  assumes "\<forall>d \<in> set chain. envelope_wf L (d_envelope d)" "envelope_wf L (i_envelope tok)"
    and "check_tokens K v tok chain = Err e"
  shows "\<not> is_token_error e"
proof -
  have other: "rule_of e \<noteq> 8 \<Longrightarrow> \<not> is_token_error e" using token_error_rule by auto
  show ?thesis using assms(3) unfolding check_tokens_def
  proof (elim res_bind_unit_Err)
    assume "verify_chain K v chain = Err e"
    then show ?thesis by (rule chain_no_token_error [OF assms(1)])
  next
    assume "map_err (signature_error HopInvocation) (invocation_verify K (vd_resolver v) tok) = Err e"
    then show ?thesis by (rule invocation_no_token_error [OF assms(2)])
  qed (rule other, drule stage_Err(1,2,5,6) stage_Err'(1), simp)+
qed

text \<open>
  C39. Validating decoded tokens never ends in the catch-all error: when every delegation in the store
  and the invocation came out of decoding or assembling, a rejection is one of the named errors, and
  never \<open>Token\<close>.
\<close>

theorem validate_no_token_error:
  assumes "\<And>c d. vd_store v c = Some d \<Longrightarrow> delegation_wf L upper d" "invocation_wf L upper tok"
  shows "fst (validate K v tok) \<noteq> Err (Token hop e)"
proof
  assume "fst (validate K v tok) = Err (Token hop e)"
  then have checks: "validate_checks K v tok = Err (Token hop e)"
    by (auto simp: validate_eq split: sum.split_asm if_split_asm)
  let ?e = "Token hop e :: 'a validation_error"
  have "check_limit v n \<noteq> Err ?e" for n using stage_Err'(2) [of v n ?e] by auto
  with checks obtain chain where found: "res_map (\<lambda>cid. ok_or (MissingProof cid) (vd_store v cid)) (i_proofs tok) = Ok chain"
    and rest: "res_bind (check_structure chain (i_subject tok) (Some (i_issuer tok, i_command tok)))
      (\<lambda>_. res_bind (check_tokens K v tok chain) (\<lambda>_. Ok chain)) = Err ?e"
    using missing_Err [of "vd_store v" "i_proofs tok" ?e] unfolding validate_checks_eq by (auto simp: res_bind_Err)
  have "check_structure chain (i_subject tok) (Some (i_issuer tok, i_command tok)) \<noteq> Err ?e"
    using structure_rules_Err [of chain _ _ ?e] unfolding position_Some by (auto simp: structure_rules_def)
  with rest have tokens: "check_tokens K v tok chain = Err ?e" by (auto simp: res_bind_Err)
  have "\<forall>d \<in> set chain. envelope_wf L (d_envelope d)"
    using found assms(1) [unfolded delegation_wf_def] by (fastforce simp: res_map_Ok list_all2_conv_all_nth in_set_conv_nth)
  from check_tokens_no_token_error [OF this _ tokens] assms(2) show False
    by (simp add: invocation_wf_def is_token_error_def)
qed

theorem validate_no_token_error_witness:
  "\<exists>d i. d_payload d = sample_grant \<and> i_payload i = sample_request (d_cid d)
    \<and> (\<forall>hop e. fst (validate sample_crypto (sample_verifier d) i) \<noteq> Err (Token hop e))"
proof -
  obtain d i where di: "d_payload d = sample_grant" "i_payload i = sample_request (d_cid d)"
    "delegation_decode_with sample_lib ascii_upper (env_bytes (d_envelope d)) STRICT = Ok d"
    "invocation_decode_with sample_lib ascii_upper (env_bytes (i_envelope i)) STRICT = Ok i" by (rule sample_issued)
  have stored: "vd_store (sample_verifier d) c = Some d' \<Longrightarrow> delegation_wf sample_lib ascii_upper d'" for c d'
    using token_wf(1) [OF di(3)] by (auto split: if_split_asm)
  have "invocation_wf sample_lib ascii_upper i" using token_wf(2) [OF di(4)] by simp
  then have "fst (validate sample_crypto (sample_verifier d) i) \<noteq> Err (Token hop e)" for hop e
    by (intro validate_no_token_error) (rule stored)
  with di(1,2) show ?thesis by blast
qed

end
