(* ===== verification/Fuzz.thy ===== *)
theory Fuzz
  imports Token_Properties Dag_Json_Laws Text_Forms
begin

text \<open>
  The assertions of the fuzz targets under \<open>fuzz/fuzz_targets\<close>: a target is the predicate that no
  assertion and no \<open>unwrap\<close> in it panics. Calls whose result is thrown away are total functions here and
  are left out; the comparisons with the \<open>serde_ipld\<close> codecs, which are third-party, are left out too.
\<close>

section \<open>The targets\<close>

text \<open>\<open>dag_cbor\<close>: what is accepted is what is emitted.\<close>

definition dag_cbor_target :: "'c cid_lib \<Rightarrow> byte list \<Rightarrow> bool" where
  "dag_cbor_target L bs =
     (case decode L bs of
        Inr v \<Rightarrow> (case encode L v of Inr again \<Rightarrow> again = bs | Inl _ \<Rightarrow> False)
      | Inl _ \<Rightarrow> True)"

text \<open>\<open>dag_json\<close>: the same for text, and a value that has both forms survives both.\<close>

definition dag_json_canonical :: "'c cid_lib \<Rightarrow> byte list \<Rightarrow> bool" where
  "dag_json_canonical L bs =
     (case json_decode L bs of
        Inr v \<Rightarrow> (case json_encode L v of Inr s \<Rightarrow> utf8 s = bs | Inl _ \<Rightarrow> False)
      | Inl _ \<Rightarrow> True)"

definition dag_json_survives :: "'c cid_lib \<Rightarrow> byte list \<Rightarrow> bool" where
  "dag_json_survives L bs =
     (case decode L bs of
        Inr v \<Rightarrow>
          (case json_encode L v of
             Inr s \<Rightarrow> (case json_decode L (utf8 s) of Inr again \<Rightarrow> again = v | Inl _ \<Rightarrow> False)
           | Inl _ \<Rightarrow> True)
      | Inl _ \<Rightarrow> True)"

text \<open>\<open>policy\<close>: the bytes before the first zero byte are the policy; printing does not change it.\<close>

definition policy_target :: "'c cid_lib \<Rightarrow> byte list \<Rightarrow> bool" where
  "policy_target L bs =
     (let split = (case position (\<lambda>b. b = 0) bs of Some i \<Rightarrow> i | None \<Rightarrow> length bs) in
      case decode L (take split bs) of
        Inl _ \<Rightarrow> True
      | Inr v \<Rightarrow>
          (case policy_from_ipld v of
             Inl _ \<Rightarrow> True
           | Inr parsed \<Rightarrow>
               (case policy_from_ipld (policy_to_ipld parsed) of Inr again \<Rightarrow> again = parsed | Inl _ \<Rightarrow> False)))"

text \<open>\<open>text\<close>: the relations on what parses are reflexive, and the root command covers everything.\<close>

definition text_target :: "(uchar \<Rightarrow> bool) \<Rightarrow> byte list \<Rightarrow> bool" where
  "text_target upper bs =
     (case from_utf8 bs of
        None \<Rightarrow> True
      | Some txt \<Rightarrow>
          (case did_parse txt of Inr d \<Rightarrow> same_principal d d | Inl _ \<Rightarrow> True) \<and>
          (case command_parse upper txt of Inr c \<Rightarrow> covers c c \<and> covers root c | Inl _ \<Rightarrow> True))"

text \<open>\<open>token\<close>: a decoded delegation decodes again from its own bytes, to the same CID.\<close>

definition exercise_delegation :: "'c cid_lib \<Rightarrow> (uchar \<Rightarrow> bool) \<Rightarrow> 'c delegation \<Rightarrow> bool" where
  "exercise_delegation L upper d =
     (case delegation_decode_with L upper (env_bytes (d_envelope d)) (with_release_candidate_tags True STRICT) of
        Inr again \<Rightarrow> d_cid again = d_cid d
      | Inl _ \<Rightarrow> False)"

definition token_target :: "'c cid_lib \<Rightarrow> (uchar \<Rightarrow> bool) \<Rightarrow> byte list \<Rightarrow> bool" where
  "token_target L upper bs =
     ((case from_unix 1800000000 of Inr _ \<Rightarrow> True | Inl _ \<Rightarrow> False) \<and>
      (case delegation_decode_with L upper bs (with_release_candidate_tags True STRICT) of
         Inr d \<Rightarrow> exercise_delegation L upper d
       | Inl _ \<Rightarrow> True))"

section \<open>What they find\<close>

lemma dag_cbor_target_passes: "dag_cbor_target L bs"
  by (auto simp: dag_cbor_target_def decode_encode split: sum.split)

lemma dag_json_canonical_passes: "dag_json_canonical L bs"
  using json_decode_encode [of L bs] by (auto simp: dag_json_canonical_def split: sum.split)

lemma policy_target_passes: "policy_target L bs"
  by (auto simp: policy_target_def Let_def policy_to_from dest: policy_from_to split: sum.split option.split)

lemma text_target_passes: "text_target upper bs"
proof -
  have "covers c c" for c using strip_prefix_append [of "cmd_str c" "[]"] by (simp add: covers_def)
  moreover have "covers root c" for c by (simp add: covers_def root_def is_root_def)
  ultimately show ?thesis by (auto simp: text_target_def same_principal_def split: sum.split option.split)
qed

lemma token_target_passes: "token_target L upper bs"
proof -
  have "exercise_delegation L upper d"
    if "delegation_decode_with L upper bs (with_release_candidate_tags True STRICT) = Ok d" for d
    using token_wf(1) [OF that] that by (simp add: exercise_delegation_def)
  then show ?thesis by (auto simp: token_target_def from_unix_def ts_bounds split: sum.split)
qed

text \<open>
  Text survives for values of which the DAG-JSON codec can count the nesting, but the assertion of the
  target fails for byte strings nested up to the limit.
\<close>

lemma dag_json_survives_fit:
  assumes "\<And>v. decode L bs = Ok v \<Longrightarrow> json_fit L 0 v"
  shows "dag_json_survives L bs"
  using json_decode_of_encode assms by (fastforce simp: dag_json_survives_def split: sum.split)

lemma cbor_item_nested_ok: "ipld_depth (nested n (IBytes b)) = n" "ipld_all scalar_encodable (nested n (IBytes b))"
  "item_bound L (nested n (IBytes b)) = 9 * n + 9 + length b" "sendable L (nested n (IBytes b))"
  by (induction n) (simp_all add: ipld_depth.simps)

theorem dag_json_target_fails: "\<exists>bs. \<not> dag_json_survives L bs"
proof -
  let ?v = "nested 128 (IBytes [])"
  have "is_ok (encode L ?v)" by (simp add: encode_eq cbor_item_is_ok cbor_item_nested_ok MAX_DEPTH_def)
  then obtain bs where bs: "encode L ?v = Ok bs" by (auto simp: is_ok_iff)
  have "length bs \<le> usize_max"
    using cbor_item_bound [OF bs [unfolded encode_eq]] by (simp add: cbor_item_nested_ok usize_max_def)
  then have "decode L bs = Ok ?v"
    using decode_of_encode [OF bs] cbor_item_nested_ok(4) [of L 128 "[]"] by (simp add: sendable_def)
  moreover obtain s where "json_encode L ?v = Ok s" "json_decode L (utf8 s) = Err NestingTooDeep"
    using json_bytes_not_read by blast
  ultimately show ?thesis by (intro exI [of _ bs]) (simp add: dag_json_survives_def)
qed

end
