(* ===== verification/Tests_Basic.thy ===== *)
theory Tests_Basic
  imports Did Varsig Command Time Text_Forms
begin

text \<open>
  The unit tests of the small modules, as the crate has them: a test is the predicate that none of its
  assertions and no \<open>unwrap\<close> in it panics, and each is shown to pass. They check the model against the
  values the authors of the crate wrote down.
\<close>

section \<open>Assertions\<close>

text \<open>\<open>let x = m.unwrap(); \<dots>\<close>.\<close>

fun unwrap_in :: "'e + 'a \<Rightarrow> ('a \<Rightarrow> bool) \<Rightarrow> bool" where
  "unwrap_in (Inl e) rest = False"
| "unwrap_in (Inr x) rest = rest x"

lemma unwrap_in_iff: "unwrap_in m rest \<longleftrightarrow> (\<exists>x. m = Ok x \<and> rest x)"
  by (cases m) auto

section \<open>\<open>codec/varint.rs\<close>\<close>

definition varint_round_trips_the_multicodec_range :: bool where
  "varint_round_trips_the_multicodec_range \<longleftrightarrow>
     list_all (\<lambda>value. let out = put_uvarint value in read_uvarint out = Ok (value, length out))
       [0, 1, 0x7f, 0x80, 0xed, 0xec, 0x1200, 0x1212, - 1]"

definition varint_known_encodings :: bool where
  "varint_known_encodings \<longleftrightarrow> put_uvarint 0xed = [0xed, 0x01] \<and> put_uvarint 0x1212 = [0x92, 0x24]"

definition varint_refuses_non_minimal_and_overlong :: bool where
  "varint_refuses_non_minimal_and_overlong \<longleftrightarrow>
     read_uvarint [0x80, 0x00] = Err InvalidVarint
     \<and> read_uvarint [0x80] = Err UnexpectedEnd
     \<and> read_uvarint (replicate 10 0xff) = Err InvalidVarint"

lemma varint_round_trips_the_multicodec_range: varint_round_trips_the_multicodec_range
  using read_put_uvarint [of _ "[]"] by (simp add: varint_round_trips_the_multicodec_range_def Let_def)

lemma varint_known_encodings: varint_known_encodings
  by (simp add: varint_known_encodings_def put_uvarint.simps)

lemma replicate_ten: "replicate 10 x = [x, x, x, x, x, x, x, x, x, x]"
  by (simp add: eval_nat_numeral)

lemma varint_refuses_non_minimal_and_overlong: varint_refuses_non_minimal_and_overlong
  unfolding varint_refuses_non_minimal_and_overlong_def read_uvarint_def replicate_ten
  by (simp add: uvarint_loop.simps)

section \<open>\<open>time.rs\<close>\<close>

definition time_bounds_are_enforced :: bool where
  "time_bounds_are_enforced \<longleftrightarrow>
     is_ok (from_unix (push_bit 53 1 - 1))
     \<and> from_unix (push_bit 53 1) = Err OutOfRange
     \<and> from_unix (- (push_bit 53 1)) = Err OutOfRange
     \<and> plus_seconds (Timestamp ts_max) 5 = Timestamp ts_max"

definition time_expiry_is_inclusive_and_skew_extends_it :: bool where
  "time_expiry_is_inclusive_and_skew_extends_it \<longleftrightarrow>
     unwrap_in (from_unix 100) (\<lambda>at.
     let exp = At at in
     \<not> is_past exp at 0
     \<and> unwrap_in (from_unix 101) (\<lambda>t. is_past exp t 0)
     \<and> unwrap_in (from_unix 160) (\<lambda>t. \<not> is_past exp t 60)
     \<and> \<not> is_past Never (Timestamp ts_max) 0)"

lemma time_bounds_are_enforced: time_bounds_are_enforced
  by (simp add: time_bounds_are_enforced_def from_unix_def ts_bounds plus_seconds_def i64_saturating_add_def push_bit_eq_mult)

lemma time_expiry_is_inclusive_and_skew_extends_it: time_expiry_is_inclusive_and_skew_extends_it
  by (simp add: time_expiry_is_inclusive_and_skew_extends_it_def from_unix_def is_past_def plus_seconds_def
      i64_saturating_add_def less_timestamp_def ts_bounds)

section \<open>\<open>command.rs\<close>\<close>

text \<open>The hiragana of the last example, which no table of uppercase letters holds.\<close>

definition hiragana_path :: str where
  "hiragana_path = [slash, uchar_of 0x307B, uchar_of 0x3052, slash, uchar_of 0x3075, uchar_of 0x304C]"

definition command_accepts_the_specification_examples :: "(uchar \<Rightarrow> bool) \<Rightarrow> bool" where
  "command_accepts_the_specification_examples upper \<longleftrightarrow>
     list_all (\<lambda>text. unwrap_in (command_parse upper text) (\<lambda>c. cmd_str c = text))
       [lit ''/'', lit ''/crud'', lit ''/crud/create'', lit ''/stack/pop'', lit ''/foo/bar/baz/qux/quux'',
        hiragana_path]"

definition command_refuses_malformed_paths :: "(uchar \<Rightarrow> bool) \<Rightarrow> bool" where
  "command_refuses_malformed_paths upper \<longleftrightarrow>
     command_parse upper (lit '''') = Err EmptyCommand
     \<and> command_parse upper (lit ''crud'') = Err MissingLeadingSlash
     \<and> command_parse upper (lit ''/crud/'') = Err TrailingSlash
     \<and> command_parse upper (lit ''/crud//read'') = Err EmptySegment
     \<and> command_parse upper (lit ''/Crud'') = Err Uppercase"

definition command_coverage_is_on_segment_boundaries :: "(uchar \<Rightarrow> bool) \<Rightarrow> bool" where
  "command_coverage_is_on_segment_boundaries upper \<longleftrightarrow>
     unwrap_in (command_parse upper (lit ''/crypto'')) (\<lambda>crypto.
     unwrap_in (command_parse upper (lit ''/crypto/sign'')) (\<lambda>sign.
     unwrap_in (command_parse upper (lit ''/cryptocurrency'')) (\<lambda>coin.
     covers root sign \<and> covers crypto sign \<and> covers crypto crypto
     \<and> \<not> covers crypto coin \<and> \<not> covers sign crypto \<and> \<not> covers sign root)))"

text \<open>
  The tables of uppercase characters that agree with ASCII and hold none of the hiragana.
\<close>

definition upper_table_ok :: "(uchar \<Rightarrow> bool) \<Rightarrow> bool" where
  "upper_table_ok upper \<longleftrightarrow>
     (\<forall>c. code_point c < 0x80 \<longrightarrow> upper c = is_ascii_uppercase c)
     \<and> (\<forall>c. 0x3040 \<le> code_point c \<and> code_point c < 0x30A0 \<longrightarrow> \<not> upper c)"

lemma upper_ascii: "upper_table_ok upper \<Longrightarrow> of_char c < (0x80 :: nat) \<Longrightarrow> upper (ascii c) = is_ascii_uppercase (ascii c)"
  by (simp add: upper_table_ok_def)

lemma upper_hiragana:
  "upper_table_ok upper \<Longrightarrow> 0x3040 \<le> n \<Longrightarrow> n < 0x30A0 \<Longrightarrow> \<not> upper (uchar_of n)"
  by (simp add: upper_table_ok_def scalar_def)

lemmas command_test_simps = command_parse_def upper_ascii upper_hiragana ends_with_char_def char_class_defs
  str_len_def utf8_char_def scalar_def uchar_eq_iff covers_def is_root_def root_def

lemma command_accepts_the_specification_examples:
  "upper_table_ok upper \<Longrightarrow> command_accepts_the_specification_examples upper"
  by (simp add: command_accepts_the_specification_examples_def hiragana_path_def command_test_simps)

lemma command_refuses_malformed_paths: "upper_table_ok upper \<Longrightarrow> command_refuses_malformed_paths upper"
  by (simp add: command_refuses_malformed_paths_def command_test_simps)

lemma command_coverage_is_on_segment_boundaries:
  "upper_table_ok upper \<Longrightarrow> command_coverage_is_on_segment_boundaries upper"
  by (simp add: command_coverage_is_on_segment_boundaries_def command_test_simps)

section \<open>\<open>did.rs\<close>\<close>

definition did_parses_and_splits :: bool where
  "did_parses_and_splits \<longleftrightarrow>
     unwrap_in (did_parse (lit ''did:example:abc:def/path?q=1#frag'')) (\<lambda>did.
     did_method did = lit ''example''
     \<and> method_id did = lit ''abc:def''
     \<and> base did = lit ''did:example:abc:def''
     \<and> fragment did = Some (lit ''frag'')
     \<and> unwrap_in (did_parse (lit ''did:example:abc:def#other'')) (\<lambda>other. same_principal did other)
     \<and> unwrap_in (did_parse (lit ''did:example:abc'')) (\<lambda>other. \<not> same_principal did other))"

definition did_refuses_malformed_strings :: bool where
  "did_refuses_malformed_strings \<longleftrightarrow>
     did_parse (lit ''key:z6Mk'') = Err Scheme
     \<and> did_parse (lit ''did:Key:z6Mk'') = Err Method
     \<and> did_parse (lit ''did::z6Mk'') = Err Method
     \<and> did_parse (lit ''did:key'') = Err MethodId
     \<and> did_parse (lit ''did:key:'') = Err MethodId
     \<and> did_parse (lit ''did:key:abc:'') = Err MethodId
     \<and> did_parse (lit ''did:key:a b'') = Err MethodId
     \<and> did_parse (lit ''did:key:a%2'') = Err MethodId
     \<and> is_ok (did_parse (lit ''did:key:a%2F''))"

definition did_key_rejects_the_near_misses :: "'c cid_lib \<Rightarrow> 's crypto_lib \<Rightarrow> bool" where
  "did_key_rejects_the_near_misses L K \<longleftrightarrow>
     unwrap_in (did_parse (lit ''did:web:example.com'')) (\<lambda>d. did_key L K d = Err NotKey)
     \<and> unwrap_in (did_parse (lit ''did:key:f6Mk'')) (\<lambda>d. did_key L K d = Err Multibase)
     \<and> unwrap_in (did_parse (lit ''did:key:z0'')) (\<lambda>d. did_key L K d = Err Base58)
     \<and> (let raw = put_uvarint 0x1300 @ replicate 32 0;
            text = lit ''did:key:z'' @ bs58_encode L raw
        in unwrap_in (did_parse text) (\<lambda>d. did_key L K d = Err (UnknownKeyType 0x1300)))"

lemmas did_test_simps = did_parse_def before_url_parts_def url_delimiter_def ends_with_char_def
  char_class_defs utf8_char_def id_byte_def byte_between_def byte_is_hexdigit_def base_def base_rest_def
  did_method_def method_id_def fragment_def same_principal_def uchar_eq_iff

lemma did_parses_and_splits: did_parses_and_splits
  by (simp add: did_parses_and_splits_def did_test_simps)

lemma did_refuses_malformed_strings: did_refuses_malformed_strings
  by (simp add: did_refuses_malformed_strings_def did_test_simps)

lemma did_key_rejects_the_near_misses:
  assumes "bs58_ok L" "bs58_decode L (lit ''0'') = None"
  shows "did_key_rejects_the_near_misses L K"
proof -
  let ?raw = "put_uvarint 0x1300 @ replicate 32 0" and ?d = "\<lambda>raw. Did (lit ''did:key:z'' @ bs58_encode L raw)"
  have "bs58_decode L (bs58_encode L ?raw) = Some ?raw" using assms(1) by (simp add: bs58_ok_def)
  then have "did_key L K (?d ?raw) = Err (UnknownKeyType 0x1300)"
    unfolding did_key_def did_key_text [OF assms(1)]
    by (simp add: read_put_uvarint from_multicodec_def ALL_ALGORITHMS_def)
  then have "unwrap_in (did_parse (lit ''did:key:z'' @ bs58_encode L ?raw)) (\<lambda>d. did_key L K d = Err (UnknownKeyType 0x1300))"
    using did_key_text(1) [OF assms(1), of ?raw] by (simp only: did.sel unwrap_in.simps)
  moreover have "unwrap_in (did_parse (lit ''did:web:example.com'')) (\<lambda>d. did_key L K d = Err NotKey)"
    "unwrap_in (did_parse (lit ''did:key:f6Mk'')) (\<lambda>d. did_key L K d = Err Multibase)"
    "unwrap_in (did_parse (lit ''did:key:z0'')) (\<lambda>d. did_key L K d = Err Base58)"
    using assms(2) by (simp_all add: did_key_def did_test_simps)
  ultimately show ?thesis unfolding did_key_rejects_the_near_misses_def Let_def by blast
qed

section \<open>\<open>varsig.rs\<close>\<close>

definition varsig_bytes_match_the_wire_format_table :: bool where
  "varsig_bytes_match_the_wire_format_table \<longleftrightarrow>
     list_all (\<lambda>(algorithm, bytes).
         let header = header_new algorithm in
         header_encode header = bytes \<and> header_decode (header_encode header) = Ok header)
       [(Ed25519, [0x34, 0x01, 0xed, 0x01, 0xed, 0x01, 0x13, 0x71]),
        (P256, [0x34, 0x01, 0xec, 0x01, 0x80, 0x24, 0x12, 0x71]),
        (Secp256k1, [0x34, 0x01, 0xec, 0x01, 0xe7, 0x01, 0x12, 0x71]),
        (MlDsa44, [0x34, 0x01, 0x90, 0x24, 0x71]),
        (MlDsa65, [0x34, 0x01, 0x91, 0x24, 0x71]),
        (MlDsa87, [0x34, 0x01, 0x92, 0x24, 0x71])]"

definition varsig_dag_json_changes_only_the_last_segment :: bool where
  "varsig_dag_json_changes_only_the_last_segment \<longleftrightarrow>
     (let header = with_encoding DagJson (header_new Ed25519) in
      header_encode header = [0x34, 0x01, 0xed, 0x01, 0xed, 0x01, 0x13, 0xa9, 0x02]
      \<and> header_decode (header_encode header) = Ok header
      \<and> display_header header = lit ''varsig(Ed25519 over dag-json)''
      \<and> h_encoding (header_new Ed25519) = DagCbor)"

definition varsig_refuses_what_it_does_not_understand :: bool where
  "varsig_refuses_what_it_does_not_understand \<longleftrightarrow>
     header_decode [0x35, 0x01, 0xed, 0x01, 0xed, 0x01, 0x13, 0x71] = Err VarsigPrefix
     \<and> header_decode [0x34, 0x02, 0xed, 0x01, 0xed, 0x01, 0x13, 0x71] = Err VarsigVersion
     \<and> header_decode [0x34, 0x01] = Err Truncated
     \<and> header_decode [0x34, 0x01, 0xed, 0x01, 0xed, 0x01, 0x12, 0x71] = Err UnsupportedParameters
     \<and> header_decode [0x34, 0x01, 0x85, 0x24, 0x12, 0x80, 0x02, 0x71] = Err (UnknownAlgorithm 0x1205)
     \<and> header_decode [0x34, 0x01, 0xed, 0x01, 0xed, 0x01, 0x13, 0x5f] = Err (UnsupportedEncoding 0x5f)
     \<and> header_decode [0x34, 0x01, 0xed, 0x01, 0xed, 0x01, 0x13, 0xf1] = Err VarsigVarint
     \<and> header_decode [0x34, 0x01, 0xed, 0x01, 0xed, 0x01, 0x13, 0x71, 0x00] = Err UnsupportedParameters"

lemmas varsig_test_simps = header_encode_def header_new_def with_encoding_def PREFIX_def VERSION_def
  varsig_codes put_uvarint.simps

lemma varsig_bytes_match_the_wire_format_table: varsig_bytes_match_the_wire_format_table
  by (simp add: varsig_bytes_match_the_wire_format_table_def header_decode_iff)
    (simp add: varsig_test_simps)

lemma varsig_dag_json_changes_only_the_last_segment: varsig_dag_json_changes_only_the_last_segment
  by (simp add: varsig_dag_json_changes_only_the_last_segment_def header_decode_iff Let_def)
    (simp add: varsig_test_simps display_header_def display_algorithm_def)

lemma varsig_refuses_what_it_does_not_understand: varsig_refuses_what_it_does_not_understand
  by (simp add: varsig_refuses_what_it_does_not_understand_def header_decode_def varsig_test_simps
      read_segments.simps read_uvarint_def uvarint_loop.simps Let_def slice_get_def ALL_ALGORITHMS_def encoding_from_code_def from_multicodec_def)

section \<open>\<open>crypto/mod.rs\<close> and \<open>crypto/ml_dsa.rs\<close>\<close>

definition crypto_multicodecs_round_trip :: bool where
  "crypto_multicodecs_round_trip \<longleftrightarrow>
     list_all (\<lambda>algorithm. from_multicodec (multicodec algorithm) = Some algorithm) ALL_ALGORITHMS
     \<and> from_multicodec 0x1300 = None"

definition crypto_lengths_are_checked_before_anything_else :: "'s crypto_lib \<Rightarrow> bool" where
  "crypto_lengths_are_checked_before_anything_else K \<longleftrightarrow>
     public_key_new K MlDsa87 (replicate 31 0) = Err (InvalidKey MlDsa87)
     \<and> signature_new Ed25519 (replicate 63 0) = Err InvalidSignature"

lemma crypto_multicodecs_round_trip: crypto_multicodecs_round_trip
  by (simp add: crypto_multicodecs_round_trip_def ALL_ALGORITHMS_def from_multicodec_def)

lemma crypto_lengths_are_checked_before_anything_else: "crypto_lengths_are_checked_before_anything_else K"
  by (simp add: crypto_lengths_are_checked_before_anything_else_def public_key_new_def signature_new_def)

text \<open>The backend is never asked: what it would have drawn does not matter.\<close>

definition ml_dsa_refuses_a_classical_algorithm :: "'s crypto_lib \<Rightarrow> 's option \<Rightarrow> bool" where
  "ml_dsa_refuses_a_classical_algorithm K drawn \<longleftrightarrow> ml_dsa_generate K Ed25519 drawn = Err (Unsupported Ed25519)"

lemma ml_dsa_refuses_a_classical_algorithm: "ml_dsa_refuses_a_classical_algorithm K drawn"
  by (simp add: ml_dsa_refuses_a_classical_algorithm_def ml_dsa_generate_def ml_dsa_signing_def)

end
