(* ===== verification/Tests_Policy.thy ===== *)
theory Tests_Policy
  imports Tests_Basic Glob Selector Policy_Laws
begin

text \<open>The unit tests of the policy language: \<open>policy/glob.rs\<close>, \<open>policy/selector.rs\<close> and \<open>policy/mod.rs\<close>.\<close>

section \<open>\<open>policy/glob.rs\<close>\<close>

text \<open>A backslash cannot stand in a literal.\<close>

definition glob_specification_vectors :: bool where
  "glob_specification_vectors \<longleftrightarrow>
     (let pattern = pattern_parse (lit ''Alice'' @ backslash # lit ''*, Bob*, Carol.'') in
      list_all (\<lambda>ok. matches pattern (lit ok))
        [''Alice*, Bob, Carol.'', ''Alice*, Bob, Dan, Erin, Carol.'', ''Alice*, Bob  , Carol.'',
         ''Alice*, Bob*, Carol.'']
      \<and> list_all (\<lambda>bad. \<not> matches pattern (lit bad))
        [''Alice*, Bob, Carol'', ''Alice*, Bob*, Carol!'', ''Alice, Bob, Carol.'',
         ''Alice Cooper, Bob, Carol.'', '' Alice*, Bob, Carol. ''])"

definition glob_stars_at_the_edges_and_in_the_middle :: bool where
  "glob_stars_at_the_edges_and_in_the_middle \<longleftrightarrow>
     matches (pattern_parse (lit ''*@example.com'')) (lit ''bob@example.com'')
     \<and> \<not> matches (pattern_parse (lit ''*@example.com'')) (lit ''bob@example.org'')
     \<and> matches (pattern_parse (lit ''a*b*c'')) (lit ''abc'')
     \<and> matches (pattern_parse (lit ''a*b*c'')) (lit ''a--b--c'')
     \<and> \<not> matches (pattern_parse (lit ''a*b*c'')) (lit ''a--c'')
     \<and> matches (pattern_parse (lit ''*'')) (lit '''')
     \<and> matches (pattern_parse (lit '''')) (lit '''')
     \<and> \<not> matches (pattern_parse (lit '''')) (lit ''x'')
     \<and> matches (pattern_parse (backslash # backslash # lit ''*'')) (backslash # lit ''*'')"

lemmas glob_test_simps = matches_iff_glob pattern_parse_def

lemma glob_specification_vectors: glob_specification_vectors
  by (simp add: glob_specification_vectors_def glob_test_simps)

lemma glob_stars_at_the_edges_and_in_the_middle: glob_stars_at_the_edges_and_in_the_middle
  by (simp add: glob_stars_at_the_edges_and_in_the_middle_def glob_test_simps)

section \<open>\<open>policy/selector.rs\<close>\<close>

text \<open>\<open>entries.into_iter().collect::<BTreeMap>()\<close>.\<close>

definition collect_map :: "(string \<times> 'c ipld) list \<Rightarrow> 'c ipld" where
  "collect_map entries = IMap (foldl (\<lambda>m (k, v). bt_insert (lit k) v m) [] entries)"

abbreviation ipld_text :: "string \<Rightarrow> 'c ipld" where "ipld_text s \<equiv> IString (lit s)"

definition selector_args :: "'c ipld" where
  "selector_args = collect_map
     [(''from'', ipld_text ''alice@example.com''),
      (''to'', IList [ipld_text ''bob@example.com'', ipld_text ''carol@not.example.com'',
         ipld_text ''dan@example.com'']),
      (''cc'', IList [ipld_text ''fraud@example.com'']),
      (''title'', ipld_text ''Meeting Confirmation''),
      (''raw'', IBytes [0xd6, 0xa9, 0xc1, 0x8c, 0xf8, 0xc4])]"

text \<open>An error is the panic of the \<open>unwrap\<close>.\<close>

definition select :: "string \<Rightarrow> selector_error + 'c ipld option" where
  "select text = map_ok (\<lambda>sel. resolve sel selector_args) (selector_parse (lit text))"

lemma selector_args_eq:
  "selector_args = IMap
     [(lit ''cc'', IList [ipld_text ''fraud@example.com'']),
      (lit ''from'', ipld_text ''alice@example.com''),
      (lit ''raw'', IBytes [0xd6, 0xa9, 0xc1, 0x8c, 0xf8, 0xc4]),
      (lit ''title'', ipld_text ''Meeting Confirmation''),
      (lit ''to'', IList [ipld_text ''bob@example.com'', ipld_text ''carol@not.example.com'',
         ipld_text ''dan@example.com''])]"
  by (simp add: selector_args_def collect_map_def uchar_less_iff)

lemmas parse_test_simps = selector_parse_def parse_loop.simps nth_opt_def char_class_defs
  is_ident_start_def is_ident_def run_from_def bracket_def close_bracket_def integer_at_def parse_int_def
  decimal_def digit_val_def i64_min_def i64_max_def mark_last_optional_def Let_def

definition selector_specification_table :: "'c itself \<Rightarrow> bool" where
  "selector_specification_table _ \<longleftrightarrow>
     select ''.'' = Ok (Some (selector_args :: 'c ipld))
     \<and> select ''.title'' = Ok (Some (ipld_text ''Meeting Confirmation'' :: 'c ipld))
     \<and> select ''.to[1]'' = Ok (Some (ipld_text ''carol@not.example.com'' :: 'c ipld))
     \<and> select ''.to[-1]'' = Ok (Some (ipld_text ''dan@example.com'' :: 'c ipld))
     \<and> select ''.to[99]?'' = Ok (Some (INull :: 'c ipld))
     \<and> select ''.to[99]'' = Ok (None :: 'c ipld option)
     \<and> select ''.raw[3]'' = Ok (Some (IInteger 140 :: 'c ipld))"

definition selector_missing_keys_are_null_but_do_not_chain :: "'c itself \<Rightarrow> bool" where
  "selector_missing_keys_are_null_but_do_not_chain _ \<longleftrightarrow>
     select ''.nope'' = Ok (Some (INull :: 'c ipld))
     \<and> select ''.nope.deeper'' = Ok (None :: 'c ipld option)
     \<and> select ''.nope.deeper?'' = Ok (Some (INull :: 'c ipld))
     \<and> select ''.nope?.deeper'' = Ok (None :: 'c ipld option)
     \<and> select ''.to.deeper?'' = Ok (Some (INull :: 'c ipld))
     \<and> select ''.to.deeper.more?'' = Ok (None :: 'c ipld option)"

definition selector_brackets_slices_and_values :: "'c itself \<Rightarrow> bool" where
  "selector_brackets_slices_and_values _ \<longleftrightarrow>
     unwrap_in (select ''.from'') (\<lambda>from. select ''.[\"from\"]'' = Ok (from :: 'c ipld option))
     \<and> select ''.to[1:]'' = Ok (Some (IList [ipld_text ''carol@not.example.com'', ipld_text ''dan@example.com''] :: 'c ipld))
     \<and> select ''.to[:1]'' = Ok (Some (IList [ipld_text ''bob@example.com''] :: 'c ipld))
     \<and> select ''.to[0:-2]'' = Ok (Some (IList [ipld_text ''bob@example.com''] :: 'c ipld))
     \<and> select ''.to[5:9]'' = Ok (Some (IList [] :: 'c ipld))
     \<and> unwrap_in (select ''.to'') (\<lambda>to. select ''.to[]'' = Ok (to :: 'c ipld option))
     \<and> select ''.raw[1:3]'' = Ok (Some (IBytes [0xa9, 0xc1] :: 'c ipld))
     \<and> unwrap_in (select ''.[]'') (\<lambda>found. case found :: 'c ipld option of
          Some (IList values) \<Rightarrow> length values = 5 | _ \<Rightarrow> False)
     \<and> select ''.title[0]'' = Ok (None :: 'c ipld option)"

definition selector_refuses_bad_syntax :: bool where
  "selector_refuses_bad_syntax \<longleftrightarrow>
     selector_parse (lit '''') = Err SelEmpty
     \<and> selector_parse (lit ''foo'') = Err MissingLeadingDot
     \<and> selector_parse (lit ''..foo'') = Err DoubleDot
     \<and> selector_parse (lit ''.foo.'') = Err TrailingDot
     \<and> selector_parse (lit ''.?'') = Err DanglingOptional
     \<and> selector_parse (lit ''.foo[0]bar'') = Err (Unexpected 7)
     \<and> selector_parse (lit ''.[\"x'') = Err UnterminatedString
     \<and> selector_parse (lit ''.[\"'' @ bslash # lit ''q\"]'') = Err BadEscape
     \<and> selector_parse (lit ''.[-]'') = Err BadIndex
     \<and> is_ok (selector_parse (lit ''.foo???''))
     \<and> is_ok (selector_parse (lit ''.[\"a'' @ bslash # lit ''u0041\"]''))"

lemmas quoted_test_simps = quoted_def quoted_loop.simps escape_at_def slice_get_def u32_from_hex_def
  hexadecimal_def hex_val_def char_from_u32_def scalar_def

lemmas select_test_simps = select_def resolve_def selector_args_eq bt_get_def bt_values_def index_of_def
  bounds_def clamp_index_def slice_get_def

lemma selector_specification_table: "selector_specification_table TYPE('c)"
  unfolding selector_specification_table_def
  by (intro conjI; simp add: select_test_simps parse_test_simps)

lemma selector_missing_keys_are_null_but_do_not_chain: "selector_missing_keys_are_null_but_do_not_chain TYPE('c)"
  unfolding selector_missing_keys_are_null_but_do_not_chain_def
  by (intro conjI; simp add: select_test_simps parse_test_simps)

lemma selector_brackets_slices_and_values: "selector_brackets_slices_and_values TYPE('c)"
  unfolding selector_brackets_slices_and_values_def
  by (intro conjI; simp add: select_test_simps parse_test_simps quoted_test_simps)

lemma selector_refuses_bad_syntax: selector_refuses_bad_syntax
  unfolding selector_refuses_bad_syntax_def
  by (intro conjI; simp add: parse_test_simps quoted_test_simps)

section \<open>\<open>policy/mod.rs\<close>\<close>

text \<open>Doubles by their bits: 1.0, 2.5 and 3.0.\<close>

definition policy_args :: "'c ipld" where
  "policy_args = collect_map
     [(''from'', ipld_text ''alice@example.com''),
      (''to'', IList [ipld_text ''bob@example.com'', ipld_text ''carol@elsewhere.example.com'']),
      (''count'', IInteger 3),
      (''ratio'', IFloat 0x3FF0000000000000),
      (''a'', IList
         [collect_map [(''b'', IInteger 1)],
          collect_map [(''b'', IInteger 2)],
          collect_map [(''z'', IList [IInteger 7])]])]"

text \<open>\<open>statement(items).holds(&args)\<close>, and its negation; both need the statement to parse.\<close>

definition statement_holds :: "'c ipld \<Rightarrow> 'c ipld list \<Rightarrow> bool" where
  "statement_holds args items = unwrap_in (statement_from_ipld (IList items)) (\<lambda>s. holds s args)"

definition statement_fails :: "'c ipld \<Rightarrow> 'c ipld list \<Rightarrow> bool" where
  "statement_fails args items = unwrap_in (statement_from_ipld (IList items)) (\<lambda>s. \<not> holds s args)"

definition policy_specification_walkthrough :: "'c itself \<Rightarrow> bool" where
  "policy_specification_walkthrough _ \<longleftrightarrow>
     unwrap_in (policy_from_ipld (IList
         [IList [ipld_text ''=='', ipld_text ''.from'', ipld_text ''alice@example.com''],
          IList [ipld_text ''any'', ipld_text ''.to'',
            IList [ipld_text ''like'', ipld_text ''.'', ipld_text ''*@example.com'']]]))
       (\<lambda>policy. policy_check policy (policy_args :: 'c ipld) = Ok ())
     \<and> unwrap_in (policy_from_ipld (IList
         [IList [ipld_text ''all'', ipld_text ''.to'',
            IList [ipld_text ''like'', ipld_text ''.'', ipld_text ''*@example.com'']]]))
       (\<lambda>strict. policy_check strict (policy_args :: 'c ipld) = Err 0)"

definition policy_quantifiers_reduce_as_the_specification_shows :: "'c itself \<Rightarrow> bool" where
  "policy_quantifiers_reduce_as_the_specification_shows _ \<longleftrightarrow>
     statement_fails (policy_args :: 'c ipld)
       [ipld_text ''all'', ipld_text ''.a'', IList [ipld_text ''>'', ipld_text ''.b'', IInteger 0]]
     \<and> statement_holds (policy_args :: 'c ipld)
       [ipld_text ''any'', ipld_text ''.a'', IList [ipld_text ''=='', ipld_text ''.b'', IInteger 2]]
     \<and> statement_fails (policy_args :: 'c ipld)
       [ipld_text ''all'', ipld_text ''.count'', IList [ipld_text ''>'', ipld_text ''.'', IInteger 0]]
     \<and> (let empty = collect_map [(''xs'', IList [])] :: 'c ipld in
        statement_holds empty
          [ipld_text ''all'', ipld_text ''.xs'', IList [ipld_text ''=='', ipld_text ''.'', IInteger 1]]
        \<and> statement_holds empty
          [ipld_text ''any'', ipld_text ''.xs'', IList [ipld_text ''=='', ipld_text ''.'', IInteger 1]])"

definition policy_numbers_compare_across_types_and_non_numbers_are_false :: "'c itself \<Rightarrow> bool" where
  "policy_numbers_compare_across_types_and_non_numbers_are_false _ \<longleftrightarrow>
     statement_holds (policy_args :: 'c ipld) [ipld_text ''>='', ipld_text ''.count'', IFloat 0x4008000000000000]
     \<and> statement_holds (policy_args :: 'c ipld) [ipld_text ''<'', ipld_text ''.ratio'', IInteger 2]
     \<and> statement_holds (policy_args :: 'c ipld) [ipld_text ''=='', ipld_text ''.ratio'', IInteger 1]
     \<and> statement_fails (policy_args :: 'c ipld) [ipld_text ''>'', ipld_text ''.from'', IInteger 0]
     \<and> statement_fails (policy_args :: 'c ipld) [ipld_text ''>'', ipld_text ''.missing'', IInteger 0]
     \<and> statement_holds (policy_args :: 'c ipld) [ipld_text ''!='', ipld_text ''.missing.deeper'', IInteger 0]"

definition policy_connectives :: "'c itself \<Rightarrow> bool" where
  "policy_connectives _ \<longleftrightarrow>
     statement_holds (policy_args :: 'c ipld) [ipld_text ''and'', IList []]
     \<and> statement_holds (policy_args :: 'c ipld) [ipld_text ''or'', IList []]
     \<and> statement_fails (policy_args :: 'c ipld)
       [ipld_text ''not'', IList [ipld_text ''=='', ipld_text ''.count'', IInteger 3]]
     \<and> statement_holds (policy_args :: 'c ipld)
       [ipld_text ''or'', IList
          [IList [ipld_text ''=='', ipld_text ''.count'', IInteger 4],
           IList [ipld_text ''=='', ipld_text ''.count'', IInteger 3]]]"

definition policy_deep_equality_is_exact_on_structure :: "'c itself \<Rightarrow> bool" where
  "policy_deep_equality_is_exact_on_structure _ \<longleftrightarrow>
     (let exact = IList [ipld_text ''bob@example.com'', ipld_text ''carol@elsewhere.example.com''] in
      statement_holds (policy_args :: 'c ipld) [ipld_text ''=='', ipld_text ''.to'', exact])
     \<and> statement_fails (policy_args :: 'c ipld)
       [ipld_text ''=='', ipld_text ''.to'', IList [ipld_text ''bob@example.com'']]"

definition policy_wire_form_round_trips_verbatim :: "'c itself \<Rightarrow> bool" where
  "policy_wire_form_round_trips_verbatim _ \<longleftrightarrow>
     (let wire = IList
        [IList [ipld_text ''=='', ipld_text ''.status'', ipld_text ''draft''],
         IList [ipld_text ''all'', ipld_text ''.reviewer'',
           IList [ipld_text ''like'', ipld_text ''.email'', ipld_text ''*@example.com'']],
         IList [ipld_text ''not'',
           IList [ipld_text ''and'',
             IList [IList [ipld_text ''<='', ipld_text ''.n'', IFloat 0x4004000000000000]]]]] :: 'c ipld
      in unwrap_in (policy_from_ipld wire) (\<lambda>p. policy_to_ipld p = wire))"

definition policy_refuses_malformed_statements :: "'c itself \<Rightarrow> bool" where
  "policy_refuses_malformed_statements _ \<longleftrightarrow>
     policy_from_ipld (ipld_text ''x'' :: 'c ipld) = Err NotAList
     \<and> statement_from_ipld (IList [] :: 'c ipld) = Err MissingOperator
     \<and> statement_from_ipld (IList [ipld_text ''==''] :: 'c ipld) = Err (Arity (lit ''==''))
     \<and> statement_from_ipld (IList [ipld_text ''<'', ipld_text ''.a'', ipld_text ''1''] :: 'c ipld) = Err ExpectedNumber
     \<and> statement_from_ipld (IList [ipld_text ''match'', ipld_text ''.a'', ipld_text ''x''] :: 'c ipld)
       = Err (UnknownOperator (lit ''match''))
     \<and> statement_from_ipld (IList [ipld_text ''and'', ipld_text ''.a''] :: 'c ipld) = Err ExpectedStatementList
     \<and> (case statement_from_ipld (IList [ipld_text ''=='', ipld_text ''a'', ipld_text ''x''] :: 'c ipld) of
          Inl (PolicySelector _) \<Rightarrow> True | _ \<Rightarrow> False)"

lemma policy_args_eq:
  "policy_args = IMap
     [(lit ''a'', IList [IMap [(lit ''b'', IInteger 1)], IMap [(lit ''b'', IInteger 2)],
         IMap [(lit ''z'', IList [IInteger 7])]]),
      (lit ''count'', IInteger 3),
      (lit ''from'', ipld_text ''alice@example.com''),
      (lit ''ratio'', IFloat 0x3FF0000000000000),
      (lit ''to'', IList [ipld_text ''bob@example.com'', ipld_text ''carol@elsewhere.example.com''])]"
  by (simp add: policy_args_def collect_map_def uchar_less_iff)

lemmas statement_test_simps = statement_from_ipld.simps value_operand_def comparison_def like_operand_def
  arity_def selector_operand_def number_operand_def

lemmas holds_test_simps = statement_holds_def statement_fails_def policy_args_eq resolve_def bt_get_def
  selected_equal_def compare_def elements_def equal.simps is_number_def glob_test_simps

text \<open>The values of the doubles, as integers where the comparison turns them into one.\<close>

lemma int_float_scaled:
  assumes "f64_is_finite f" "f64_scaled f = n * 2 ^ 1074" "\<bar>f64_scaled f\<bar> < f64_scaled float_1e38"
  shows "int_float i f = Some (cmp i n)"
  using int_float_exact [of f i] assms by (simp only: float_exact_def cmp_mult zero_less_power zero_less_numeral)

lemmas f64_test_simps = f64_is_finite_def f64_scaled_def f64_exponent_def f64_mantissa_def f64_negative_def

lemma int_float_one: "int_float i 0x3FF0000000000000 = Some (cmp i 1)"
  by (rule int_float_scaled) (simp_all add: float_1e38_def f64_test_simps)

lemma int_float_three: "int_float i 0x4008000000000000 = Some (cmp i 3)"
  by (rule int_float_scaled) (simp_all add: float_1e38_def f64_test_simps)

lemma policy_numbers_compare_across_types_and_non_numbers_are_false:
  "policy_numbers_compare_across_types_and_non_numbers_are_false TYPE('c)"
  unfolding policy_numbers_compare_across_types_and_non_numbers_are_false_def
  by (intro conjI; simp add: statement_test_simps parse_test_simps holds_test_simps int_float_one int_float_three cmp_def)

lemma policy_specification_walkthrough: "policy_specification_walkthrough TYPE('c)"
  unfolding policy_specification_walkthrough_def policy_from_ipld_def policy_check_def
  by (intro conjI; simp add: statement_test_simps parse_test_simps holds_test_simps)

lemma policy_quantifiers_reduce_as_the_specification_shows: "policy_quantifiers_reduce_as_the_specification_shows TYPE('c)"
  unfolding policy_quantifiers_reduce_as_the_specification_shows_def Let_def
  by (intro conjI; simp add: collect_map_def statement_test_simps parse_test_simps holds_test_simps)

lemma policy_connectives: "policy_connectives TYPE('c)"
  unfolding policy_connectives_def
  by (intro conjI; simp add: statement_test_simps parse_test_simps holds_test_simps)

lemma policy_deep_equality_is_exact_on_structure: "policy_deep_equality_is_exact_on_structure TYPE('c)"
  unfolding policy_deep_equality_is_exact_on_structure_def Let_def
  by (intro conjI; simp add: statement_test_simps parse_test_simps holds_test_simps)

lemma policy_wire_form_round_trips_verbatim: "policy_wire_form_round_trips_verbatim TYPE('c)"
  unfolding policy_wire_form_round_trips_verbatim_def policy_from_ipld_def policy_to_ipld_def
  by (simp add: statement_test_simps parse_test_simps triple_def pattern_parse_def)

lemma policy_refuses_malformed_statements: "policy_refuses_malformed_statements TYPE('c)"
  unfolding policy_refuses_malformed_statements_def policy_from_ipld_def
  by (intro conjI; simp add: statement_test_simps parse_test_simps)

end
