(* ===== verification/Tests_Codec.thy ===== *)
theory Tests_Codec
  imports Tests_Policy Cbor Dag_Json_Laws
begin

text \<open>
  The unit tests of the codecs, \<open>codec/decode.rs\<close> and \<open>codec/json.rs\<close>. The comparisons with the
  third-party \<open>serde_ipld\<close> codecs are left out. A test that makes a CID needs of the CID library what the
  lemma that it passes assumes.
\<close>

section \<open>\<open>codec/decode.rs\<close>\<close>

definition cbor_integers_use_the_shortest_form :: "'c cid_lib \<Rightarrow> bool" where
  "cbor_integers_use_the_shortest_form L \<longleftrightarrow>
     list_all (\<lambda>(value, bytes). encode L (IInteger value) = Ok bytes \<and> decode L bytes = Ok (IInteger value))
       [(0, [0x00]), (23, [0x17]), (24, [0x18, 0x18]), (255, [0x18, 0xff]), (256, [0x19, 0x01, 0x00]),
        (-1, [0x20]), (-25, [0x38, 0x18]),
        (2 ^ 64 - 1, [0x1b, 0xff, 0xff, 0xff, 0xff, 0xff, 0xff, 0xff, 0xff])]
     \<and> decode L [0x18, 0x17] = Err NonMinimalInteger
     \<and> decode L [0x19, 0x00, 0xff] = Err NonMinimalInteger
     \<and> encode L (IInteger (2 ^ 64 - 1 + 1)) = Err IntegerOutOfRange"

definition cbor_maps_sort_by_length_then_bytes :: "'c cid_lib \<Rightarrow> bool" where
  "cbor_maps_sort_by_length_then_bytes L \<longleftrightarrow>
     (let value = collect_map [(''nonce'', IBytes [1]), (''aud'', INull), (''meta'', INull), (''cmd'', INull)] in
      unwrap_in (encode L value) (\<lambda>bytes.
      bytes = [0xa4, 0x63, 0x61, 0x75, 0x64, 0xf6, 0x63, 0x63, 0x6d, 0x64, 0xf6, 0x64, 0x6d, 0x65, 0x74, 0x61, 0xf6,
        0x65, 0x6e, 0x6f, 0x6e, 0x63, 0x65, 0x41, 0x01]
      \<and> decode L bytes = Ok value))"

definition cbor_refuses_unsorted_and_duplicate_keys :: "'c cid_lib \<Rightarrow> bool" where
  "cbor_refuses_unsorted_and_duplicate_keys L \<longleftrightarrow>
     decode L [0xa2, 0x61, 0x62, 0x01, 0x61, 0x61, 0x01] = Err UnsortedKeys
     \<and> decode L [0xa2, 0x61, 0x61, 0x01, 0x61, 0x61, 0x01] = Err DuplicateKey
     \<and> decode L [0xa1, 0x01, 0x01] = Err NonStringKey"

definition cbor_refuses_indefinite_lengths_trailing_bytes_and_odd_floats :: "'c cid_lib \<Rightarrow> bool" where
  "cbor_refuses_indefinite_lengths_trailing_bytes_and_odd_floats L \<longleftrightarrow>
     decode L [0x9f, 0xff] = Err IndefiniteLength
     \<and> decode L [0x01, 0x02] = Err TrailingBytes
     \<and> decode L [0xf9, 0x3c, 0x00] = Err InvalidFloat
     \<and> decode L [0xfb, 0x7f, 0xf0, 0, 0, 0, 0, 0, 0] = Err InvalidFloat
     \<and> encode L (IFloat 0x7FF8000000000000) = Err InvalidFloat
     \<and> decode L [0xf7] = Err UnsupportedSimple
     \<and> decode L [0xd9, 0x01, 0x00, 0x01] = Err (UnsupportedTag 256)"

definition cbor_links_round_trip_with_identity_prefix :: "'c cid_lib \<Rightarrow> bool" where
  "cbor_links_round_trip_with_identity_prefix L \<longleftrightarrow>
     (let cid = of_dag_cbor L (utf8 (lit ''hello'')) in
      unwrap_in (encode L (ILink cid)) (\<lambda>bytes.
      take 4 bytes = [0xd8, 0x2a, 0x58, 0x25]
      \<and> nth_opt bytes 4 = Some 0x00
      \<and> decode L bytes = Ok (ILink cid)
      \<and> (let wrong = bytes[4 := 0x01] in decode L wrong = Err InvalidCid)))"

definition cbor_a_link_with_bytes_after_the_cid_is_refused :: "'c cid_lib \<Rightarrow> bool" where
  "cbor_a_link_with_bytes_after_the_cid_is_refused L \<longleftrightarrow>
     (let cid = cid_to_bytes L (of_dag_cbor L (utf8 (lit ''hello''))) in
      length cid + 2 < 256
      \<and> (let bytes = [0xd8, 0x2a, 0x58, of_nat (length cid + 2), 0x00] @ cid @ [0xff] in
         cid_try_from_bytes L (drop 5 bytes) \<noteq> None \<and> decode L bytes = Err InvalidCid))"

definition cbor_nesting_is_bounded :: "'c cid_lib \<Rightarrow> bool" where
  "cbor_nesting_is_bounded L \<longleftrightarrow>
     (let deep = ((\<lambda>deep. IList [deep]) ^^ (MAX_DEPTH + 2)) INull in encode L deep = Err NestingTooDeep)
     \<and> (let bytes = replicate (MAX_DEPTH + 2) 0x81 in decode L bytes = Err NestingTooDeep)"

definition cbor_negative_zero_is_refused_and_encodes_as_zero :: "'c cid_lib \<Rightarrow> bool" where
  "cbor_negative_zero_is_refused_and_encodes_as_zero L \<longleftrightarrow>
     decode L [0xfb, 0x80, 0, 0, 0, 0, 0, 0, 0] = Err InvalidFloat
     \<and> unwrap_in (encode L (IList [IFloat 0x8000000000000000])) (\<lambda>ours.
        drop 1 ours = [0xfb, 0, 0, 0, 0, 0, 0, 0, 0]
        \<and> (case decode L ours of Inr (IList [IFloat f]) \<Rightarrow> f64_is_zero f | _ \<Rightarrow> False))"

lemmas cbor_read_simps = decode_def rd_value_def reader_new_def reader_finish_def rd_item.simps MAX_DEPTH_def
  rd_head_def rd_byte_def argument_def minimal_def rd_fixed_def rd_take_def slice_get_def nth_opt_def
  from_be_def usize_max_def usize_try_from_def rd_simple_def rd_link_def CID_TAG_def rd_text_def take_text_def

lemma rd_entries_two: "rd_entries f 2 = rd_entries f (Suc (Suc 0))"
  by (simp add: numeral_2_eq_2)

lemmas text_read_simps = rd_entries_two from_utf8.simps utf8_next_def cont_byte_def canonical_order_def str_len_def
  utf8_char_def uchar_eq_iff uchar_less_iff scalar_def cmp_def

lemma cbor_refuses_unsorted_and_duplicate_keys: "cbor_refuses_unsorted_and_duplicate_keys L"
  unfolding cbor_refuses_unsorted_and_duplicate_keys_def
  by (intro conjI; simp add: cbor_read_simps text_read_simps)

lemma cbor_refuses_indefinite_lengths_trailing_bytes_and_odd_floats:
  "cbor_refuses_indefinite_lengths_trailing_bytes_and_odd_floats L"
  unfolding cbor_refuses_indefinite_lengths_trailing_bytes_and_odd_floats_def
  by (intro conjI; simp add: cbor_read_simps f64_test_simps encode_eval)

lemma cbor_integers_use_the_shortest_form: "cbor_integers_use_the_shortest_form L"
  unfolding cbor_integers_use_the_shortest_form_def
  by (simp add: cbor_read_simps encode_eval)

lemma cbor_maps_sort_by_length_then_bytes: "cbor_maps_sort_by_length_then_bytes L"
proof -
  let ?v = "IMap [(lit ''aud'', INull), (lit ''cmd'', INull), (lit ''meta'', INull), (lit ''nonce'', IBytes [1])] :: 'a ipld"
  have v: "collect_map [(''nonce'', IBytes [1]), (''aud'', INull), (''meta'', INull), (''cmd'', INull)] = ?v"
    by (simp add: collect_map_def uchar_less_iff)
  obtain bytes where b: "encode L ?v = Ok bytes" "length bytes \<le> usize_max"
    "bytes = [0xa4, 0x63, 0x61, 0x75, 0x64, 0xf6, 0x63, 0x63, 0x6d, 0x64, 0xf6, 0x64, 0x6d, 0x65, 0x74, 0x61, 0xf6,
        0x65, 0x6e, 0x6f, 0x6e, 0x63, 0x65, 0x41, 0x01]"
    by (simp add: encode_eval usize_max_def)
  have "decode L bytes = Ok (norm_zero ?v)"
    by (rule decode_of_encode [OF b(1,2)]) (simp_all add: sample_fit)
  then show ?thesis
    unfolding cbor_maps_sort_by_length_then_bytes_def v Let_def b(1) by (simp add: b(3))
qed

lemma cbor_links_round_trip_with_identity_prefix:
  assumes "\<And>c. length (cid_to_bytes L c) = 36" "\<And>c. cid_try_from_bytes L (cid_to_bytes L c) = Some c"
  shows "cbor_links_round_trip_with_identity_prefix L"
proof -
  let ?c = "of_dag_cbor L (utf8 (lit ''hello''))"
  let ?b = "[0xd8, 0x2a, 0x58, 0x25, 0x00] @ cid_to_bytes L ?c"
  have e: "encode L (ILink ?c) = Ok ?b"
    by (simp add: encode_eval link_item_def assms(1) CID_TAG_def CID_MULTIBASE_IDENTITY_def)
  have "decode L ?b = Ok (norm_zero (ILink ?c))"
    using e by (rule decode_of_encode) (simp_all add: assms sample_fit)
  moreover have "decode L (?b[4 := 1]) = Err InvalidCid"
    by (simp add: cbor_read_simps rd_bytes_def assms(1) CID_MULTIBASE_IDENTITY_def)
  ultimately show ?thesis
    unfolding cbor_links_round_trip_with_identity_prefix_def Let_def e by (simp add: nth_opt_def)
qed

lemma cbor_a_link_with_bytes_after_the_cid_is_refused:
  assumes "\<And>c. length (cid_to_bytes L c) = 36" "\<And>c r. cid_try_from_bytes L (cid_to_bytes L c @ r) = Some c"
  shows "cbor_a_link_with_bytes_after_the_cid_is_refused L"
  unfolding cbor_a_link_with_bytes_after_the_cid_is_refused_def Let_def
  by (simp add: assms cbor_read_simps rd_bytes_def CID_MULTIBASE_IDENTITY_def cid_from_bytes_def)

lemma cbor_item_too_deep:
  "MAX_DEPTH < d + n \<Longrightarrow> cbor_item L d (((\<lambda>deep. IList [deep]) ^^ n) v) = Err NestingTooDeep"
  by (induction n arbitrary: d) (simp_all add: cbor_item.simps)

lemma rd_item_too_deep:
  "MAX_DEPTH < d + n \<Longrightarrow> p + n \<le> k \<Longrightarrow> rd_item L d \<lparr>r_bytes = replicate k 0x81, r_pos = p\<rparr> = Err NestingTooDeep"
proof (induction n arbitrary: d p)
  case (Suc n)
  then show ?case
    by (subst rd_item.simps) (simp add: rd_head_def rd_byte_def nth_opt_def argument_def usize_try_from_def usize_max_def)
qed (simp add: rd_item.simps)

lemma cbor_nesting_is_bounded: "cbor_nesting_is_bounded L"
  unfolding cbor_nesting_is_bounded_def Let_def encode_eq decode_def rd_value_def reader_new_def
  using cbor_item_too_deep [of 0 "MAX_DEPTH + 2" L INull] rd_item_too_deep [of 0 "MAX_DEPTH + 2" 0 "MAX_DEPTH + 2" L]
  by simp

lemma cbor_negative_zero_is_refused_and_encodes_as_zero: "cbor_negative_zero_is_refused_and_encodes_as_zero L"
  unfolding cbor_negative_zero_is_refused_and_encodes_as_zero_def
  by (intro conjI; simp add: cbor_read_simps f64_test_simps encode_eval f64_is_zero_def)

section \<open>\<open>codec/json.rs\<close>\<close>

definition json_round_trip :: "'c cid_lib \<Rightarrow> 'c ipld \<Rightarrow> str \<Rightarrow> bool" where
  "json_round_trip L value text \<longleftrightarrow> json_encode L value = Ok text \<and> json_decode L (utf8 text) = Ok value"

definition json_scalars_and_containers :: "'c cid_lib \<Rightarrow> bool" where
  "json_scalars_and_containers L \<longleftrightarrow>
     json_round_trip L INull (lit ''null'')
     \<and> json_round_trip L (IBool True) (lit ''true'')
     \<and> json_round_trip L (IInteger (-18446744073709551616)) (lit ''-18446744073709551616'')
     \<and> json_round_trip L (IInteger 18446744073709551615) (lit ''18446744073709551615'')
     \<and> json_round_trip L (IList []) (lit ''[]'')
     \<and> json_round_trip L (collect_map []) (lit ''{}'')
     \<and> json_round_trip L (IList [IInteger 1, ipld_text ''a'']) (lit ''[1,\"a\"]'')"

definition json_keys_sort_bytewise_not_by_length :: "'c cid_lib \<Rightarrow> bool" where
  "json_keys_sort_bytewise_not_by_length L \<longleftrightarrow>
     (let value = collect_map [(''bb'', IInteger 2), (''c'', IInteger 3), (''a'', INull)] in
      json_round_trip L value (lit ''{\"a\":null,\"bb\":2,\"c\":3}''))"

text \<open>The escape sequences of the given hexadecimal digits, in quotes.\<close>

definition unicode_escapes :: "string list \<Rightarrow> str" where
  "unicode_escapes codes =
     quote_mark # concat (map (\<lambda>code. [reverse_solidus, ascii CHR ''u''] @ lit code) codes) @ [quote_mark]"

definition json_strings_escape_only_what_json_requires :: "'c cid_lib \<Rightarrow> bool" where
  "json_strings_escape_only_what_json_requires L \<longleftrightarrow>
     (let text = lit ''quote\" slash'' @ reverse_solidus # lit '' tab'' @ uchar_of 9 # lit '' nl'' @ uchar_of 10
            # lit '' bell'' @ uchar_of 7 # lit '' accent'' @ [uchar_of 0xe9];
          json = lit ''\"quote'' @ reverse_solidus # lit ''\" slash'' @ reverse_solidus # reverse_solidus # lit '' tab''
            @ reverse_solidus # lit ''t nl'' @ reverse_solidus # lit ''n bell'' @ reverse_solidus # lit ''u0007 accent''
            @ uchar_of 0xe9 # lit ''\"''
      in json_round_trip L (IString text) json)
     \<and> json_decode L (utf8 (unicode_escapes [''00e9''])) = Err NotCanonical
     \<and> json_decode L (utf8 (unicode_escapes [''d83d'', ''de00''])) = Err NotCanonical
     \<and> json_decode L (utf8 (quote_mark # reverse_solidus # lit ''/\"'')) = Err NotCanonical
     \<and> (let emoji = [quote_mark, uchar_of 0x1F600, quote_mark] in
        json_decode L (utf8 emoji) = Ok (IString [uchar_of 0x1F600]))"

definition json_bytes_and_links_use_the_slash_forms :: "'c cid_lib \<Rightarrow> bool" where
  "json_bytes_and_links_use_the_slash_forms L \<longleftrightarrow>
     json_round_trip L (IBytes []) (lit ''{\"/\":{\"bytes\":\"\"}}'')
     \<and> json_round_trip L (IBytes [0xfb, 0xff]) (lit ''{\"/\":{\"bytes\":\"+/8\"}}'')
     \<and> json_round_trip L (IBytes (utf8 (lit ''hello''))) (lit ''{\"/\":{\"bytes\":\"aGVsbG8\"}}'')
     \<and> (let cid = of_dag_cbor L (utf8 (lit ''x'')) in
        json_round_trip L (ILink cid) (lit ''{\"/\":\"'' @ cid_to_string L cid @ lit ''\"}''))"

definition json_refuses_what_it_cannot_sign :: "'c cid_lib \<Rightarrow> bool" where
  "json_refuses_what_it_cannot_sign L \<longleftrightarrow>
     json_encode L (IFloat 0x3FF8000000000000) = Err FloatInText
     \<and> json_decode L (utf8 (lit ''1.5'')) = Err FloatInText
     \<and> json_decode L (utf8 (lit ''1e3'')) = Err FloatInText
     \<and> json_encode L (collect_map [(''/'', INull)]) = Err ReservedKey
     \<and> json_decode L (utf8 (lit ''{\"/\":1}'')) = Err ReservedKey
     \<and> json_decode L (utf8 (lit ''{\"/\":\"x\",\"a\":1}'')) = Err ReservedKey
     \<and> json_decode L (utf8 (lit ''{\"/\":\"not a cid\"}'')) = Err InvalidCid
     \<and> (let other = to_base58btc L (of_dag_cbor L (utf8 (lit ''x''))) in
        json_decode L (utf8 (lit ''{\"/\":\"'' @ other @ lit ''\"}'')) = Err InvalidCid)
     \<and> json_decode L (utf8 (lit ''{\"/\":{\"bytes\":\"!\"}}'')) = Err InvalidBase64
     \<and> json_encode L (IInteger 18446744073709551616) = Err IntegerOutOfRange
     \<and> json_decode L (utf8 (lit ''18446744073709551616'')) = Err IntegerOutOfRange"

definition json_refuses_non_canonical_text :: "'c cid_lib \<Rightarrow> bool" where
  "json_refuses_non_canonical_text L \<longleftrightarrow>
     list_all (\<lambda>text. \<not> is_ok (json_decode L (utf8 (lit text))))
       [''{\"b\":1,\"a\":2}'', ''{ \"a\":1}'', ''[1, 2]'', ''-0'', ''{\"/\":{\"bytes\":\"aGVsbG8=\"}}'',
        ''{\"/\":{\"bytes\":\"aGVsbG9\"}}'']
     \<and> json_decode L (utf8 (lit ''01'')) = Err NotCanonical
     \<and> json_decode L (utf8 (lit ''{\"a\":1,\"a\":1}'')) = Err DuplicateKey
     \<and> json_decode L (utf8 (lit ''[1]x'')) = Err TrailingBytes
     \<and> json_decode L (utf8 (lit ''\"a'')) = Err UnexpectedEnd"

definition json_nesting_is_bounded :: "'c cid_lib \<Rightarrow> bool" where
  "json_nesting_is_bounded L \<longleftrightarrow>
     (let deep = ((\<lambda>deep. IList [deep]) ^^ 200) INull in json_encode L deep = Err NestingTooDeep)
     \<and> (let text = replicate 200 open_bracket @ replicate 200 close_bracket_mark in
        json_decode L (utf8 text) = Err NestingTooDeep)"

text \<open>Decoding a text, past the UTF-8.\<close>

lemma json_decode_text:
  "json_decode L (utf8 s) =
     res_bind (js_value L 0 s) (\<lambda>(v, r).
       if r \<noteq> [] then Err TrailingBytes
       else res_bind (json_encode L v) (\<lambda>t. if t \<noteq> s then Err NotCanonical else Ok v))"
  unfolding json_decode_def utf8_inject by simp

lemma json_round_trip_fit: "json_encode L v = Ok s \<Longrightarrow> json_fit L 0 v \<Longrightarrow> json_round_trip L v s"
  by (simp add: json_round_trip_def json_decode_of_encode)

lemmas json_write_simps = json_encode_def json_item.simps MAX_DEPTH_def check_range_def u64_try_from_def
  int_to_str_def nat_to_str.simps digit_char_def json_string_def escaped_def uchar_eq_iff scalar_def
  hex_digit_char_def base64_encode.simps base64_group_def ALPHABET_def nth_opt_def

lemmas json_read_simps = js_value.simps js_literal_def js_string_def js_string_loop.simps plain_def js_expect_def
  js_next_def js_escape_def hex4_def js_number_def js_list_def js_map_def reserved_def i128_min_def i128_max_def
  bt_get_def uchar_less_iff base64_decode_def

lemmas json_fit_simps = json_fit_def bt_wf_def json_depth.simps i128_min_def i128_max_def

lemma json_scalars_and_containers: "json_scalars_and_containers L"
  unfolding json_scalars_and_containers_def collect_map_def
  by (intro conjI json_round_trip_fit; simp add: json_write_simps json_fit_simps)

lemma json_keys_sort_bytewise_not_by_length: "json_keys_sort_bytewise_not_by_length L"
  unfolding json_keys_sort_bytewise_not_by_length_def collect_map_def Let_def
  by (intro json_round_trip_fit; simp add: json_write_simps json_fit_simps uchar_less_iff bt_get_def)

lemma json_strings_escape_only_what_json_requires: "json_strings_escape_only_what_json_requires L"
  unfolding json_strings_escape_only_what_json_requires_def Let_def json_decode_text unicode_escapes_def
  by (intro conjI json_round_trip_fit; simp add: json_write_simps json_fit_simps json_read_simps quoted_test_simps char_class_defs utf8_char_def)

lemma json_refuses_non_canonical_text: "json_refuses_non_canonical_text L"
  unfolding json_refuses_non_canonical_text_def json_decode_text list.pred_inject
  by (intro conjI; simp add: json_write_simps json_read_simps parse_test_simps)

lemma json_bytes_and_links_use_the_slash_forms:
  assumes "\<And>c. list_all plain (cid_to_string L c)" "\<And>c. cid_from_text L (cid_to_string L c) = Ok c"
  shows "json_bytes_and_links_use_the_slash_forms L"
  unfolding json_bytes_and_links_use_the_slash_forms_def Let_def
  by (intro conjI json_round_trip_fit; simp add: json_write_simps json_fit_simps assms utf8_char_def)

lemma json_refuses_what_it_cannot_sign:
  assumes "\<And>c. list_all plain (to_base58btc L c)" "\<And>c. \<not> is_ok (cid_from_text L (to_base58btc L c))"
    and "\<not> is_ok (cid_from_text L (lit ''not a cid''))"
  shows "json_refuses_what_it_cannot_sign L"
proof -
  have link: "json_decode L (utf8 (lit ''{\"/\":\"'' @ t @ lit ''\"}'')) = Err InvalidCid"
    if pl: "list_all plain t" and bad: "\<not> is_ok (cid_from_text L t)" for t
  proof -
    obtain e where e: "cid_from_text L t = Err e" using bad by (cases "cid_from_text L t") auto
    have run: "takeWhile plain (t @ quote_mark # r) = t" "dropWhile plain (t @ quote_mark # r) = quote_mark # r" for r
      using pl by (simp_all add: takeWhile_append2 dropWhile_append2 list_all_iff plain_def)
    show ?thesis unfolding json_decode_text by (simp add: json_read_simps run MAX_DEPTH_def e)
  qed
  have "json_decode L (utf8 (lit ''{\"/\":\"not a cid\"}'')) = Err InvalidCid"
    using link [OF _ assms(3)] by (simp add: plain_def)
  note cids = this link [OF assms(1,2)]
  show ?thesis unfolding json_refuses_what_it_cannot_sign_def Let_def collect_map_def
    by (intro conjI; (rule cids | (unfold json_decode_text)?, simp add: json_write_simps json_read_simps parse_test_simps))
qed

lemma json_item_too_deep:
  "MAX_DEPTH < d + n \<Longrightarrow> json_item L d (((\<lambda>deep. IList [deep]) ^^ n) v) = Err NestingTooDeep"
  by (induction n arbitrary: d) (simp_all add: json_item.simps)

lemma json_nesting_is_bounded: "json_nesting_is_bounded L"
proof -
  have "js_value L 129 s = Err NestingTooDeep" for s by (simp add: js_value.simps MAX_DEPTH_def)
  then have "js_value L 128 (open_bracket # open_bracket # s) = Err NestingTooDeep" for s
    by (simp add: js_value_list MAX_DEPTH_def js_list_def js_expect_def js_next_def)
  then have inner: "js_value L (0 + 128) (replicate 72 open_bracket @ s) = Err NestingTooDeep" for s
    by (simp add: numeral_eq_Suc)
  have "js_value L 0 (replicate 128 open_bracket @ replicate 72 open_bracket @ s) = Err NestingTooDeep" for s
    by (rule js_value_nested [OF inner]) (simp_all add: MAX_DEPTH_def hd_replicate)
  then have "js_value L 0 (replicate 200 open_bracket @ s) = Err NestingTooDeep" for s
    by (simp add: replicate_add [of 128 72, simplified])
  then show ?thesis
    unfolding json_nesting_is_bounded_def Let_def json_encode_def json_decode_text
    using json_item_too_deep [of 0 200 L INull] by (simp add: MAX_DEPTH_def)
qed

end
