(* ===== verification/Spec2Isabelle.thy ===== *)
theory Spec2Isabelle
  imports Cbor Did Varsig Command Nonce Time Policy_Laws Dag_Json_Laws Ledger Keys Text_Forms Fuzz Tests_Codec
begin

text \<open>
  \<^bold>\<open>The program.\<close> \<open>pq-ucan\<close> is a Rust library for UCAN 1.0 authorization tokens. A
  \<^emph>\<open>delegation\<close> hands a command over a subject from an issuer to an audience, under a
  policy; an \<^emph>\<open>invocation\<close> exercises it and names the delegations that prove its right.
  Both are strict DAG-CBOR envelopes \<open>[signature, {"h": varsig header, tag: payload}]\<close>, signed over
  the second element, either over its bytes as received or over its DAG-JSON text. A validator takes an
  invocation, looks its proofs up in a store, and decides. The same validator judges revocations, which
  are themselves invocations of \<open>/ucan/revoke\<close>.

  This development models the library of \<open>src/\<close> function by function, with every branch and error, and
  proves what makes it correct. The theories follow the modules of the crate:

  \<^item> \<open>Prelude\<close> (results as sums, the slice operations, the codec interfaces, \<open>res_simps\<close>), \<open>Rust_Text\<close>,
    \<open>Text_Ops\<close> and \<open>Text_Order\<close> (\<open>char\<close>, \<open>str\<close>, UTF-8, the integer parsers of \<open>core\<close>, and that the
    order of strings by bytes is the order by code points), \<open>Ordered_Map\<close> (\<open>BTreeMap\<close>) and
    \<open>Float64\<close> (doubles by bit pattern, with exact comparison and casts) are the parts of the language
    and its standard library that the source uses.
  \<^item> \<open>Ipld\<close> is the data model and \<open>cid.rs\<close>. \<open>Varint\<close>, \<open>Codec_Error\<close>, \<open>Cbor_Encode\<close>, \<open>Cbor_Decode\<close> and
    \<open>Dag_Json\<close> are \<open>codec/\<close>. \<open>Cbor_Reads\<close> says of every reading operation which bytes it consumed;
    \<open>Cbor\<close> and \<open>Dag_Json_Laws\<close> hold what the two codecs promise.
  \<^item> \<open>Time\<close>, \<open>Nonce\<close>, \<open>Command\<close>, \<open>Did\<close>, \<open>Varsig\<close>, \<open>Crypto\<close> and \<open>Keys\<close> are the modules of those names;
    \<open>Crypto\<close> is the registry of \<open>crypto/mod.rs\<close> with the dispatch to the four backends, \<open>Keys\<close> their key
    pairs. \<open>Text_Forms\<close> collects the \<open>Display\<close>, \<open>Debug\<close> and \<open>FromStr\<close> implementations.
  \<^item> \<open>Glob\<close>, \<open>Selector\<close> and \<open>Policy\<close> are \<open>policy/\<close>, with their laws in \<open>Policy_Laws\<close>.
  \<^item> \<open>Token_Error\<close> is \<open>error.rs\<close> and the window check of \<open>time.rs\<close>; \<open>Envelope\<close> is \<open>envelope.rs\<close> and
    \<open>Envelope_Laws\<close> what it promises; \<open>Payload_Fields\<close> is the typed reading of payload maps; \<open>Delegation\<close>
    and \<open>Invocation\<close> are the two token types with their builders. \<open>Payload_Laws\<close>, \<open>Token_Laws\<close>,
    \<open>Samples\<close> and \<open>Token_Properties\<close> prove that decoding, assembling, signing and verifying fit together.
  \<^item> \<open>Stores\<close> is the state of \<open>validate.rs\<close> (proof store, replay guard, revocation store), \<open>Validate\<close> its
    pipeline, \<open>Revocation\<close> is \<open>validate/revocation.rs\<close>. \<open>Validate_Laws\<close>, \<open>Validate_Properties\<close> and
    \<open>Revocation_Laws\<close> compare them with the documented rules.
  \<^item> \<open>Executor\<close> puts the stores, the validator and the clock together as a step relation, over which
    whole runs are considered; \<open>Ledger\<close> is the specification that the executor refines.
  \<^item> \<open>Fuzz\<close> states the assertions of \<open>fuzz/fuzz_targets\<close> about the crate and decides them.
  \<^item> \<open>Tests_Basic\<close>, \<open>Tests_Policy\<close> and \<open>Tests_Codec\<close> transcribe the unit tests of the modules, with the
    inputs and results their authors wrote down, and show by evaluation in the kernel that the model passes them:
    a check, independent of the properties, that the definitions compute what the code does.
\<close>

text \<open>
  \<^bold>\<open>How the code is read.\<close> A struct is a record and an enum a datatype with the source's
  constructors. \<open>Result<T, E>\<close> is \<open>'e + 'a\<close> with \<open>Err\<close> and \<open>Ok\<close>, the question mark operator is
  \<open>res_bind\<close>, \<open>map_err\<close> keeps its name. Errors carry what they carry in the source. A function that
  appends to a buffer returns what it appends; a reader or a store that is mutated is returned updated.
  A \<open>char\<close> is a Unicode scalar value and a \<open>str\<close> a list of them, so that every value of the type is a
  valid string. Machine integers are words where they wrap or are shifted (varints, CBOR arguments,
  the skew, floats) and \<open>int\<close> with the range written out where the source checks or saturates (\<open>i64\<close>
  timestamps, \<open>i128\<close> IPLD integers). A \<open>BTreeMap\<close> is the sorted list of its entries: the order is
  observable in encodings. \<open>usize\<close> has 64 bits. Typestate parameters of the builders (an expiry and a
  nonce must have been chosen) are conditions on their records.

  A loop of the source is a recursive function with its termination measure: the glob matcher decreases
  lexicographically in the characters and tokens left and in the position of its backtracking point, and
  is shown to end within \<open>n (k + 1) + k\<close> iterations on \<open>n\<close> characters and \<open>k\<close> tokens; the selector and
  JSON string parsers decrease in the text that remains; the two encoders decrease in the size of the value and
  the two decoders in the nesting that is left of \<open>MAX_DEPTH = 128\<close>. The element loops of the JSON parser are higher-order over the parser of one
  element and carry the length of the text as fuel, one unit for each element: an element
  takes a character, so the fuel never runs out, which is a lemma of \<open>Dag_Json_Laws\<close>. Nothing else is
  bounded.

  \<^bold>\<open>What is a parameter.\<close> Code that is not in the repository is an argument: \<open>cid_lib\<close> holds the CID
  type's conversions, SHA-256 and base58; \<open>crypto_lib\<close> the Cargo features and the primitives of the
  signature backends; \<open>key_lib\<close> their key constructors; \<open>upper\<close> is the Unicode table behind
  \<open>char::is_uppercase\<close>; resolvers, random generators and foreign signers are functions. The properties
  say which hypotheses they need of them:

  \<^item> \<open>bs58_ok\<close>: base58 is a bijection onto texts over its alphanumeric alphabet.
  \<^item> \<open>links_readable\<close>: a CID in a value reads back from its own bytes. Nothing is assumed of hashing,
    except \<open>agrees E\<close> in runs: tokens with one CID have one expiry, which collision resistance
    gives.
  \<^item> \<open>faithful_signer\<close>: what the signer returns has the length of its algorithm and verifies. \<open>Keys\<close>
    derives it for each of the crate's signers from a hypothesis on its backend alone.

  Each is met by the concrete library functions of \<open>Ipld\<close>, \<open>Crypto\<close> and \<open>Samples\<close>, on which the witnesses
  evaluate the properties.
\<close>

text \<open>
  \<^bold>\<open>The interfaces.\<close> What one component relies on in another is a locale, and each is interpreted on
  the model of the code: \<open>ordered_map\<close> (the sorted list of entries), \<open>strict_codec\<close> and its
  extension \<open>round_trip_codec\<close> (CIDs as bytes and text, UTF-8, varsig headers, DAG-CBOR, DAG-JSON, policies),
  \<open>attenuation\<close> (coverage of commands is reflexive and transitive along a chain), \<open>proof_store\<close>,
  \<open>replay_guard\<close> and \<open>revocation_store\<close> (the traits of \<open>validate.rs\<close>, provided by the in-memory stores), and
  \<open>forward_simulation\<close> (the executor by the ledger).

  \<^bold>\<open>What is proved.\<close>

  \<^item> Codecs: DAG-CBOR decoding accepts only the bytes that encoding writes, so that two inputs never
    decode to one value, and reads back every value that encodes; exactly when encoding succeeds; DAG-JSON
    reads back what it writes, up to a limit on nested bytes at which it does not (a defect of the
    encoder, stated as such); headers, keys in \<open>did:key\<close> form, selectors and policies round-trip.
  \<^item> Language: \<open>covers\<close> is the prefix order on segments; the backtracking matcher equals the recursive
    reference matcher on all inputs and is not exponential; comparisons of integers with floats are exact below
    \<open>1e38\<close> and rounded above; a policy check reports the first statement that fails; what an optional
    segment does; which elements a slice selects.
  \<^item> Tokens: what \<open>open\<close> accepts is the canonical encoding of its parts, hence tokens are not
    malleable; payloads are read exactly when they are the wire form of a well-formed payload; every
    decoded or assembled token is well-formed; what is prepared assembles into a token that signs
    just that; what is signed decodes to itself and verifies; a task identifier identifies subject,
    command, arguments and nonce.
  \<^item> Validation: the structural checks are the inductive relation \<open>authority\<close>; \<open>validate\<close> accepts exactly
    when the documented rules hold and reports the first of them that is broken; authority only narrows;
    rejected invocations are not recorded; well-formed tokens never end in the catch-all error; a
    chain issued by faithful signers under the rules is accepted.
  \<^item> Revocation: acceptance is equivalent to the documented rules, and an accepted and recorded revocation
    stops the chain it was judged by.
  \<^item> Runs: over every interleaving of insertions, removals, pruning, revocations, executions, refusals
    and the passing of time, no invocation is executed twice and no accepted revocation is undone; the
    executor refines a ledger that never forgets, so pruning by expiry cannot be observed.

  \<^bold>\<open>Not modelled.\<close> \<open>rng.rs\<close>, a wrapper of the operating system's generator, and \<open>lib.rs\<close>, which only
  declares modules. Of the error types, the messages that \<open>thiserror\<close> derives. Memory: allocation,
  borrowing. Blanket implementations for references (\<open>impl Signer for &S\<close>),
  which forward. In the fuzz targets and unit tests, the comparisons with the third-party
  \<open>serde_ipld\<close> codecs; the unit tests that need the real SHA-256, base58 or signature backends; the
  integration tests under \<open>tests/\<close>.
\<close>

end
